(* ===== verification/Prelude.thy ===== *)
theory Prelude
  imports Main
begin

text \<open>
  What every theory of the development shares: the 64-bit unsigned arithmetic of
  \<^verbatim>\<open>size_t\<close>, the faults a run of the program can end in, the composition of fallible
  operations, and generic facts on lists.
\<close>

section \<open>Named collections\<close>

named_theorems size_simps \<open>size_t arithmetic inside its range\<close>
named_theorems result_simps \<open>composition of fallible operations\<close>

section \<open>Faults\<close>

text \<open>
  Every way a call can fail to return normally. \<open>LengthError\<close> is
  \<^verbatim>\<open>std::length_error\<close> of \<^verbatim>\<open>std::vector\<close>, \<open>BadFunctionCall\<close> the exception of an
  empty \<^verbatim>\<open>std::function\<close>, \<open>OutOfBounds\<close>, \<open>UseAfterFree\<close> and \<open>NullDeref\<close> are accesses C++
  leaves undefined, \<open>SignedOverflow\<close> is the overflow of an \<^verbatim>\<open>int\<close>, undefined
  too, \<open>ExitFailure\<close> is an \<^verbatim>\<open>exit(-1)\<close>. \<open>JsonParse\<close>, \<open>JsonType\<close> and
  \<open>JsonUtf8\<close> are the exceptions of \<^verbatim>\<open>nlohmann::json\<close>, \<open>LogicError\<close> the one of a
  \<^verbatim>\<open>std::string\<close> made from a null pointer, \<open>StdInvalidArgument\<close> and
  \<open>StdOutOfRange\<close> those of \<^verbatim>\<open>std::stoi\<close>; nothing in the repository catches them.
\<close>

datatype fault = LengthError | BadFunctionCall | OutOfBounds | UseAfterFree | NullDeref | ExitFailure
  | SignedOverflow | JsonParse | JsonType | JsonUtf8 | LogicError | StdInvalidArgument | StdOutOfRange

text \<open>Sequencing: run the rest only when the first call returned.\<close>

definition bind_res :: "fault + 'a \<Rightarrow> ('a \<Rightarrow> fault + 'b) \<Rightarrow> fault + 'b" where
  "bind_res r f = (case r of Inl e \<Rightarrow> Inl e | Inr a \<Rightarrow> f a)"

lemma bind_res_simps [simp, result_simps]:
  "bind_res (Inl e) f = Inl e"
  "bind_res (Inr a) f = f a"
  by (simp_all add: bind_res_def)

lemma bind_res_Inr_iff [result_simps]:
  "bind_res r f = Inr b \<longleftrightarrow> (\<exists>a. r = Inr a \<and> f a = Inr b)"
  by (cases r) simp_all

lemma bind_res_Inr_E:
  assumes "bind_res r f = Inr b"
  obtains a where "r = Inr a" and "f a = Inr b"
  using assms by (auto simp: bind_res_Inr_iff)

lemma bind_res_assoc: "bind_res (bind_res r f) g = bind_res r (\<lambda>a. bind_res (f a) g)"
  by (cases r) simp_all

section \<open>The arithmetic of size_t\<close>

definition size_mod :: nat where
  "size_mod = 2 ^ 64"

definition size_add :: "nat \<Rightarrow> nat \<Rightarrow> nat" where
  "size_add a b = (a + b) mod size_mod"

definition size_sub :: "nat \<Rightarrow> nat \<Rightarrow> nat" where
  "size_sub a b = (a + size_mod - b) mod size_mod"

lemma size_add_eq [size_simps]: "a + b < size_mod \<Longrightarrow> size_add a b = a + b"
  by (simp add: size_add_def)

lemma size_sub_eq [size_simps]: "b \<le> a \<Longrightarrow> a < size_mod \<Longrightarrow> size_sub a b = a - b"
  by (simp add: size_sub_def mod_if)

lemma size_add_less: "size_add a b < size_mod"
  by (simp add: size_add_def size_mod_def)

lemma size_add_wraps: "a < size_mod \<Longrightarrow> b < size_mod \<Longrightarrow> size_mod \<le> a + b \<Longrightarrow> size_add a b = a + b - size_mod"
  by (simp add: size_add_def mod_if)

section \<open>Lists written by index\<close>

text \<open>\<open>overwrite i ys xs\<close> stores \<open>ys\<close> into \<open>xs\<close> from index \<open>i\<close> on.\<close>

definition overwrite :: "nat \<Rightarrow> 'a list \<Rightarrow> 'a list \<Rightarrow> 'a list" where
  "overwrite i ys xs = take i xs @ ys @ drop (i + length ys) xs"

lemma length_overwrite [simp]: "i + length ys \<le> length xs \<Longrightarrow> length (overwrite i ys xs) = length xs"
  by (simp add: overwrite_def)

lemma take_overwrite: "i \<le> length xs \<Longrightarrow> take (i + length ys) (overwrite i ys xs) = take i xs @ ys"
  by (simp add: overwrite_def)

lemma overwrite_Nil [simp]: "overwrite i [] xs = xs"
  by (simp add: overwrite_def)

text \<open>The slice of \<open>xs\<close> from \<open>i\<close> up to and without \<open>j\<close>.\<close>

definition slice :: "nat \<Rightarrow> nat \<Rightarrow> 'a list \<Rightarrow> 'a list" where
  "slice i j xs = drop i (take j xs)"

lemma length_slice [simp]: "j \<le> length xs \<Longrightarrow> length (slice i j xs) = j - i"
  by (simp add: slice_def)

lemma slice_empty [simp]: "j \<le> i \<Longrightarrow> slice i j xs = []"
  by (simp add: slice_def)

lemma drop_slice: "drop n (slice i j xs) = slice (i + n) j xs"
  by (simp add: slice_def add.commute)

lemma take_slice: "i + n \<le> j \<Longrightarrow> take n (slice i j xs) = slice i (i + n) xs"
  by (simp add: slice_def take_drop min_def add.commute)

lemma slice_overwrite:
  "r \<le> w \<Longrightarrow> w \<le> length xs \<Longrightarrow> slice r (w + length ys) (overwrite w ys xs) = slice r w xs @ ys"
  by (simp add: slice_def take_overwrite)

lemma take_drop_slice: "take n (drop i xs) = slice i (i + n) xs"
  by (simp add: slice_def take_drop add.commute)

end
