(* ===== verification/Buffer.thy ===== *)
theory Buffer
  imports Prelude
begin

text \<open>
  \<^verbatim>\<open>class Buffer\<close> of \<^verbatim>\<open>MyMuduo/Buffer.h\<close> and \<^verbatim>\<open>MyMuduo/Buffer.cc\<close>: a byte vector with a
  read and a write index. The first part is the code; the second shows that it is a byte
  queue whose content is the slice between the indices; the last states the interface
  its users rely on as a locale and interprets it on the code.
\<close>

section \<open>The code\<close>

record buffer =
  bytes :: "char list"
  readerIndex :: nat
  writeIndex :: nat

definition kCheapPrepend :: nat where
  "kCheapPrepend = 8"

definition kInitialSize :: nat where
  "kInitialSize = 1024"

text \<open>\<^verbatim>\<open>std::vector<char>\<close>: its largest size (\<^verbatim>\<open>PTRDIFF_MAX\<close>), and \<^verbatim>\<open>resize\<close>.\<close>

definition vec_max_size :: nat where
  "vec_max_size = 2 ^ 63 - 1"

definition vec_resize :: "nat \<Rightarrow> char list \<Rightarrow> fault + char list" where
  "vec_resize n xs =
     (if vec_max_size < n then Inl LengthError
      else Inr (take n xs @ replicate (n - length xs) (CHR 0x00)))"

definition newBuffer :: "nat \<Rightarrow> fault + buffer" where
  "newBuffer initialSize =
     bind_res (vec_resize (size_add kCheapPrepend initialSize) [])
       (\<lambda>v. Inr \<lparr>bytes = v, readerIndex = kCheapPrepend, writeIndex = kCheapPrepend\<rparr>)"

definition readableBytes :: "buffer \<Rightarrow> nat" where
  "readableBytes b = size_sub (writeIndex b) (readerIndex b)"

definition writeableBytes :: "buffer \<Rightarrow> nat" where
  "writeableBytes b = size_sub (length (bytes b)) (writeIndex b)"

definition prependableBytes :: "buffer \<Rightarrow> nat" where
  "prependableBytes b = readerIndex b"

definition retrieveAll :: "buffer \<Rightarrow> buffer" where
  "retrieveAll b = b\<lparr>readerIndex := kCheapPrepend, writeIndex := kCheapPrepend\<rparr>"

definition retrieve :: "nat \<Rightarrow> buffer \<Rightarrow> buffer" where
  "retrieve len b =
     (if len < readableBytes b then b\<lparr>readerIndex := size_add (readerIndex b) len\<rparr>
      else retrieveAll b)"

text \<open>
  \<^verbatim>\<open>std::string result(peek(),len)\<close> copies \<open>len\<close> bytes from the read index on,
  whatever is readable there; past the end of the vector the copy is undefined, and a
  length no string can have (the bound is that of the vector) throws.
\<close>

definition peekBytes :: "nat \<Rightarrow> buffer \<Rightarrow> fault + char list" where
  "peekBytes len b =
     (if readerIndex b + len \<le> length (bytes b)
      then Inr (take len (drop (readerIndex b) (bytes b))) else Inl OutOfBounds)"

definition retrieveAsString :: "nat \<Rightarrow> buffer \<Rightarrow> fault + (char list \<times> buffer)" where
  "retrieveAsString len b =
     (if vec_max_size < len then Inl LengthError
      else bind_res (peekBytes len b) (\<lambda>s. Inr (s, retrieve len b)))"

definition retrieveAllAsString :: "buffer \<Rightarrow> fault + (char list \<times> buffer)" where
  "retrieveAllAsString b = retrieveAsString (readableBytes b) b"

text \<open>
  \<^verbatim>\<open>std::copy\<close> inside one vector, byte by byte from the front, as the compaction in
  \<^verbatim>\<open>makeSpace\<close> uses it: source and target overlap.
\<close>

function copyWithin :: "nat \<Rightarrow> nat \<Rightarrow> nat \<Rightarrow> char list \<Rightarrow> char list" where
  "copyWithin src until dst xs =
     (if src < until then copyWithin (Suc src) until (Suc dst) (xs[dst := xs ! src]) else xs)"
  by pat_completeness auto
termination
  by (relation "measure (\<lambda>(src, until, dst, xs). until - src)") auto

declare copyWithin.simps [simp del]

definition makeSpace :: "nat \<Rightarrow> buffer \<Rightarrow> fault + buffer" where
  "makeSpace len b =
     (if size_add (writeableBytes b) (prependableBytes b) < size_add len kCheapPrepend
      then bind_res (vec_resize (size_add (writeIndex b) len) (bytes b))
             (\<lambda>v. Inr (b\<lparr>bytes := v\<rparr>))
      else let readable = readableBytes b in
           Inr (b\<lparr>bytes := copyWithin (readerIndex b) (writeIndex b) kCheapPrepend (bytes b),
                  readerIndex := kCheapPrepend,
                  writeIndex := size_add kCheapPrepend readable\<rparr>))"

definition ensureWriteableBytes :: "nat \<Rightarrow> buffer \<Rightarrow> fault + buffer" where
  "ensureWriteableBytes len b =
     (if writeableBytes b < len then makeSpace len b else Inr b)"

text \<open>Storing bytes from the write index on, as \<^verbatim>\<open>std::copy(data,data+len,beginWrite())\<close>.\<close>

definition storeAtWrite :: "char list \<Rightarrow> buffer \<Rightarrow> fault + buffer" where
  "storeAtWrite xs b =
     (if writeIndex b + length xs \<le> length (bytes b)
      then Inr (b\<lparr>bytes := overwrite (writeIndex b) xs (bytes b)\<rparr>) else Inl OutOfBounds)"

definition appendBytes :: "char list \<Rightarrow> buffer \<Rightarrow> fault + buffer" where
  "appendBytes xs b =
     bind_res (ensureWriteableBytes (length xs) b) (\<lambda>b.
     bind_res (storeAtWrite xs b) (\<lambda>b.
     Inr (b\<lparr>writeIndex := size_add (writeIndex b) (length xs)\<rparr>)))"

text \<open>
  \<^verbatim>\<open>readFd\<close>: the kernel's \<^verbatim>\<open>readv\<close> is the parameter \<open>rv\<close>; given the room offered
  and the state \<open>'w\<close> of the outside, it answers with an error number or the bytes it
  scattered over the two blocks. The result is what the call returns (\<open>Inl\<close> for a
  negative return with the saved \<^verbatim>\<open>errno\<close>, \<open>Inr\<close> for the byte count), the new
  buffer and the outside.
\<close>

definition extrabufSize :: nat where
  "extrabufSize = 65536"

definition readvRoom :: "buffer \<Rightarrow> nat" where
  "readvRoom b =
     (let writable = writeableBytes b
      in if writable < extrabufSize then writable + extrabufSize else writable)"

definition readFd :: "(nat \<Rightarrow> 'w \<Rightarrow> (int + char list) \<times> 'w) \<Rightarrow> buffer \<Rightarrow> 'w \<Rightarrow>
    fault + ((int + nat) \<times> buffer \<times> 'w)" where
  "readFd rv b w =
     (let writable = writeableBytes b;
          (res, w) = rv (readvRoom b) w in
      case res of
        Inl err \<Rightarrow> Inr (Inl err, b, w)
      | Inr got \<Rightarrow>
          let n = length got in
          bind_res (storeAtWrite (take writable got) b) (\<lambda>b.
          if n \<le> writable
          then Inr (Inr n, b\<lparr>writeIndex := size_add (writeIndex b) n\<rparr>, w)
          else bind_res (appendBytes (drop writable got) (b\<lparr>writeIndex := length (bytes b)\<rparr>))
                 (\<lambda>b. Inr (Inr n, b, w))))"

text \<open>
  \<^verbatim>\<open>writeFd\<close>: the kernel's \<^verbatim>\<open>write\<close> is the parameter \<open>wr\<close>, which answers the bytes
  offered with the value returned and \<^verbatim>\<open>errno\<close>. The second component is what is stored
  through \<^verbatim>\<open>savedErrno\<close>, if anything. The buffer is not changed.
\<close>

definition writeFd :: "(char list \<Rightarrow> 'w \<Rightarrow> (int \<times> int) \<times> 'w) \<Rightarrow> buffer \<Rightarrow> 'w \<Rightarrow>
    fault + ((int \<times> int option) \<times> 'w)" where
  "writeFd wr b w = bind_res (peekBytes (readableBytes b) b)
     (\<lambda>s. let ((n, err), w) = wr s w in Inr ((n, if n < 0 then Some err else None), w))"

section \<open>The buffer as a byte queue\<close>

definition content :: "buffer \<Rightarrow> char list" where
  "content b = slice (readerIndex b) (writeIndex b) (bytes b)"

text \<open>
  The picture at the head of \<^verbatim>\<open>Buffer.h\<close>, with the reserved bytes in front and the
  bound of the vector.
\<close>

definition buf_ok :: "buffer \<Rightarrow> bool" where
  "buf_ok b \<longleftrightarrow> kCheapPrepend \<le> readerIndex b \<and> readerIndex b \<le> writeIndex b \<and>
     writeIndex b \<le> length (bytes b) \<and> length (bytes b) \<le> vec_max_size"

lemmas buf_defs = readableBytes_def writeableBytes_def prependableBytes_def
  kCheapPrepend_def vec_max_size_def size_mod_def

lemma buf_okI [intro]:
  "kCheapPrepend \<le> readerIndex b \<Longrightarrow> readerIndex b \<le> writeIndex b \<Longrightarrow>
   writeIndex b \<le> length (bytes b) \<Longrightarrow> length (bytes b) \<le> vec_max_size \<Longrightarrow> buf_ok b"
  by (simp add: buf_ok_def)

lemma buf_okD:
  assumes "buf_ok b"
  shows "kCheapPrepend \<le> readerIndex b" "readerIndex b \<le> writeIndex b"
    "writeIndex b \<le> length (bytes b)" "length (bytes b) \<le> vec_max_size"
  using assms by (simp_all add: buf_ok_def)

lemma vec_max_size_less: "vec_max_size + vec_max_size < size_mod"
  by (simp add: vec_max_size_def size_mod_def)

text \<open>Within the invariant no index computation wraps around.\<close>

lemma sizes_ok:
  assumes "buf_ok b"
  shows readableBytes_ok: "readableBytes b = writeIndex b - readerIndex b"
    and writeableBytes_ok: "writeableBytes b = length (bytes b) - writeIndex b"
    and readableBytes_content: "readableBytes b = length (content b)"
proof -
  note ok = buf_okD [OF assms] and small = vec_max_size_less
  show r: "readableBytes b = writeIndex b - readerIndex b"
    using ok small by (simp add: readableBytes_def size_sub_eq)
  show "writeableBytes b = length (bytes b) - writeIndex b"
    using ok small by (simp add: writeableBytes_def size_sub_eq)
  show "readableBytes b = length (content b)"
    using ok by (simp add: r content_def)
qed

lemma content_bounded: "buf_ok b \<Longrightarrow> length (content b) \<le> vec_max_size"
  by (auto simp: buf_ok_def content_def)

subsection \<open>Reading out\<close>

lemma retrieveAll_ok: "buf_ok b \<Longrightarrow> buf_ok (retrieveAll b)"
  and retrieveAll_content: "content (retrieveAll b) = []"
  by (auto simp: retrieveAll_def buf_ok_def content_def)

lemma retrieve_ok:
  assumes "buf_ok b"
  shows "buf_ok (retrieve n b)"
proof (cases "n < readableBytes b")
  case True
  with assms vec_max_size_less show ?thesis
    by (auto simp: retrieve_def readableBytes_ok size_add_eq buf_ok_def)
next
  case False
  with assms show ?thesis by (simp add: retrieve_def retrieveAll_ok)
qed

lemma retrieve_content:
  assumes "buf_ok b"
  shows "content (retrieve n b) = drop n (content b)"
proof (cases "n < readableBytes b")
  case True
  with assms vec_max_size_less have "content (retrieve n b) = slice (readerIndex b + n) (writeIndex b) (bytes b)"
    by (auto simp: retrieve_def content_def readableBytes_ok size_add_eq buf_ok_def)
  then show ?thesis by (simp add: content_def drop_slice)
next
  case False
  with assms show ?thesis
    by (simp add: retrieve_def retrieveAll_content readableBytes_content)
qed

lemma peekBytes_content:
  assumes "buf_ok b" and "n \<le> length (content b)"
  shows "peekBytes n b = Inr (take n (content b))"
proof -
  note ok = buf_okD [OF assms(1)]
  from assms(2) ok have "readerIndex b + n \<le> writeIndex b" by (simp add: content_def)
  with ok show ?thesis by (simp add: peekBytes_def content_def take_slice take_drop_slice)
qed

lemma retrieveAsString_content:
  "buf_ok b \<Longrightarrow> n \<le> length (content b) \<Longrightarrow>
   retrieveAsString n b = Inr (take n (content b), retrieve n b)"
  using content_bounded [of b] by (simp add: retrieveAsString_def peekBytes_content)

lemma retrieveAllAsString_content:
  "buf_ok b \<Longrightarrow> retrieveAllAsString b = Inr (content b, retrieveAll b)"
  by (simp add: retrieveAllAsString_def retrieveAsString_content readableBytes_content retrieve_def)

subsection \<open>Making room\<close>

lemma length_copyWithin [simp]: "length (copyWithin src until dst xs) = length xs"
proof (induction src until dst xs rule: copyWithin.induct)
  case (1 src until dst xs)
  then show ?case by (subst copyWithin.simps) simp
qed

text \<open>Copying towards the front is right although the ranges overlap.\<close>

lemma copyWithin_forward:
  "dst \<le> src \<Longrightarrow> src \<le> until \<Longrightarrow> until \<le> length xs \<Longrightarrow>
   copyWithin src until dst xs = overwrite dst (slice src until xs) xs"
proof (induction src until dst xs rule: copyWithin.induct)
  case (1 src until dst xs)
  show ?case
  proof (cases "src < until")
    case True
    let ?ys = "xs[dst := xs ! src]"
    from "1.prems" True have "copyWithin src until dst xs = overwrite (Suc dst) (slice (Suc src) until ?ys) ?ys"
      by (subst copyWithin.simps) (simp add: "1.IH" [OF True] Suc_le_eq)
    moreover from "1.prems" True have "slice (Suc src) until ?ys = slice (Suc src) until xs"
      by (simp add: slice_def take_update_swap drop_update_cancel)
    moreover from "1.prems" True have "slice src until xs = xs ! src # slice (Suc src) until xs"
      by (simp add: slice_def Cons_nth_drop_Suc [symmetric])
    moreover from "1.prems" True have "take (Suc dst) ?ys = take dst xs @ [xs ! src]"
      by (simp add: take_Suc_conv_app_nth)
    moreover from "1.prems" True have "drop (Suc dst + (until - Suc src)) ?ys = drop (Suc dst + (until - Suc src)) xs"
      by (simp add: drop_update_cancel)
    ultimately show ?thesis using "1.prems" True by (simp add: overwrite_def)
  next
    case False
    with "1.prems" show ?thesis by (subst copyWithin.simps) simp
  qed
qed

text \<open>
  The two ways \<^verbatim>\<open>makeSpace\<close> finds room, for a length that \<^verbatim>\<open>size_t\<close> can add to.
\<close>

definition needs_resize :: "nat \<Rightarrow> buffer \<Rightarrow> bool" where
  "needs_resize len b \<longleftrightarrow> length (bytes b) - writeIndex b + readerIndex b < len + kCheapPrepend"

lemma makeSpace_cond:
  assumes "buf_ok b" and "len \<le> vec_max_size"
  shows "size_add (writeableBytes b) (prependableBytes b) < size_add len kCheapPrepend \<longleftrightarrow> needs_resize len b"
proof -
  from buf_okD [OF assms(1)] assms(2)
  have "length (bytes b) - writeIndex b + readerIndex b < size_mod" and "len + kCheapPrepend < size_mod"
    by (simp_all add: buf_defs)
  then show ?thesis
    using assms(1) by (simp add: needs_resize_def writeableBytes_ok prependableBytes_def size_add_eq)
qed

lemma makeSpace_resize:
  assumes ok: "buf_ok b" and len: "len \<le> vec_max_size" and need: "needs_resize len b"
    and room: "writeableBytes b < len"
  shows "makeSpace len b =
    (if vec_max_size < writeIndex b + len then Inl LengthError
     else Inr (b\<lparr>bytes := bytes b @ replicate (writeIndex b + len - length (bytes b)) (CHR 0x00)\<rparr>))"
proof -
  note bounds = buf_okD [OF ok]
  from bounds len vec_max_size_less have "size_add (writeIndex b) len = writeIndex b + len"
    by (simp add: size_add_eq)
  moreover from room bounds have "take (writeIndex b + len) (bytes b) = bytes b"
    using ok by (simp add: writeableBytes_ok)
  ultimately show ?thesis
    using need by (simp add: makeSpace_def makeSpace_cond [OF ok len] vec_resize_def)
qed

lemma makeSpace_compact:
  assumes ok: "buf_ok b" and len: "len \<le> vec_max_size" and no: "\<not> needs_resize len b"
  shows "makeSpace len b = Inr (b\<lparr>bytes := overwrite kCheapPrepend (content b) (bytes b),
    readerIndex := kCheapPrepend, writeIndex := kCheapPrepend + length (content b)\<rparr>)"
proof -
  note bounds = buf_okD [OF ok]
  have copy: "copyWithin (readerIndex b) (writeIndex b) kCheapPrepend (bytes b) =
      overwrite kCheapPrepend (content b) (bytes b)"
    using bounds by (simp add: copyWithin_forward content_def)
  have "size_add kCheapPrepend (length (content b)) = kCheapPrepend + length (content b)"
    using content_bounded [OF ok] by (intro size_add_eq) (simp add: buf_defs)
  then show ?thesis
    using no copy by (simp add: makeSpace_def makeSpace_cond [OF ok len] Let_def readableBytes_content [OF ok])
qed

lemma slice_take_eq: "j \<le> length xs \<Longrightarrow> slice i j (xs @ ys) = slice i j xs"
  by (simp add: slice_def)

lemma ensureWriteableBytes_spec:
  assumes ok: "buf_ok b" and len: "len \<le> vec_max_size" and r: "ensureWriteableBytes len b = Inr b'"
  shows "buf_ok b' \<and> content b' = content b \<and> writeIndex b' + len \<le> length (bytes b') \<and>
    length (bytes b') \<le> length (bytes b) + len"
proof (cases "writeableBytes b < len")
  case False
  with r ok show ?thesis by (auto simp: ensureWriteableBytes_def writeableBytes_ok buf_ok_def)
next
  case short: True
  note bounds = buf_okD [OF ok]
  from short r have m: "makeSpace len b = Inr b'" by (simp add: ensureWriteableBytes_def)
  show ?thesis
  proof (cases "needs_resize len b")
    case True
    with m makeSpace_resize [OF ok len _ short] have room: "writeIndex b + len \<le> vec_max_size"
      and b': "b' = b\<lparr>bytes := bytes b @ replicate (writeIndex b + len - length (bytes b)) (CHR 0x00)\<rparr>"
      by (auto split: if_splits)
    from short ok have "length (bytes b) < writeIndex b + len" by (auto simp: writeableBytes_ok)
    with b' room bounds show ?thesis by (auto simp: content_def slice_take_eq buf_ok_def)
  next
    case False
    with m makeSpace_compact [OF ok len] have b': "b' = b\<lparr>bytes := overwrite kCheapPrepend (content b) (bytes b),
        readerIndex := kCheapPrepend, writeIndex := kCheapPrepend + length (content b)\<rparr>" by simp
    have fit: "kCheapPrepend + length (content b) \<le> length (bytes b)"
      using bounds by (simp add: content_def)
    have "content b' = slice kCheapPrepend kCheapPrepend (bytes b) @ content b"
      unfolding b' content_def [of "b\<lparr>bytes := _, readerIndex := _, writeIndex := _\<rparr>"]
      using bounds fit by (simp add: slice_overwrite)
    moreover from False bounds have "kCheapPrepend + length (content b) + len \<le> length (bytes b)"
      by (simp add: needs_resize_def content_def)
    ultimately show ?thesis using bounds fit by (simp add: b' buf_ok_def)
  qed
qed

lemma ensureWriteableBytes_Inl_iff:
  assumes ok: "buf_ok b" and len: "len \<le> vec_max_size"
  shows "ensureWriteableBytes len b = Inl e \<longleftrightarrow>
    e = LengthError \<and> writeableBytes b < len \<and> needs_resize len b \<and> vec_max_size < writeIndex b + len"
proof (cases "writeableBytes b < len \<and> needs_resize len b")
  case True
  then show ?thesis
    using makeSpace_resize [OF ok len] by (auto simp: ensureWriteableBytes_def)
next
  case False
  then show ?thesis
    using makeSpace_compact [OF ok len] by (auto simp: ensureWriteableBytes_def)
qed

subsection \<open>Appending\<close>

lemma storeAtWrite_ok:
  "writeIndex b + length xs \<le> length (bytes b) \<Longrightarrow>
   storeAtWrite xs b = Inr (b\<lparr>bytes := overwrite (writeIndex b) xs (bytes b)\<rparr>)"
  by (simp add: storeAtWrite_def)

lemma stored_content:
  assumes "buf_ok b" and "writeIndex b + length xs \<le> length (bytes b)"
  shows "buf_ok (b\<lparr>bytes := overwrite (writeIndex b) xs (bytes b), writeIndex := writeIndex b + length xs\<rparr>)"
    and "content (b\<lparr>bytes := overwrite (writeIndex b) xs (bytes b), writeIndex := writeIndex b + length xs\<rparr>) =
      content b @ xs"
  using assms by (auto simp: buf_ok_def content_def slice_overwrite)

lemma appendBytes_Inr:
  assumes ok: "buf_ok b" and len: "length xs \<le> vec_max_size" and r: "ensureWriteableBytes (length xs) b = Inr b1"
  obtains b' where "appendBytes xs b = Inr b'" "buf_ok b'" "content b' = content b @ xs"
    "length (bytes b') \<le> length (bytes b) + length xs"
proof -
  from ensureWriteableBytes_spec [OF ok len r] have ok1: "buf_ok b1" and c1: "content b1 = content b"
    and room: "writeIndex b1 + length xs \<le> length (bytes b1)"
    and grow: "length (bytes b1) \<le> length (bytes b) + length xs" by auto
  let ?b' = "b1\<lparr>bytes := overwrite (writeIndex b1) xs (bytes b1), writeIndex := writeIndex b1 + length xs\<rparr>"
  have "size_add (writeIndex b1) (length xs) = writeIndex b1 + length xs"
    using room buf_okD [OF ok1] vec_max_size_less by (intro size_add_eq) linarith
  with r room have "appendBytes xs b = Inr ?b'"
    by (simp add: appendBytes_def storeAtWrite_ok)
  with stored_content [OF ok1 room] c1 grow room show thesis
    by (intro that [of ?b']) simp_all
qed

lemma appendBytes_spec:
  assumes "buf_ok b" and "length xs \<le> vec_max_size" and "appendBytes xs b = Inr b'"
  shows "buf_ok b' \<and> content b' = content b @ xs \<and> length (bytes b') \<le> length (bytes b) + length xs"
proof -
  from assms(3) obtain b1 where "ensureWriteableBytes (length xs) b = Inr b1"
    by (auto simp: appendBytes_def bind_res_Inr_iff)
  then obtain b2 where "appendBytes xs b = Inr b2" "buf_ok b2" "content b2 = content b @ xs"
      "length (bytes b2) \<le> length (bytes b) + length xs"
    by (rule appendBytes_Inr [OF assms(1,2)])
  with assms(3) show ?thesis by simp
qed

lemma appendBytes_Inl_iff:
  assumes "buf_ok b" and "length xs \<le> vec_max_size"
  shows "appendBytes xs b = Inl e \<longleftrightarrow>
    e = LengthError \<and> writeableBytes b < length xs \<and> needs_resize (length xs) b \<and>
    vec_max_size < writeIndex b + length xs"
proof (cases "ensureWriteableBytes (length xs) b")
  case (Inl e')
  then have "appendBytes xs b = Inl e'" by (simp add: appendBytes_def)
  with Inl ensureWriteableBytes_Inl_iff [OF assms, of e'] show ?thesis by auto
next
  case (Inr b1)
  obtain b' where "appendBytes xs b = Inr b'" by (rule appendBytes_Inr [OF assms Inr])
  with Inr ensureWriteableBytes_Inl_iff [OF assms, of LengthError] show ?thesis by auto
qed

text \<open>Room for \<open>n\<close> more bytes, whatever the indices are.\<close>

definition fits :: "nat \<Rightarrow> buffer \<Rightarrow> bool" where
  "fits n b \<longleftrightarrow> length (bytes b) + n \<le> vec_max_size"

lemma fits_mono: "fits n b \<Longrightarrow> m \<le> n \<Longrightarrow> fits m b"
  by (simp add: fits_def)

lemma appendBytes_fits:
  assumes ok: "buf_ok b" and "fits (length xs) b"
  obtains b' where "appendBytes xs b = Inr b'" "buf_ok b'" "content b' = content b @ xs"
    "length (bytes b') \<le> length (bytes b) + length xs"
proof -
  from assms have len: "length xs \<le> vec_max_size" and "\<not> vec_max_size < writeIndex b + length xs"
    by (auto simp: fits_def buf_ok_def)
  with appendBytes_Inl_iff [OF ok len] obtain b' where r: "appendBytes xs b = Inr b'"
    by (cases "appendBytes xs b") auto
  with appendBytes_spec [OF ok len r] show thesis by (intro that [OF r]) auto
qed

subsection \<open>Construction\<close>

lemma newBuffer_ok:
  assumes "kCheapPrepend + n \<le> vec_max_size"
  obtains b where "newBuffer n = Inr b" "buf_ok b" "content b = []" "length (bytes b) = kCheapPrepend + n"
proof -
  from assms vec_max_size_less have "size_add kCheapPrepend n = kCheapPrepend + n"
    by (intro size_add_eq) linarith
  with assms have r: "newBuffer n = Inr \<lparr>bytes = replicate (kCheapPrepend + n) (CHR 0x00),
      readerIndex = kCheapPrepend, writeIndex = kCheapPrepend\<rparr>"
    by (simp add: newBuffer_def vec_resize_def)
  show thesis by (rule that [OF r]) (use assms in \<open>auto simp: buf_ok_def content_def\<close>)
qed

subsection \<open>Between the buffer and a file descriptor\<close>

lemma readFd_error: "rv (readvRoom b) w = (Inl err, w') \<Longrightarrow> readFd rv b w = Inr (Inl err, b, w')"
  by (simp add: readFd_def)

lemma readFd_short:
  assumes ok: "buf_ok b" and got: "rv (readvRoom b) w = (Inr got, w')" and short: "length got \<le> writeableBytes b"
  obtains b' where "readFd rv b w = Inr (Inr (length got), b', w')" "buf_ok b'" "content b' = content b @ got"
proof -
  from short ok have room: "writeIndex b + length got \<le> length (bytes b)"
    using buf_okD(3) [OF ok] by (simp add: writeableBytes_ok)
  have "size_add (writeIndex b) (length got) = writeIndex b + length got"
    using room buf_okD [OF ok] vec_max_size_less by (intro size_add_eq) linarith
  with got short room have "readFd rv b w = Inr (Inr (length got),
      b\<lparr>bytes := overwrite (writeIndex b) got (bytes b), writeIndex := writeIndex b + length got\<rparr>, w')"
    by (simp add: readFd_def Let_def storeAtWrite_ok)
  with stored_content [OF ok room] show thesis by (intro that) simp_all
qed

lemma readFd_long:
  assumes ok: "buf_ok b" and got: "rv (readvRoom b) w = (Inr got, w')" and long: "writeableBytes b < length got"
    and fit: "fits (length got) b"
  obtains b' where "readFd rv b w = Inr (Inr (length got), b', w')" "buf_ok b'" "content b' = content b @ got"
proof -
  let ?w = "writeableBytes b"
  let ?b1 = "b\<lparr>bytes := overwrite (writeIndex b) (take ?w got) (bytes b), writeIndex := length (bytes b)\<rparr>"
  have wsum: "writeIndex b + length (take ?w got) = length (bytes b)"
    using long buf_okD(3) [OF ok] by (simp add: writeableBytes_ok [OF ok])
  have ok1: "buf_ok ?b1" and c1: "content ?b1 = content b @ take ?w got"
    using stored_content [OF ok, of "take ?w got"] wsum by simp_all
  have "fits (length (drop ?w got)) ?b1"
    using fit wsum by (simp add: fits_def)
  then obtain b' where a: "appendBytes (drop ?w got) ?b1 = Inr b'" "buf_ok b'"
      "content b' = content ?b1 @ drop ?w got"
    by (rule appendBytes_fits [OF ok1])
  have "readFd rv b w = Inr (Inr (length got), b', w')"
    using got long a(1) wsum by (simp add: readFd_def Let_def storeAtWrite_ok)
  with a c1 show thesis by (intro that) simp_all
qed

lemma readFd_content:
  assumes "buf_ok b" and "rv (readvRoom b) w = (Inr got, w')" and "fits (length got) b"
  obtains b' where "readFd rv b w = Inr (Inr (length got), b', w')" "buf_ok b'" "content b' = content b @ got"
proof (cases "length got \<le> writeableBytes b")
  case True
  show thesis by (rule readFd_short [of b rv w got w', OF assms(1,2) True]) (rule that)
next
  case False
  then have "writeableBytes b < length got" by simp
  show thesis
    by (rule readFd_long [of b rv w got w', OF assms(1,2) \<open>writeableBytes b < length got\<close> assms(3)]) (rule that)
qed

text \<open>What \<^verbatim>\<open>readFd\<close> did, when it returned: the bytes delivered are at the back.\<close>

lemma readFd_Inr:
  assumes ok: "buf_ok b" and small: "\<And>got w'. rv (readvRoom b) w = (Inr got, w') \<Longrightarrow> length got \<le> vec_max_size"
    and r: "readFd rv b w = Inr (res, b', w')"
  shows "buf_ok b'" and "case res of Inl err \<Rightarrow> rv (readvRoom b) w = (Inl err, w') \<and> b' = b
    | Inr n \<Rightarrow> \<exists>got. rv (readvRoom b) w = (Inr got, w') \<and> n = length got \<and> content b' = content b @ got"
proof -
  have "buf_ok b' \<and> (case res of Inl err \<Rightarrow> rv (readvRoom b) w = (Inl err, w') \<and> b' = b
    | Inr n \<Rightarrow> \<exists>got. rv (readvRoom b) w = (Inr got, w') \<and> n = length got \<and> content b' = content b @ got)"
  proof (cases "rv (readvRoom b) w")
    case (Pair ans w1)
    show ?thesis
    proof (cases ans)
      case (Inl err)
      with Pair r ok show ?thesis by (auto simp: readFd_def)
    next
      case (Inr got)
      with Pair have got: "rv (readvRoom b) w = (Inr got, w1)" by simp
      show ?thesis
      proof (cases "length got \<le> writeableBytes b")
        case True
        show ?thesis
          by (rule readFd_short [of b rv w got w1, OF ok got True]) (use r got in auto)
      next
        case False
        let ?w = "writeableBytes b"
        let ?b1 = "b\<lparr>bytes := overwrite (writeIndex b) (take ?w got) (bytes b), writeIndex := length (bytes b)\<rparr>"
        have wsum: "writeIndex b + length (take ?w got) = length (bytes b)"
          using False buf_okD(3) [OF ok] by (simp add: writeableBytes_ok [OF ok])
        have ok1: "buf_ok ?b1" and c1: "content ?b1 = content b @ take ?w got"
          using stored_content [OF ok, of "take ?w got"] wsum by simp_all
        from r got False wsum have a: "appendBytes (drop ?w got) ?b1 = Inr b'" and "res = Inr (length got)" "w' = w1"
          by (auto simp: readFd_def Let_def storeAtWrite_ok bind_res_Inr_iff)
        moreover have "length (drop ?w got) \<le> vec_max_size" using small [OF got] by simp
        ultimately show ?thesis using appendBytes_spec [OF ok1 _ a] c1 got by simp
      qed
    qed
  qed
  then show "buf_ok b'" and "case res of Inl err \<Rightarrow> rv (readvRoom b) w = (Inl err, w') \<and> b' = b
    | Inr n \<Rightarrow> \<exists>got. rv (readvRoom b) w = (Inr got, w') \<and> n = length got \<and> content b' = content b @ got"
    by blast+
qed

lemma writeFd_content:
  assumes "buf_ok b" and "wr (content b) w = ((n, err), w')"
  shows "writeFd wr b w = Inr ((n, if n < 0 then Some err else None), w')"
  using assms by (simp add: writeFd_def readableBytes_content peekBytes_content)

section \<open>The interface\<close>

text \<open>
  What a connection and an application use of a buffer: bytes go in at the back and come
  out at the front. \<open>queue_run\<close> is a client: a run of appends and of
  \<^verbatim>\<open>retrieveAllAsString\<close> calls, returning what the latter handed out.
\<close>

datatype qop = Put "char list" | TakeAll

fun queue_run :: "(char list \<Rightarrow> 'q \<Rightarrow> fault + 'q) \<Rightarrow> ('q \<Rightarrow> fault + (char list \<times> 'q)) \<Rightarrow>
    qop list \<Rightarrow> 'q \<Rightarrow> fault + (char list \<times> 'q)" where
  "queue_run put takeAll [] q = Inr ([], q)"
| "queue_run put takeAll (Put xs # ops) q =
     bind_res (put xs q) (\<lambda>q. queue_run put takeAll ops q)"
| "queue_run put takeAll (TakeAll # ops) q =
     bind_res (takeAll q) (\<lambda>(s, q).
     bind_res (queue_run put takeAll ops q) (\<lambda>(out, q). Inr (s @ out, q)))"

fun puts :: "qop list \<Rightarrow> char list list" where
  "puts [] = []"
| "puts (Put xs # ops) = xs # puts ops"
| "puts (TakeAll # ops) = puts ops"

locale byte_queue =
  fixes inv :: "'q \<Rightarrow> bool"
    and abs :: "'q \<Rightarrow> char list"
    and put :: "char list \<Rightarrow> 'q \<Rightarrow> fault + 'q"
    and takeAll :: "'q \<Rightarrow> fault + (char list \<times> 'q)"
    and skip :: "nat \<Rightarrow> 'q \<Rightarrow> 'q"
    and count :: "'q \<Rightarrow> nat"
    and held :: "'q \<Rightarrow> nat"
  assumes put_law: "inv q \<Longrightarrow> length xs \<le> vec_max_size \<Longrightarrow> put xs q = Inr q' \<Longrightarrow> inv q' \<and> abs q' = abs q @ xs"
    and put_fits: "inv q \<Longrightarrow> held q + length xs \<le> vec_max_size \<Longrightarrow>
      \<exists>q'. put xs q = Inr q' \<and> held q' \<le> held q + length xs"
    and takeAll_law: "inv q \<Longrightarrow> \<exists>q'. takeAll q = Inr (abs q, q') \<and> inv q' \<and> abs q' = [] \<and> held q' = held q"
    and skip_law: "inv q \<Longrightarrow> inv (skip n q) \<and> abs (skip n q) = drop n (abs q)"
    and count_law: "inv q \<Longrightarrow> count q = length (abs q)"
begin

lemma put_inv: "inv q \<Longrightarrow> length xs \<le> vec_max_size \<Longrightarrow> put xs q = Inr q' \<Longrightarrow> inv q'"
  and put_abs: "inv q \<Longrightarrow> length xs \<le> vec_max_size \<Longrightarrow> put xs q = Inr q' \<Longrightarrow> abs q' = abs q @ xs"
  using put_law by blast+

lemma count_zero: "inv q \<Longrightarrow> count q = 0 \<longleftrightarrow> abs q = []"
  by (simp add: count_law)

lemma skip_count: "inv q \<Longrightarrow> count (skip n q) = count q - n"
  by (simp add: count_law skip_law)

text \<open>Sending the front \<open>n\<close> bytes and dropping them loses and repeats nothing.\<close>

lemma sent_then_skipped: "inv q \<Longrightarrow> take n (abs q) @ abs (skip n q) = abs q"
  by (simp add: skip_law)

text \<open>While the memory lasts a run returns, and hands out what was put in, in order.\<close>

lemma run_fifo:
  "inv q \<Longrightarrow> held q + length (concat (puts ops)) \<le> vec_max_size \<Longrightarrow>
   \<exists>out q'. queue_run put takeAll ops q = Inr (out, q') \<and> inv q' \<and> out @ abs q' = abs q @ concat (puts ops)"
proof (induction ops arbitrary: q)
  case Nil
  then show ?case by simp
next
  case (Cons op ops)
  show ?case
  proof (cases op)
    case (Put xs)
    with Cons.prems(2) have "held q + length xs \<le> vec_max_size" by simp
    with Cons.prems(1) obtain q1 where p: "put xs q = Inr q1" and h: "held q1 \<le> held q + length xs"
      using put_fits by blast
    from Put Cons.prems have "length xs \<le> vec_max_size" by simp
    with put_law [OF Cons.prems(1) _ p] have "inv q1" and "abs q1 = abs q @ xs" by auto
    with Put p h Cons.IH [of q1] Cons.prems(2) show ?thesis by auto
  next
    case TakeAll
    from takeAll_law [OF Cons.prems(1)] obtain q1
      where t: "takeAll q = Inr (abs q, q1)" "inv q1" "abs q1 = []" "held q1 = held q" by blast
    with TakeAll Cons.IH [of q1] Cons.prems(2) show ?thesis by auto
  qed
qed

end

interpretation bufq: byte_queue buf_ok content appendBytes retrieveAllAsString retrieve readableBytes
    "\<lambda>b. length (bytes b)"
proof unfold_locales
  show "\<exists>q'. retrieveAllAsString q = Inr (content q, q') \<and> buf_ok q' \<and> content q' = [] \<and>
      length (bytes q') = length (bytes q)" if "buf_ok q" for q
    using that by (simp add: retrieveAllAsString_content retrieveAll_ok retrieveAll_content)
      (simp add: retrieveAll_def)
  show "\<exists>q'. appendBytes xs q = Inr q' \<and> length (bytes q') \<le> length (bytes q) + length xs"
    if "buf_ok q" and "length (bytes q) + length xs \<le> vec_max_size" for q xs
    using appendBytes_fits [of q xs] that by (metis fits_def)
qed (use appendBytes_spec in \<open>auto simp: retrieve_ok retrieve_content readableBytes_content\<close>)

section \<open>Properties\<close>

text \<open>
  C2: Any sequence of \<^verbatim>\<open>append\<close> and \<^verbatim>\<open>retrieveAllAsString\<close> calls on a well-formed buffer
  returns (as long as all bytes put in fit the vector's bound), leaves it well-formed,
  and the strings handed out followed by what is still in the buffer are the old content
  followed by the appended bytes: nothing is lost, duplicated or reordered, whichever mix
  of growing, compacting and index resetting the calls went through.
\<close>

theorem buffer_is_fifo:
  assumes "buf_ok b" and "length (bytes b) + length (concat (puts ops)) \<le> vec_max_size"
  shows "\<exists>out b'. queue_run appendBytes retrieveAllAsString ops b = Inr (out, b') \<and> buf_ok b' \<and>
    out @ content b' = content b @ concat (puts ops)"
  using assms by (rule bufq.run_fifo)

definition sampleBuffer :: buffer where
  "sampleBuffer = \<lparr>bytes = ''........abcdefgh'', readerIndex = 10, writeIndex = 13\<rparr>"

lemma sampleBuffer_ok: "buf_ok sampleBuffer"
  by (simp add: sampleBuffer_def buf_ok_def kCheapPrepend_def vec_max_size_def)

theorem buffer_is_fifo_witness:
  "\<exists>out b'. queue_run appendBytes retrieveAllAsString [Put ''xy'', TakeAll, Put ''uvwxyz012345''] sampleBuffer = Inr (out, b') \<and>
    buf_ok b' \<and> out @ content b' = ''cdexyuvwxyz012345''"
proof -
  let ?ops = "[Put ''xy'', TakeAll, Put ''uvwxyz012345'']"
  have fits: "length (bytes sampleBuffer) + length (concat (puts ?ops)) \<le> vec_max_size"
    by (simp add: sampleBuffer_def vec_max_size_def)
  have "content sampleBuffer @ concat (puts ?ops) = ''cdexyuvwxyz012345''"
    by (simp add: sampleBuffer_def content_def slice_def)
  then show ?thesis using buffer_is_fifo [OF sampleBuffer_ok fits] by simp
qed

text \<open>
  \<^verbatim>\<open>readFd\<close> puts every byte \<^verbatim>\<open>readv\<close> delivered at the back of the buffer, in order,
  also when they overflow the buffer into the 64 KiB block on the stack and are appended
  from there, and returns their number.
\<close>

theorem readFd_delivers_all:
  assumes "buf_ok b" and "rv (readvRoom b) w = (Inr got, w')" and "fits (length got) b"
  shows "\<exists>b'. readFd rv b w = Inr (Inr (length got), b', w') \<and> buf_ok b' \<and> content b' = content b @ got"
  by (rule readFd_content [where rv = rv and w = w, OF assms]) blast

theorem readFd_delivers_all_witness:
  "\<exists>b'. readFd (\<lambda>room w. (Inr ''0123456789'', w @ [room])) sampleBuffer [] =
      Inr (Inr 10, b', [65539]) \<and> buf_ok b' \<and> content b' = ''cde0123456789''"
proof -
  let ?rv = "\<lambda>room w. (Inr ''0123456789'', w @ [room])"
  have "readvRoom sampleBuffer = 65539"
    by (simp add: readvRoom_def writeableBytes_ok [OF sampleBuffer_ok])
      (simp add: sampleBuffer_def extrabufSize_def)
  then have rv: "?rv (readvRoom sampleBuffer) [] = (Inr ''0123456789'', [65539])" by simp
  have "fits (length ''0123456789'') sampleBuffer" by (simp add: fits_def sampleBuffer_def vec_max_size_def)
  moreover have len: "length ''0123456789'' = 10" by simp
  moreover have "content sampleBuffer @ ''0123456789'' = ''cde0123456789''"
    by (simp add: sampleBuffer_def content_def slice_def)
  ultimately show ?thesis
    using readFd_delivers_all [where rv = ?rv, OF sampleBuffer_ok rv] by (simp only:)
qed

text \<open>
  C22: \<^verbatim>\<open>append\<close> fails on a well-formed buffer in exactly one way: the vector would have
  to grow past its largest size. It never writes out of bounds.
\<close>

theorem append_fails_iff:
  assumes "buf_ok b" and "length xs \<le> vec_max_size"
  shows "appendBytes xs b = Inl e \<longleftrightarrow>
    e = LengthError \<and> writeableBytes b < length xs \<and> needs_resize (length xs) b \<and>
    vec_max_size < writeIndex b + length xs"
  using assms by (rule appendBytes_Inl_iff)

theorem append_fails_iff_witness: "appendBytes ''hello, world'' sampleBuffer \<noteq> Inl OutOfBounds"
proof -
  have "length ''hello, world'' \<le> vec_max_size" by (simp add: vec_max_size_def)
  from append_fails_iff [OF sampleBuffer_ok this] show ?thesis by simp
qed

text \<open>
  \<^verbatim>\<open>retrieveAsString(len)\<close> does not check its argument: beyond the readable bytes it
  hands out stale bytes of the vector behind the write index (and empties the buffer), and
  past the vector it reads out of bounds, unless the length is one that no string can have.
\<close>

theorem retrieveAsString_unchecked:
  assumes "buf_ok b"
  shows "retrieveAsString n b =
    (if vec_max_size < n then Inl LengthError
     else if readerIndex b + n \<le> length (bytes b)
     then Inr (take n (content b) @ slice (writeIndex b) (readerIndex b + n) (bytes b), retrieve n b)
     else Inl OutOfBounds)"
proof -
  have "take n (drop (readerIndex b) (bytes b)) =
      take n (content b) @ slice (writeIndex b) (readerIndex b + n) (bytes b)"
    if "readerIndex b + n \<le> length (bytes b)"
  proof (cases "readerIndex b + n \<le> writeIndex b")
    case True
    then show ?thesis using buf_okD [OF assms] by (simp add: content_def take_slice take_drop_slice)
  next
    case False
    let ?k = "readerIndex b + n - writeIndex b"
    from False buf_okD [OF assms] have n: "n = (writeIndex b - readerIndex b) + ?k" by linarith
    have "take n (content b) = content b"
      using False buf_okD [OF assms] by (simp add: content_def)
    moreover have "take n (drop (readerIndex b) (bytes b)) =
        take (writeIndex b - readerIndex b) (drop (readerIndex b) (bytes b)) @
        take ?k (drop (writeIndex b - readerIndex b) (drop (readerIndex b) (bytes b)))"
      by (subst n) (rule take_add)
    moreover have "take ?k (drop (writeIndex b) (bytes b)) = slice (writeIndex b) (readerIndex b + n) (bytes b)"
      using False by (simp add: take_drop_slice)
    ultimately show ?thesis
      using buf_okD [OF assms] by (simp add: content_def take_drop_slice)
  qed
  then show ?thesis by (simp add: retrieveAsString_def peekBytes_def)
qed

theorem retrieveAsString_unchecked_witness:
  "retrieveAsString 5 sampleBuffer = Inr (''cdefg'', retrieve 5 sampleBuffer) \<and>
   retrieveAsString 7 sampleBuffer = Inl OutOfBounds"
  using retrieveAsString_unchecked [OF sampleBuffer_ok, of 5] retrieveAsString_unchecked [OF sampleBuffer_ok, of 7]
  by (simp add: content_def slice_def vec_max_size_def) (simp add: sampleBuffer_def)

end
