(* ===== verification/InetAddress.thy ===== *)
theory InetAddress
  imports Prelude "HOL-Library.Word"
begin

unbundle bit_operations_syntax

text \<open>
  \<^verbatim>\<open>class InetAddress\<close> of \<^verbatim>\<open>MyMuduo/InetAddress.h\<close> and \<^verbatim>\<open>MyMuduo/InetAddress.cc\<close>: an
  IPv4 socket address. The port is kept in network byte order, as the code keeps it; the
  host is little-endian. \<^verbatim>\<open>inet_addr\<close> is a parameter of the constructor.
\<close>

section \<open>The code\<close>

record inetaddr =
  sin_addr :: "8 word \<times> 8 word \<times> 8 word \<times> 8 word"
  sin_port :: "16 word"

text \<open>\<^verbatim>\<open>htons\<close> and \<^verbatim>\<open>ntohs\<close> swap the two bytes.\<close>

definition htons :: "16 word \<Rightarrow> 16 word" where
  "htons p = push_bit 8 p OR drop_bit 8 p"

definition ntohs :: "16 word \<Rightarrow> 16 word" where
  "ntohs p = push_bit 8 p OR drop_bit 8 p"

definition defaultIp :: string where
  "defaultIp = ''192.168.212.128''"

definition newInetAddress :: "(string \<Rightarrow> 8 word \<times> 8 word \<times> 8 word \<times> 8 word) \<Rightarrow> 16 word \<Rightarrow> string \<Rightarrow> inetaddr" where
  "newInetAddress inet_addr port ip = \<lparr>sin_addr = inet_addr ip, sin_port = htons port\<rparr>"

text \<open>Decimal digits, as \<^verbatim>\<open>%u\<close> and \<^verbatim>\<open>inet_ntop\<close> print them.\<close>

definition digitChar :: "nat \<Rightarrow> char" where
  "digitChar d = char_of (48 + d)"

fun decimal :: "nat \<Rightarrow> string" where
  "decimal n = (if n < 10 then [digitChar n] else decimal (n div 10) @ [digitChar (n mod 10)])"

declare decimal.simps [simp del]

definition inet_ntop :: "8 word \<times> 8 word \<times> 8 word \<times> 8 word \<Rightarrow> string" where
  "inet_ntop addr =
     (case addr of (a, b, c, d) \<Rightarrow>
        decimal (unat a) @ ''.'' @ decimal (unat b) @ ''.'' @ decimal (unat c) @ ''.'' @ decimal (unat d))"

definition toIp :: "inetaddr \<Rightarrow> string" where
  "toIp a = inet_ntop (sin_addr a)"

text \<open>\<^verbatim>\<open>toIpPort\<close> prints into a buffer of 64 bytes, the closing zero included.\<close>

definition ipPortBuf :: nat where
  "ipPortBuf = 64"

definition toIpPort :: "inetaddr \<Rightarrow> fault + string" where
  "toIpPort a =
     (let s = inet_ntop (sin_addr a) @ '':'' @ decimal (unat (ntohs (sin_port a)))
      in if length s < ipPortBuf then Inr s else Inl OutOfBounds)"

definition toPort :: "inetaddr \<Rightarrow> 16 word" where
  "toPort a = ntohs (sin_port a)"

section \<open>Facts\<close>

lemma ntohs_htons: "ntohs (htons p) = p"
  by (rule bit_word_eqI) (auto simp: htons_def ntohs_def bit_simps)

lemma length_decimal: "n < 10 ^ k \<Longrightarrow> 0 < k \<Longrightarrow> length (decimal n) \<le> k"
proof (induction k arbitrary: n)
  case 0
  then show ?case by simp
next
  case (Suc k)
  show ?case
  proof (cases "n < 10")
    case True
    then show ?thesis by (subst decimal.simps) simp
  next
    case False
    with Suc.prems have "k \<noteq> 0" by (cases k) auto
    moreover from Suc.prems have "n div 10 < 10 ^ k" by (simp add: less_mult_imp_div_less)
    ultimately have "length (decimal (n div 10)) \<le> k" using Suc.IH by simp
    with False show ?thesis by (subst decimal.simps) simp
  qed
qed

text \<open>Reading a decimal numeral back.\<close>

definition readDecimal :: "string \<Rightarrow> nat" where
  "readDecimal s = foldl (\<lambda>a ch. a * 10 + (of_char ch - 48)) 0 s"

lemma readDecimal_snoc: "readDecimal (s @ [ch]) = readDecimal s * 10 + (of_char ch - 48)"
  by (simp add: readDecimal_def)

lemma digitChar_value: "d < 10 \<Longrightarrow> (of_char (digitChar d) :: nat) = 48 + d"
  by (simp add: digitChar_def)

lemma readDecimal_decimal: "readDecimal (decimal n) = n"
proof (induction n rule: decimal.induct)
  case (1 n)
  show ?case
  proof (cases "n < 10")
    case True
    then show ?thesis using readDecimal_snoc [of "[]" "digitChar n"]
      by (subst decimal.simps) (simp add: digitChar_value readDecimal_def)
  next
    case False
    with 1 show ?thesis by (subst decimal.simps) (simp add: readDecimal_snoc digitChar_value)
  qed
qed

lemma decimal_inj: "decimal m = decimal n \<Longrightarrow> m = n"
  by (metis readDecimal_decimal)

lemma length_inet_ntop: "length (inet_ntop a) \<le> 15"
proof -
  have d: "length (decimal (unat (b :: 8 word))) \<le> 3" for b
  proof (rule length_decimal)
    have "unat b < 2 ^ LENGTH(8)" by (rule unsigned_less)
    then show "unat b < 10 ^ 3" by simp
  qed simp
  obtain a1 a2 a3 a4 where a: "a = (a1, a2, a3, a4)" by (cases a) auto
  show ?thesis using d [of a1] d [of a2] d [of a3] d [of a4] by (simp add: a inet_ntop_def)
qed

lemma toIpPort_Inr:
  "toIpPort a = Inr (inet_ntop (sin_addr a) @ '':'' @ decimal (unat (ntohs (sin_port a))))"
  "length (inet_ntop (sin_addr a) @ '':'' @ decimal (unat (ntohs (sin_port a)))) \<le> 21"
proof -
  have "length (decimal (unat (ntohs (sin_port a)))) \<le> 5"
  proof (rule length_decimal)
    have "unat (ntohs (sin_port a)) < 2 ^ LENGTH(16)" by (rule unsigned_less)
    then show "unat (ntohs (sin_port a)) < 10 ^ 5" by simp
  qed simp
  with length_inet_ntop [of "sin_addr a"]
  show "length (inet_ntop (sin_addr a) @ '':'' @ decimal (unat (ntohs (sin_port a)))) \<le> 21" by simp
  then show "toIpPort a = Inr (inet_ntop (sin_addr a) @ '':'' @ decimal (unat (ntohs (sin_port a))))"
    by (simp add: toIpPort_def Let_def ipPortBuf_def)
qed

section \<open>Properties\<close>

text \<open>
  The unchecked \<^verbatim>\<open>sprintf\<close> of \<^verbatim>\<open>toIpPort\<close> never overruns its buffer of 64 bytes: for every
  address and port the text is at most 21 characters long; and the port the constructor was
  given is the one \<^verbatim>\<open>toPort\<close> returns and \<^verbatim>\<open>toIpPort\<close> prints.
\<close>

theorem toIpPort_fits:
  "\<exists>s. toIpPort (newInetAddress inet_addr port ip) = Inr s \<and> length s \<le> 21 \<and>
     s = toIp (newInetAddress inet_addr port ip) @ '':'' @ decimal (unat port) \<and>
     toPort (newInetAddress inet_addr port ip) = port"
  using toIpPort_Inr [of "newInetAddress inet_addr port ip"]
  by (simp add: newInetAddress_def ntohs_htons toPort_def toIp_def)

end
