(* ===== verification/Kernel.thy ===== *)
theory Kernel
  imports InetAddress
begin

text \<open>
  The operating system as the code sees it. The kernel is not code of the repository, so
  it is a parameter: a record of functions that answer a system call from the calls made
  so far, which lets it behave in any way at all. The calls made are kept in a log, the
  latest first. What the manual pages promise is stated as predicates on that record;
  the theorems that need a promise name it as a hypothesis.
\<close>

section \<open>System calls\<close>

datatype ctl_op = EPOLL_CTL_ADD | EPOLL_CTL_MOD | EPOLL_CTL_DEL

datatype sockopt = TCP_NODELAY | SO_REUSEADDR | SO_REUSEPORT | SO_KEEPALIVE

text \<open>
  A loop is named by a number, which stands for its epoll descriptor and its eventfd as
  well; a channel by the number that stands for its address. A socket call carries its
  descriptor. \<open>SysWrite\<close> records the bytes offered, the value returned and
  \<^verbatim>\<open>errno\<close>.
\<close>

datatype syscall =
    SysCtl nat ctl_op int "32 word" nat bool
  | SysWrite int "char list" int int
  | SysReadv int "int + char list"
  | SysShutdownWr int bool
  | SysGetSockErr int
  | SysSocket "int + int"
  | SysSetOpt int sockopt bool
  | SysBind int inetaddr bool
  | SysListen int bool
  | SysAccept int "int + (int \<times> inetaddr)"
  | SysGetSockName int "inetaddr option"
  | SysClose int
  | SysWait nat "int + (nat \<times> 32 word) list"
  | SysWakeWrite nat
  | SysWakeRead nat

record kernel =
  k_ctl :: "syscall list \<Rightarrow> nat \<Rightarrow> ctl_op \<Rightarrow> int \<Rightarrow> 32 word \<Rightarrow> nat \<Rightarrow> bool"
  k_wait :: "syscall list \<Rightarrow> nat \<Rightarrow> nat \<Rightarrow> int + (nat \<times> 32 word) list"
  k_write :: "syscall list \<Rightarrow> int \<Rightarrow> char list \<Rightarrow> int \<times> int"
  k_readv :: "syscall list \<Rightarrow> int \<Rightarrow> nat \<Rightarrow> int + char list"
  k_shutdown :: "syscall list \<Rightarrow> int \<Rightarrow> bool"
  k_socket :: "syscall list \<Rightarrow> int + int"
  k_bind :: "syscall list \<Rightarrow> int \<Rightarrow> inetaddr \<Rightarrow> bool"
  k_listen :: "syscall list \<Rightarrow> int \<Rightarrow> bool"
  k_accept :: "syscall list \<Rightarrow> int \<Rightarrow> int + (int \<times> inetaddr)"
  k_sockname :: "syscall list \<Rightarrow> int \<Rightarrow> inetaddr option"

section \<open>What the log says\<close>

text \<open>The descriptors the epoll instance of loop \<open>L\<close> watches, with events and user pointer.\<close>

fun interest :: "nat \<Rightarrow> syscall list \<Rightarrow> int \<Rightarrow> (32 word \<times> nat) option" where
  "interest L [] = (\<lambda>_. None)"
| "interest L (SysCtl L' op fd ev c ok # log) =
     (if L' = L \<and> ok
      then (interest L log)(fd := (if op = EPOLL_CTL_DEL then None else Some (ev, c)))
      else interest L log)"
| "interest L (SysClose fd # log) = (interest L log)(fd := None)"
| "interest L (_ # log) = interest L log"

text \<open>The bytes the kernel took for a descriptor, in order.\<close>

fun written :: "int \<Rightarrow> syscall list \<Rightarrow> char list" where
  "written fd [] = []"
| "written fd (SysWrite fd' data n err # log) =
     written fd log @ (if fd' = fd \<and> 0 < n then take (nat n) data else [])"
| "written fd (_ # log) = written fd log"

text \<open>The bytes it delivered, in order.\<close>

fun delivered :: "int \<Rightarrow> syscall list \<Rightarrow> char list" where
  "delivered fd [] = []"
| "delivered fd (SysReadv fd' (Inr got) # log) = delivered fd log @ (if fd' = fd then got else [])"
| "delivered fd (_ # log) = delivered fd log"

text \<open>The counter of the eventfd of loop \<open>L\<close>: writes add to it, a read clears it.\<close>

fun wakeups :: "nat \<Rightarrow> syscall list \<Rightarrow> nat" where
  "wakeups L [] = 0"
| "wakeups L (SysWakeWrite L' # log) = (if L' = L then Suc (wakeups L log) else wakeups L log)"
| "wakeups L (SysWakeRead L' # log) = (if L' = L then 0 else wakeups L log)"
| "wakeups L (_ # log) = wakeups L log"

text \<open>How often the write side of a descriptor was shut down.\<close>

fun shutdowns :: "int \<Rightarrow> syscall list \<Rightarrow> nat" where
  "shutdowns fd [] = 0"
| "shutdowns fd (SysShutdownWr fd' ok # log) = (if fd' = fd then Suc (shutdowns fd log) else shutdowns fd log)"
| "shutdowns fd (_ # log) = shutdowns fd log"

section \<open>Documented behaviour\<close>

text \<open>
  \<^verbatim>\<open>epoll_ctl(2)\<close>, for open descriptors and without resource exhaustion: adding fails
  exactly when the descriptor is watched already (\<^verbatim>\<open>EEXIST\<close>), changing and deleting
  exactly when it is not (\<^verbatim>\<open>ENOENT\<close>).
\<close>

definition ctl_legal :: "(int \<Rightarrow> (32 word \<times> nat) option) \<Rightarrow> ctl_op \<Rightarrow> int \<Rightarrow> bool" where
  "ctl_legal watched op fd \<longleftrightarrow> (op = EPOLL_CTL_ADD) = (watched fd = None)"

definition ctl_documented :: "kernel \<Rightarrow> bool" where
  "ctl_documented K \<longleftrightarrow>
     (\<forall>log L op fd ev c. k_ctl K log L op fd ev c \<longleftrightarrow> ctl_legal (interest L log) op fd)"

text \<open>\<^verbatim>\<open>write(2)\<close> never takes more than it was offered.\<close>

definition write_documented :: "kernel \<Rightarrow> bool" where
  "write_documented K \<longleftrightarrow> (\<forall>log fd data. fst (k_write K log fd data) \<le> int (length data))"

text \<open>\<^verbatim>\<open>readv(2)\<close> never delivers more than the room it was given.\<close>

definition readv_documented :: "kernel \<Rightarrow> bool" where
  "readv_documented K \<longleftrightarrow> (\<forall>log fd room got. k_readv K log fd room = Inr got \<longrightarrow> length got \<le> room)"

text \<open>
  \<^verbatim>\<open>epoll_wait(2)\<close> reports at most as many descriptors as asked for, and only watched
  ones, with the user pointer they were registered with.
\<close>

definition wait_documented :: "kernel \<Rightarrow> bool" where
  "wait_documented K \<longleftrightarrow>
     (\<forall>log L size evs. k_wait K log L size = Inr evs \<longrightarrow>
        length evs \<le> size \<and> (\<forall>(c, r) \<in> set evs. \<exists>fd ev. interest L log fd = Some (ev, c)))"

lemma ctl_documentedD: "ctl_documented K \<Longrightarrow> k_ctl K log L op fd ev c \<longleftrightarrow> ctl_legal (interest L log) op fd"
  by (simp add: ctl_documented_def)

lemma write_documentedD: "write_documented K \<Longrightarrow> k_write K log fd data = (n, err) \<Longrightarrow> n \<le> int (length data)"
  unfolding write_documented_def by (metis fst_conv)

lemma ctl_legal_simps [simp]:
  "ctl_legal w EPOLL_CTL_ADD fd \<longleftrightarrow> w fd = None"
  "ctl_legal w EPOLL_CTL_MOD fd \<longleftrightarrow> w fd \<noteq> None"
  "ctl_legal w EPOLL_CTL_DEL fd \<longleftrightarrow> w fd \<noteq> None"
  by (auto simp: ctl_legal_def)

section \<open>A kernel that keeps every promise\<close>

text \<open>
  For the examples: it never has an event, takes at most three bytes of a \<^verbatim>\<open>write\<close> and
  delivers \<^verbatim>\<open>ping\<close> to every \<^verbatim>\<open>readv\<close>, and accepts connections from itself.
\<close>

definition localhost :: inetaddr where
  "localhost = \<lparr>sin_addr = (127, 0, 0, 1), sin_port = htons 8000\<rparr>"

definition sampleKernel :: kernel where
  "sampleKernel = \<lparr>
     k_ctl = (\<lambda>log L op fd ev c. ctl_legal (interest L log) op fd),
     k_wait = (\<lambda>log L size. Inr []),
     k_write = (\<lambda>log fd data. (int (min 3 (length data)), 0)),
     k_readv = (\<lambda>log fd room. Inr (take room ''ping'')),
     k_shutdown = (\<lambda>log fd. True),
     k_socket = (\<lambda>log. Inr 4),
     k_bind = (\<lambda>log fd a. True),
     k_listen = (\<lambda>log fd. True),
     k_accept = (\<lambda>log fd. Inr (7, localhost)),
     k_sockname = (\<lambda>log fd. Some localhost)\<rparr>"

lemma sampleKernel_documented:
  "ctl_documented sampleKernel" "write_documented sampleKernel" "readv_documented sampleKernel"
  "wait_documented sampleKernel"
  by (auto simp: sampleKernel_def ctl_documented_def write_documented_def readv_documented_def wait_documented_def)

end
