(* ===== verification/Channel.thy ===== *)
theory Channel
  imports Kernel
begin

unbundle bit_operations_syntax

text \<open>
  \<^verbatim>\<open>class Channel\<close> of \<^verbatim>\<open>MyMuduo/Channel.h\<close> and \<^verbatim>\<open>MyMuduo/Channel.cc\<close>: a descriptor with
  the events it asks for, the events reported and the callbacks to run. The functions of
  a channel that reach its event loop are in \<^verbatim>\<open>EventLoop.thy\<close>; here is its data, its
  event masks and the order in which reported events run the callbacks.
\<close>

section \<open>Event masks\<close>

type_synonym events = "32 word"

definition EPOLLIN :: events where "EPOLLIN = 1"
definition EPOLLPRI :: events where "EPOLLPRI = 2"
definition EPOLLOUT :: events where "EPOLLOUT = 4"
definition EPOLLERR :: events where "EPOLLERR = 8"
definition EPOLLHUP :: events where "EPOLLHUP = 16"

definition kNoneEvent :: events where "kNoneEvent = 0"
definition kReadEvent :: events where "kReadEvent = EPOLLIN OR EPOLLPRI"
definition kWriteEvent :: events where "kWriteEvent = EPOLLOUT"

section \<open>The channel\<close>

text \<open>
  A callback is what the code binds: the event loop's \<^verbatim>\<open>handleRead\<close>, the acceptor's, or
  one of the four handlers of a connection.
\<close>

datatype callback =
    WakeupRead nat
  | AcceptorRead
  | ConnRead nat
  | ConnWrite nat
  | ConnClose nat
  | ConnError nat

record channel =
  chLoop :: nat
  chFd :: int
  chEvents :: events
  chRevents :: events
  chIndex :: int
  chTie :: "nat option"
  chTied :: bool
  readCallback :: "callback option"
  writeCallback :: "callback option"
  closeCallback :: "callback option"
  errorCallback :: "callback option"

definition newChannel :: "nat \<Rightarrow> int \<Rightarrow> channel" where
  "newChannel loop fd = \<lparr>chLoop = loop, chFd = fd, chEvents = 0, chRevents = 0, chIndex = -1,
     chTie = None, chTied = False, readCallback = None, writeCallback = None,
     closeCallback = None, errorCallback = None\<rparr>"

definition setReadCallback :: "callback \<Rightarrow> channel \<Rightarrow> channel" where
  "setReadCallback cb ch = ch\<lparr>readCallback := Some cb\<rparr>"

definition setWriteCallback :: "callback \<Rightarrow> channel \<Rightarrow> channel" where
  "setWriteCallback cb ch = ch\<lparr>writeCallback := Some cb\<rparr>"

definition setCloseCallback :: "callback \<Rightarrow> channel \<Rightarrow> channel" where
  "setCloseCallback cb ch = ch\<lparr>closeCallback := Some cb\<rparr>"

definition setErrorCallback :: "callback \<Rightarrow> channel \<Rightarrow> channel" where
  "setErrorCallback cb ch = ch\<lparr>errorCallback := Some cb\<rparr>"

definition tie :: "nat \<Rightarrow> channel \<Rightarrow> channel" where
  "tie obj ch = ch\<lparr>chTie := Some obj, chTied := True\<rparr>"

definition set_revents :: "events \<Rightarrow> channel \<Rightarrow> channel" where
  "set_revents revt ch = ch\<lparr>chRevents := revt\<rparr>"

definition set_index :: "int \<Rightarrow> channel \<Rightarrow> channel" where
  "set_index idx ch = ch\<lparr>chIndex := idx\<rparr>"

text \<open>What each of the five \<^verbatim>\<open>enable\<close>/\<^verbatim>\<open>disable\<close> functions does to \<^verbatim>\<open>events_\<close>.\<close>

datatype interest_op = EnableReading | DisableReading | EnableWriting | DisableWriting | DisableAll

fun newEvents :: "interest_op \<Rightarrow> events \<Rightarrow> events" where
  "newEvents EnableReading ev = ev OR kReadEvent"
| "newEvents DisableReading ev = ev AND NOT kReadEvent"
| "newEvents EnableWriting ev = ev OR kWriteEvent"
| "newEvents DisableWriting ev = ev AND NOT kWriteEvent"
| "newEvents DisableAll ev = kNoneEvent"

definition isNoneEvent :: "channel \<Rightarrow> bool" where
  "isNoneEvent ch \<longleftrightarrow> chEvents ch = kNoneEvent"

definition isWriting :: "channel \<Rightarrow> bool" where
  "isWriting ch \<longleftrightarrow> chEvents ch AND kWriteEvent \<noteq> 0"

definition isReading :: "channel \<Rightarrow> bool" where
  "isReading ch \<longleftrightarrow> chEvents ch AND kReadEvent \<noteq> 0"

section \<open>Running the callbacks\<close>

text \<open>
  \<^verbatim>\<open>handleEventWithGuard\<close>. A callback runs on a state \<open>'w\<close> in which \<open>get\<close> finds the
  channel; the members are read again before each test, as the code does.
\<close>

definition callIf :: "bool \<Rightarrow> callback option \<Rightarrow> (callback \<Rightarrow> 'w \<Rightarrow> fault + 'w) \<Rightarrow> 'w \<Rightarrow> fault + 'w" where
  "callIf b cb run w = (if b then (case cb of None \<Rightarrow> Inr w | Some f \<Rightarrow> run f w) else Inr w)"

definition handleEventWithGuard ::
  "('w \<Rightarrow> channel) \<Rightarrow> (callback \<Rightarrow> 'w \<Rightarrow> fault + 'w) \<Rightarrow> 'w \<Rightarrow> fault + 'w" where
  "handleEventWithGuard get run w =
     bind_res (callIf (chRevents (get w) AND EPOLLHUP \<noteq> 0 \<and> \<not> chRevents (get w) AND EPOLLIN \<noteq> 0)
                 (closeCallback (get w)) run w) (\<lambda>w.
     bind_res (callIf (chRevents (get w) AND EPOLLERR \<noteq> 0) (errorCallback (get w)) run w) (\<lambda>w.
     bind_res (callIf (chRevents (get w) AND EPOLLIN \<noteq> 0) (readCallback (get w)) run w) (\<lambda>w.
     callIf (chRevents (get w) AND EPOLLOUT \<noteq> 0) (writeCallback (get w)) run w)))"

text \<open>
  \<^verbatim>\<open>handleEvent\<close>: a tied channel runs its callbacks only when the weak pointer can still
  be locked; \<open>alive\<close> says whether the object observed still exists.
\<close>

definition handleEvent ::
  "('w \<Rightarrow> channel) \<Rightarrow> (nat \<Rightarrow> 'w \<Rightarrow> bool) \<Rightarrow> (callback \<Rightarrow> 'w \<Rightarrow> fault + 'w) \<Rightarrow> 'w \<Rightarrow> fault + 'w" where
  "handleEvent get alive run w =
     (if chTied (get w)
      then (case chTie (get w) of
              None \<Rightarrow> Inr w
            | Some obj \<Rightarrow> if alive obj w then handleEventWithGuard get run w else Inr w)
      else handleEventWithGuard get run w)"

section \<open>Facts\<close>

lemmas event_bits = EPOLLIN_def EPOLLPRI_def EPOLLOUT_def EPOLLERR_def EPOLLHUP_def
  kNoneEvent_def kReadEvent_def kWriteEvent_def

text \<open>Setting and clearing one mask, and its effect on another.\<close>

lemma mask_set: "(ev OR m) AND m = (m :: events)"
  by (simp add: bit_eq_iff)

lemma mask_clear: "(ev AND NOT m) AND m = (0 :: events)"
  by (rule bit_word_eqI) (simp add: bit_simps)

lemma mask_set_other: "m AND k = 0 \<Longrightarrow> (ev OR m) AND k = ev AND (k :: events)"
  by (simp add: bit.conj_disj_distrib2)

lemma mask_clear_other:
  fixes ev m k :: events
  assumes "m AND k = 0"
  shows "(ev AND NOT m) AND k = ev AND k"
proof (rule bit_word_eqI)
  fix n
  assume n: "n < LENGTH(32)"
  from assms have "\<not> bit (m AND k) n" by simp
  with n show "bit ((ev AND NOT m) AND k) n = bit (ev AND k) n"
    by (auto simp: bit_simps)
qed

lemma masks_distinct: "kReadEvent AND kWriteEvent = 0" "kWriteEvent AND kReadEvent = 0"
    "kReadEvent \<noteq> 0" "kWriteEvent \<noteq> 0"
  by (simp_all add: event_bits)

text \<open>Each function changes the interest it names and leaves the other alone.\<close>

lemma newEvents_writing:
  "newEvents EnableWriting ev AND kWriteEvent \<noteq> 0"
  "newEvents DisableWriting ev AND kWriteEvent = 0"
  "newEvents EnableReading ev AND kWriteEvent = ev AND kWriteEvent"
  "newEvents DisableReading ev AND kWriteEvent = ev AND kWriteEvent"
  "newEvents DisableAll ev AND kWriteEvent = 0"
  by (simp_all add: mask_set mask_clear mask_set_other mask_clear_other masks_distinct kNoneEvent_def)

lemma newEvents_reading:
  "newEvents EnableReading ev AND kReadEvent \<noteq> 0"
  "newEvents DisableReading ev AND kReadEvent = 0"
  "newEvents EnableWriting ev AND kReadEvent = ev AND kReadEvent"
  "newEvents DisableWriting ev AND kReadEvent = ev AND kReadEvent"
  "newEvents DisableAll ev AND kReadEvent = 0"
  by (simp_all add: mask_set mask_clear mask_set_other mask_clear_other masks_distinct kNoneEvent_def)

lemma masked_not_none: "ev AND m \<noteq> 0 \<Longrightarrow> ev \<noteq> kNoneEvent"
  by (auto simp: kNoneEvent_def)

lemma enabled_not_none: "newEvents EnableReading ev \<noteq> kNoneEvent" "newEvents EnableWriting ev \<noteq> kNoneEvent"
  by (rule masked_not_none, rule newEvents_reading newEvents_writing)+

end
