(* ===== verification/EPollPoller.thy ===== *)
theory EPollPoller
  imports Channel
begin

text \<open>
  \<^verbatim>\<open>class Poller\<close> and \<^verbatim>\<open>class EpollPoller\<close> of \<^verbatim>\<open>MyMuduo\<close> (\<^verbatim>\<open>Poller.h\<close>, \<^verbatim>\<open>Poller.cc\<close>,
  \<^verbatim>\<open>DefaultPoller.cc\<close>, \<^verbatim>\<open>EPollPoller.h\<close>, \<^verbatim>\<open>EPollPoller.cc\<close>). The state is the part of the
  world this layer reads and writes: the log of system calls, the channels by address,
  and the poller of each loop. The second part is the invariant that ties the three
  together: a channel marked \<^verbatim>\<open>kAdded\<close> is exactly what the kernel watches, with the
  events the channel asks for.
\<close>

section \<open>State\<close>

record poller =
  channels :: "int \<Rightarrow> nat option"
  eventsSize :: nat

record pworld =
  syslog :: "syscall list"
  chans :: "nat \<Rightarrow> channel"
  pollers :: "nat \<Rightarrow> poller option"

definition setChan :: "nat \<Rightarrow> (channel \<Rightarrow> channel) \<Rightarrow> 'a pworld_scheme \<Rightarrow> 'a pworld_scheme" where
  "setChan c f w = w\<lparr>chans := (chans w)(c := f (chans w c))\<rparr>"

definition setPoller :: "nat \<Rightarrow> (poller \<Rightarrow> poller) \<Rightarrow> 'a pworld_scheme \<Rightarrow> 'a pworld_scheme" where
  "setPoller L f w = w\<lparr>pollers := (pollers w)(L := map_option f (pollers w L))\<rparr>"

definition logCall :: "syscall \<Rightarrow> 'a pworld_scheme \<Rightarrow> 'a pworld_scheme" where
  "logCall call w = w\<lparr>syslog := call # syslog w\<rparr>"

section \<open>The code\<close>

definition kNew :: int where "kNew = -1"
definition kAdded :: int where "kAdded = 1"
definition kDeleted :: int where "kDeleted = 2"

definition kInitEventListsize :: nat where "kInitEventListsize = 16"

text \<open>
  The constructor: without an epoll descriptor the program exits.
  \<^verbatim>\<open>newDefaultPoller\<close> has no poller to return when \<^verbatim>\<open>MUDUO_USE_POLL\<close> is set.
\<close>

definition newEpollPoller :: "int \<Rightarrow> fault + poller" where
  "newEpollPoller epollfd =
     (if epollfd < 0 then Inl ExitFailure
      else Inr \<lparr>channels = (\<lambda>_. None), eventsSize = kInitEventListsize\<rparr>)"

definition newDefaultPoller :: "bool \<Rightarrow> int \<Rightarrow> fault + poller option" where
  "newDefaultPoller muduoUsePoll epollfd =
     (if muduoUsePoll then Inr None
      else bind_res (newEpollPoller epollfd) (\<lambda>p. Inr (Some p)))"

definition hasChannel :: "nat \<Rightarrow> poller \<Rightarrow> 'a pworld_scheme \<Rightarrow> bool" where
  "hasChannel c p w \<longleftrightarrow> (case channels p (chFd (chans w c)) of None \<Rightarrow> False | Some c' \<Rightarrow> c' = c)"

text \<open>\<^verbatim>\<open>EpollPoller::update\<close>: one \<^verbatim>\<open>epoll_ctl\<close>; only a failed deletion is survived.\<close>

definition epollUpdate :: "kernel \<Rightarrow> nat \<Rightarrow> ctl_op \<Rightarrow> nat \<Rightarrow> 'a pworld_scheme \<Rightarrow> fault + 'a pworld_scheme" where
  "epollUpdate K L op c w =
     (let ch = chans w c;
          ok = k_ctl K (syslog w) L op (chFd ch) (chEvents ch) c;
          w = logCall (SysCtl L op (chFd ch) (chEvents ch) c ok) w
      in if ok then Inr w
         else if op = EPOLL_CTL_DEL then Inr w
         else Inl ExitFailure)"

definition pollerUpdateChannel :: "kernel \<Rightarrow> nat \<Rightarrow> nat \<Rightarrow> 'a pworld_scheme \<Rightarrow> fault + 'a pworld_scheme" where
  "pollerUpdateChannel K L c w =
     (let index = chIndex (chans w c) in
      if index = kNew \<or> index = kDeleted
      then let fd = chFd (chans w c);
               w = (if index = kNew then setPoller L (\<lambda>p. p\<lparr>channels := (channels p)(fd := Some c)\<rparr>) w else w);
               w = setChan c (set_index kAdded) w
           in epollUpdate K L EPOLL_CTL_ADD c w
      else if isNoneEvent (chans w c)
      then bind_res (epollUpdate K L EPOLL_CTL_DEL c w) (\<lambda>w. Inr (setChan c (set_index kDeleted) w))
      else epollUpdate K L EPOLL_CTL_MOD c w)"

definition pollerRemoveChannel :: "kernel \<Rightarrow> nat \<Rightarrow> nat \<Rightarrow> 'a pworld_scheme \<Rightarrow> fault + 'a pworld_scheme" where
  "pollerRemoveChannel K L c w =
     (let fd = chFd (chans w c);
          index = chIndex (chans w c);
          w = setPoller L (\<lambda>p. p\<lparr>channels := (channels p)(fd := None)\<rparr>) w
      in bind_res (if index = kAdded then epollUpdate K L EPOLL_CTL_DEL c w else Inr w)
           (\<lambda>w. Inr (setChan c (set_index kNew) w)))"

fun fillActiveChannels :: "(nat \<times> events) list \<Rightarrow> nat list \<Rightarrow> 'a pworld_scheme \<Rightarrow> nat list \<times> 'a pworld_scheme" where
  "fillActiveChannels [] active w = (active, w)"
| "fillActiveChannels ((c, revt) # evs) active w =
     fillActiveChannels evs (active @ [c]) (setChan c (set_revents revt) w)"

text \<open>
  \<^verbatim>\<open>EpollPoller::poll\<close>: the channels with events, appended to \<open>active\<close>; the array for
  events is doubled when it was filled. An interrupted or failed wait reports nothing.
\<close>

definition pollerPoll :: "kernel \<Rightarrow> nat \<Rightarrow> nat list \<Rightarrow> 'a pworld_scheme \<Rightarrow> fault + (nat list \<times> 'a pworld_scheme)" where
  "pollerPoll K L active w =
     (case pollers w L of
        None \<Rightarrow> Inl NullDeref
      | Some p \<Rightarrow>
          let r = k_wait K (syslog w) L (eventsSize p);
              w = logCall (SysWait L r) w
          in (case r of
                Inl err \<Rightarrow> Inr (active, w)
              | Inr evs \<Rightarrow>
                  if evs \<noteq> []
                  then let (active, w) = fillActiveChannels evs active w
                       in Inr (active,
                            if length evs = eventsSize p
                            then setPoller L (\<lambda>p. p\<lparr>eventsSize := eventsSize p * 2\<rparr>) w else w)
                  else Inr (active, w)))"

section \<open>The invariant\<close>

text \<open>What the kernel should watch, read off the poller and its channels.\<close>

definition watched :: "poller \<Rightarrow> (nat \<Rightarrow> channel) \<Rightarrow> int \<Rightarrow> (events \<times> nat) option" where
  "watched p chs fd =
     (case channels p fd of
        None \<Rightarrow> None
      | Some c \<Rightarrow> if chIndex (chs c) = kAdded then Some (chEvents (chs c), c) else None)"

definition poll_ok :: "nat \<Rightarrow> 'a pworld_scheme \<Rightarrow> bool" where
  "poll_ok L w \<longleftrightarrow>
     (\<exists>p. pollers w L = Some p \<and>
       (\<forall>c. chLoop (chans w c) = L \<longrightarrow> chIndex (chans w c) \<in> {kNew, kAdded, kDeleted}) \<and>
       (\<forall>c. chLoop (chans w c) = L \<longrightarrow> chIndex (chans w c) \<noteq> kNew \<longrightarrow>
            channels p (chFd (chans w c)) = Some c) \<and>
       (\<forall>fd c. channels p fd = Some c \<longrightarrow>
            chLoop (chans w c) = L \<and> chFd (chans w c) = fd \<and> chIndex (chans w c) \<noteq> kNew) \<and>
       interest L (syslog w) = watched p (chans w))"

text \<open>The descriptor of a channel is not in use by another registered channel.\<close>

definition fd_free :: "nat \<Rightarrow> nat \<Rightarrow> 'a pworld_scheme \<Rightarrow> bool" where
  "fd_free L c w \<longleftrightarrow> (\<forall>p c'. pollers w L = Some p \<longrightarrow> channels p (chFd (chans w c)) = Some c' \<longrightarrow> c' = c)"

lemmas index_defs = kNew_def kAdded_def kDeleted_def

lemma index_distinct [simp]: "kNew \<noteq> kAdded" "kNew \<noteq> kDeleted" "kAdded \<noteq> kNew" "kAdded \<noteq> kDeleted"
    "kDeleted \<noteq> kNew" "kDeleted \<noteq> kAdded"
  by (simp_all add: index_defs)

lemma set_index_simps [simp]:
  "chIndex (set_index i ch) = i" "chFd (set_index i ch) = chFd ch" "chLoop (set_index i ch) = chLoop ch"
  "chEvents (set_index i ch) = chEvents ch"
  by (simp_all add: set_index_def)

lemma poll_okE:
  assumes "poll_ok L w"
  obtains p where "pollers w L = Some p"
    "\<And>c. chLoop (chans w c) = L \<Longrightarrow> chIndex (chans w c) \<in> {kNew, kAdded, kDeleted}"
    "\<And>c. chLoop (chans w c) = L \<Longrightarrow> chIndex (chans w c) \<noteq> kNew \<Longrightarrow> channels p (chFd (chans w c)) = Some c"
    "\<And>fd c. channels p fd = Some c \<Longrightarrow> chLoop (chans w c) = L \<and> chFd (chans w c) = fd \<and> chIndex (chans w c) \<noteq> kNew"
    "interest L (syslog w) = watched p (chans w)"
  using assms unfolding poll_ok_def by blast

lemma poll_ok_index: "poll_ok L w \<Longrightarrow> chLoop (chans w c) = L \<Longrightarrow> chIndex (chans w c) \<in> {kNew, kAdded, kDeleted}"
  by (auto simp: poll_ok_def)

lemma poll_ok_fd_free: "poll_ok L w \<Longrightarrow> chLoop (chans w c) = L \<Longrightarrow> chIndex (chans w c) \<noteq> kNew \<Longrightarrow> fd_free L c w"
  by (auto simp: poll_ok_def fd_free_def)

text \<open>The kernel watches a registered channel with exactly its events, and no other.\<close>

lemma poll_ok_interest:
  assumes "poll_ok L w" and "chLoop (chans w c) = L"
  shows "(chIndex (chans w c) = kAdded) = (\<exists>ev. interest L (syslog w) (chFd (chans w c)) = Some (ev, c))"
    and "chIndex (chans w c) = kAdded \<Longrightarrow> interest L (syslog w) (chFd (chans w c)) = Some (chEvents (chans w c), c)"
proof -
  from assms(1) obtain p where p: "pollers w L = Some p"
    "\<And>c. chLoop (chans w c) = L \<Longrightarrow> chIndex (chans w c) \<noteq> kNew \<Longrightarrow> channels p (chFd (chans w c)) = Some c"
    "interest L (syslog w) = watched p (chans w)" by (rule poll_okE) blast
  from p(2) [OF assms(2)] p(3) show "chIndex (chans w c) = kAdded \<Longrightarrow> interest L (syslog w) (chFd (chans w c)) = Some (chEvents (chans w c), c)"
    by (simp add: watched_def)
  then show "(chIndex (chans w c) = kAdded) = (\<exists>ev. interest L (syslog w) (chFd (chans w c)) = Some (ev, c))"
    using p(3) by (auto simp: watched_def split: option.splits if_splits)
qed

section \<open>What an update does\<close>

definition nextIndex :: "int \<Rightarrow> events \<Rightarrow> int" where
  "nextIndex idx ev = (if idx = kAdded \<and> ev = kNoneEvent then kDeleted else kAdded)"

definition ctlFor :: "int \<Rightarrow> events \<Rightarrow> ctl_op" where
  "ctlFor idx ev =
     (if idx \<noteq> kAdded then EPOLL_CTL_ADD else if ev = kNoneEvent then EPOLL_CTL_DEL else EPOLL_CTL_MOD)"

definition updatedWorld :: "nat \<Rightarrow> nat \<Rightarrow> events \<Rightarrow> 'a pworld_scheme \<Rightarrow> 'a pworld_scheme" where
  "updatedWorld L c ev w =
     w\<lparr>syslog := SysCtl L (ctlFor (chIndex (chans w c)) ev) (chFd (chans w c)) ev c True # syslog w,
       chans := (chans w)(c := (chans w c)\<lparr>chEvents := ev, chIndex := nextIndex (chIndex (chans w c)) ev\<rparr>),
       pollers := (pollers w)(L := map_option (\<lambda>p. p\<lparr>channels := (channels p)(chFd (chans w c) := Some c)\<rparr>) (pollers w L))\<rparr>"

lemma updatedWorld_simps [simp]:
  "syslog (updatedWorld L c ev w) = SysCtl L (ctlFor (chIndex (chans w c)) ev) (chFd (chans w c)) ev c True # syslog w"
  "chans (updatedWorld L c ev w) = (chans w)(c := (chans w c)\<lparr>chEvents := ev, chIndex := nextIndex (chIndex (chans w c)) ev\<rparr>)"
  "pollers (updatedWorld L c ev w) = (pollers w)(L := map_option (\<lambda>p. p\<lparr>channels := (channels p)(chFd (chans w c) := Some c)\<rparr>) (pollers w L))"
  "pworld.more (updatedWorld L c ev w) = pworld.more w"
  by (simp_all add: updatedWorld_def)

lemma poll_ok_watched_fd:
  assumes "poll_ok L w" and "chLoop (chans w c) = L" and "fd_free L c w"
  shows "interest L (syslog w) (chFd (chans w c)) =
    (if chIndex (chans w c) = kAdded then Some (chEvents (chans w c), c) else None)"
proof -
  from assms(1) obtain p where p: "pollers w L = Some p"
    "\<And>c. chLoop (chans w c) = L \<Longrightarrow> chIndex (chans w c) \<noteq> kNew \<Longrightarrow> channels p (chFd (chans w c)) = Some c"
    "interest L (syslog w) = watched p (chans w)" by (rule poll_okE) blast
  with assms(2,3) show ?thesis
    by (cases "channels p (chFd (chans w c))") (auto simp: watched_def fd_free_def)
qed

lemma channels_idem: "channels p fd = Some c \<Longrightarrow> p\<lparr>channels := (channels p)(fd := Some c)\<rparr> = p"
  by (cases p) (simp add: fun_upd_idem)

lemma chIndex_idem: "chIndex ch = i \<Longrightarrow> ch\<lparr>chEvents := ev, chIndex := i\<rparr> = ch\<lparr>chEvents := ev\<rparr>"
  by (cases ch) simp

text \<open>Changing the events of a channel and updating the poller never fails, and this is the result.\<close>

lemma pollerUpdateChannel_updated:
  assumes ok: "poll_ok L w" and K: "ctl_documented K" and L: "chLoop (chans w c) = L" and free: "fd_free L c w"
  shows "pollerUpdateChannel K L c (setChan c (\<lambda>ch. ch\<lparr>chEvents := ev\<rparr>) w) = Inr (updatedWorld L c ev w)"
proof -
  from ok obtain p where p: "pollers w L = Some p"
    and reg: "\<And>c. chLoop (chans w c) = L \<Longrightarrow> chIndex (chans w c) \<noteq> kNew \<Longrightarrow> channels p (chFd (chans w c)) = Some c"
    by (rule poll_okE) blast
  note int = poll_ok_watched_fd [OF ok L free]
  have same: "(pollers w)(L := map_option (\<lambda>p. p\<lparr>channels := (channels p)(chFd (chans w c) := Some c)\<rparr>) (pollers w L)) = pollers w"
    if "chIndex (chans w c) \<noteq> kNew"
    using reg [OF L that] p by (simp add: channels_idem fun_upd_idem)
  from poll_ok_index [OF ok L] consider "chIndex (chans w c) = kNew" | "chIndex (chans w c) = kDeleted"
    | "chIndex (chans w c) = kAdded" by auto
  then show ?thesis
  proof cases
    case 1
    with int show ?thesis
      by (simp add: pollerUpdateChannel_def epollUpdate_def setChan_def setPoller_def logCall_def
          ctl_documentedD [OF K] Let_def set_index_def updatedWorld_def ctlFor_def nextIndex_def)
  next
    case 2
    with int same show ?thesis
      by (simp add: pollerUpdateChannel_def epollUpdate_def setChan_def setPoller_def logCall_def
          ctl_documentedD [OF K] Let_def set_index_def updatedWorld_def ctlFor_def nextIndex_def)
  next
    case 3
    with int same show ?thesis
      by (simp add: chIndex_idem pollerUpdateChannel_def epollUpdate_def setChan_def setPoller_def logCall_def isNoneEvent_def
          ctl_documentedD [OF K] Let_def set_index_def updatedWorld_def ctlFor_def nextIndex_def)
  qed
qed

lemma poll_ok_updated:
  assumes ok: "poll_ok L w" and L: "chLoop (chans w c) = L" and free: "fd_free L c w"
  shows "poll_ok L (updatedWorld L c ev w)"
proof -
  from ok obtain p where p: "pollers w L = Some p"
    and idx: "\<And>c. chLoop (chans w c) = L \<Longrightarrow> chIndex (chans w c) \<in> {kNew, kAdded, kDeleted}"
    and reg: "\<And>c. chLoop (chans w c) = L \<Longrightarrow> chIndex (chans w c) \<noteq> kNew \<Longrightarrow> channels p (chFd (chans w c)) = Some c"
    and inv: "\<And>fd c. channels p fd = Some c \<Longrightarrow> chLoop (chans w c) = L \<and> chFd (chans w c) = fd \<and> chIndex (chans w c) \<noteq> kNew"
    and int: "interest L (syslog w) = watched p (chans w)"
    by (rule poll_okE) blast
  let ?p = "p\<lparr>channels := (channels p)(chFd (chans w c) := Some c)\<rparr>"
  let ?chs = "chans (updatedWorld L c ev w)"
  have "interest L (syslog (updatedWorld L c ev w)) fd = watched ?p ?chs fd" for fd
  proof (cases "fd = chFd (chans w c)")
    case True
    then show ?thesis by (auto simp: watched_def ctlFor_def nextIndex_def)
  next
    case False
    with inv have "channels p fd \<noteq> Some c" by auto
    with False int show ?thesis by (auto simp: watched_def split: option.splits)
  qed
  then have "interest L (syslog (updatedWorld L c ev w)) = watched ?p ?chs" by blast
  moreover have "channels ?p (chFd (?chs c')) = Some c'" if "chLoop (?chs c') = L" "chIndex (?chs c') \<noteq> kNew" for c'
    using that reg [of c'] free p by (cases "c' = c") (auto simp: fd_free_def)
  moreover have "chIndex (?chs c') \<in> {kNew, kAdded, kDeleted}" if "chLoop (?chs c') = L" for c'
    using that idx [of c'] by (cases "c' = c") (auto simp: nextIndex_def)
  moreover have "chLoop (?chs c') = L \<and> chFd (?chs c') = fd \<and> chIndex (?chs c') \<noteq> kNew" if "channels ?p fd = Some c'" for fd c'
    using that inv [of fd c'] L by (auto simp: nextIndex_def split: if_splits)
  ultimately show ?thesis
    unfolding poll_ok_def by (intro exI [of _ ?p]) (auto simp: p)
qed

section \<open>What a removal does\<close>

definition removedWorld :: "nat \<Rightarrow> nat \<Rightarrow> 'a pworld_scheme \<Rightarrow> 'a pworld_scheme" where
  "removedWorld L c w =
     w\<lparr>syslog := (if chIndex (chans w c) = kAdded
                  then [SysCtl L EPOLL_CTL_DEL (chFd (chans w c)) (chEvents (chans w c)) c True] else []) @ syslog w,
       chans := (chans w)(c := (chans w c)\<lparr>chIndex := kNew\<rparr>),
       pollers := (pollers w)(L := map_option (\<lambda>p. p\<lparr>channels := (channels p)(chFd (chans w c) := None)\<rparr>) (pollers w L))\<rparr>"

lemma removedWorld_simps [simp]:
  "syslog (removedWorld L c w) = (if chIndex (chans w c) = kAdded
     then [SysCtl L EPOLL_CTL_DEL (chFd (chans w c)) (chEvents (chans w c)) c True] else []) @ syslog w"
  "chans (removedWorld L c w) = (chans w)(c := (chans w c)\<lparr>chIndex := kNew\<rparr>)"
  "pollers (removedWorld L c w) = (pollers w)(L := map_option (\<lambda>p. p\<lparr>channels := (channels p)(chFd (chans w c) := None)\<rparr>) (pollers w L))"
  "pworld.more (removedWorld L c w) = pworld.more w"
  by (simp_all add: removedWorld_def)

lemma pollerRemoveChannel_removed:
  assumes ok: "poll_ok L w" and K: "ctl_documented K" and L: "chLoop (chans w c) = L"
  shows "pollerRemoveChannel K L c w = Inr (removedWorld L c w)"
  using poll_ok_interest(2) [OF ok L]
  by (simp add: pollerRemoveChannel_def epollUpdate_def setChan_def setPoller_def logCall_def
      ctl_documentedD [OF K] Let_def set_index_def removedWorld_def)

lemma poll_ok_removed:
  assumes ok: "poll_ok L w" and L: "chLoop (chans w c) = L" and free: "fd_free L c w"
  shows "poll_ok L (removedWorld L c w)"
proof -
  from ok obtain p where p: "pollers w L = Some p"
    and idx: "\<And>c. chLoop (chans w c) = L \<Longrightarrow> chIndex (chans w c) \<in> {kNew, kAdded, kDeleted}"
    and reg: "\<And>c. chLoop (chans w c) = L \<Longrightarrow> chIndex (chans w c) \<noteq> kNew \<Longrightarrow> channels p (chFd (chans w c)) = Some c"
    and inv: "\<And>fd c. channels p fd = Some c \<Longrightarrow> chLoop (chans w c) = L \<and> chFd (chans w c) = fd \<and> chIndex (chans w c) \<noteq> kNew"
    and int: "interest L (syslog w) = watched p (chans w)"
    by (rule poll_okE) blast
  let ?p = "p\<lparr>channels := (channels p)(chFd (chans w c) := None)\<rparr>"
  let ?chs = "chans (removedWorld L c w)"
  have "interest L (syslog (removedWorld L c w)) fd = watched ?p ?chs fd" for fd
  proof (cases "fd = chFd (chans w c)")
    case True
    with poll_ok_watched_fd [OF ok L free] show ?thesis by (auto simp: watched_def)
  next
    case False
    with inv have "channels p fd \<noteq> Some c" by auto
    with False int show ?thesis by (auto simp: watched_def split: option.splits)
  qed
  then have "interest L (syslog (removedWorld L c w)) = watched ?p ?chs" by blast
  moreover have "channels ?p (chFd (?chs c')) = Some c'" if "chLoop (?chs c') = L" "chIndex (?chs c') \<noteq> kNew" for c'
  proof -
    from that have "c' \<noteq> c" by auto
    with that reg [of c'] have "channels p (chFd (chans w c')) = Some c'" by simp
    moreover with free p \<open>c' \<noteq> c\<close> have "chFd (chans w c') \<noteq> chFd (chans w c)" by (auto simp: fd_free_def)
    ultimately show ?thesis using \<open>c' \<noteq> c\<close> by simp
  qed
  moreover have "chIndex (?chs c') \<in> {kNew, kAdded, kDeleted}" if "chLoop (?chs c') = L" for c'
    using that idx [of c'] by (cases "c' = c") auto
  moreover have "chLoop (?chs c') = L \<and> chFd (?chs c') = fd \<and> chIndex (?chs c') \<noteq> kNew" if "channels ?p fd = Some c'" for fd c'
    using that inv [of fd c'] by (auto split: if_splits)
  ultimately show ?thesis
    unfolding poll_ok_def by (intro exI [of _ ?p]) (auto simp: p)
qed

section \<open>What leaves the invariant alone\<close>

text \<open>
  Two worlds that agree, for loop \<open>L\<close>, on its poller, on what the kernel watches for it
  and on the registration of its channels.
\<close>

definition regOf :: "channel \<Rightarrow> nat \<times> int \<times> int \<times> events" where
  "regOf ch = (chLoop ch, chFd ch, chIndex ch, chEvents ch)"

lemma regOf_eqD: "regOf ch' = regOf ch \<Longrightarrow> chLoop ch' = chLoop ch \<and> chFd ch' = chFd ch \<and>
    chIndex ch' = chIndex ch \<and> chEvents ch' = chEvents ch"
  by (simp add: regOf_def)

definition same_reg :: "nat \<Rightarrow> 'a pworld_scheme \<Rightarrow> 'b pworld_scheme \<Rightarrow> bool" where
  "same_reg L w w' \<longleftrightarrow> map_option channels (pollers w' L) = map_option channels (pollers w L) \<and>
     interest L (syslog w') = interest L (syslog w) \<and>
     (\<forall>c. chLoop (chans w' c) = L \<or> chLoop (chans w c) = L \<longrightarrow> regOf (chans w' c) = regOf (chans w c))"

lemma poll_ok_same_reg:
  assumes ok: "poll_ok L w" and same: "same_reg L w w'"
  shows "poll_ok L w'"
proof -
  from ok obtain p where p: "pollers w L = Some p"
    and idx: "\<And>c. chLoop (chans w c) = L \<Longrightarrow> chIndex (chans w c) \<in> {kNew, kAdded, kDeleted}"
    and reg: "\<And>c. chLoop (chans w c) = L \<Longrightarrow> chIndex (chans w c) \<noteq> kNew \<Longrightarrow> channels p (chFd (chans w c)) = Some c"
    and inv: "\<And>fd c. channels p fd = Some c \<Longrightarrow> chLoop (chans w c) = L \<and> chFd (chans w c) = fd \<and> chIndex (chans w c) \<noteq> kNew"
    and int: "interest L (syslog w) = watched p (chans w)"
    by (rule poll_okE) blast
  from same p obtain p' where p': "pollers w' L = Some p'" and ch: "channels p' = channels p"
    by (auto simp: same_reg_def)
  have eq: "chLoop (chans w' c) = chLoop (chans w c) \<and> chFd (chans w' c) = chFd (chans w c) \<and>
      chIndex (chans w' c) = chIndex (chans w c) \<and> chEvents (chans w' c) = chEvents (chans w c)"
    if "chLoop (chans w' c) = L \<or> chLoop (chans w c) = L" for c
    using same that regOf_eqD unfolding same_reg_def by blast
  have "watched p' (chans w') fd = watched p (chans w) fd" for fd
    using inv [of fd] eq by (auto simp: watched_def ch split: option.splits)
  then have "watched p' (chans w') = watched p (chans w)" by blast
  with int same have "interest L (syslog w') = watched p' (chans w')" by (simp add: same_reg_def)
  moreover have "chIndex (chans w' c) \<in> {kNew, kAdded, kDeleted}" if "chLoop (chans w' c) = L" for c
    using that eq [of c] idx [of c] by simp
  moreover have "channels p' (chFd (chans w' c)) = Some c" if "chLoop (chans w' c) = L" "chIndex (chans w' c) \<noteq> kNew" for c
    using that eq [of c] reg [of c] by (simp add: ch)
  moreover have "chLoop (chans w' c) = L \<and> chFd (chans w' c) = fd \<and> chIndex (chans w' c) \<noteq> kNew" if "channels p' fd = Some c" for fd c
    using that inv [of fd c] eq [of c] by (simp add: ch)
  ultimately show ?thesis unfolding poll_ok_def using p' by blast
qed

lemma same_reg_chan:
  "same_reg L w w' \<Longrightarrow> chLoop (chans w c) = L \<Longrightarrow> regOf (chans w' c) = regOf (chans w c)"
  by (simp add: same_reg_def)

lemma same_reg_fd_free:
  assumes same: "same_reg L w w'" and L: "chLoop (chans w c) = L"
  shows "fd_free L c w' = fd_free L c w"
proof -
  have "chFd (chans w' c) = chFd (chans w c)"
    using same_reg_chan [OF same L] by (simp add: regOf_def)
  with same show ?thesis
    by (cases "pollers w L"; cases "pollers w' L") (simp_all add: fd_free_def same_reg_def)
qed

lemma same_reg_refl [simp]: "same_reg L w w"
  by (simp add: same_reg_def)

lemma same_reg_trans:
  assumes a: "same_reg L w w1" and b: "same_reg L w1 w2"
  shows "same_reg L w w2"
proof -
  have "regOf (chans w2 c) = regOf (chans w c)" if "chLoop (chans w2 c) = L \<or> chLoop (chans w c) = L" for c
    using a b that regOf_eqD unfolding same_reg_def by metis
  with a b show ?thesis by (simp add: same_reg_def)
qed

text \<open>Another loop does not notice an update or a removal.\<close>

lemma same_reg_updated: "chLoop (chans w c) = L \<Longrightarrow> L' \<noteq> L \<Longrightarrow> same_reg L' w (updatedWorld L c ev w)"
  and same_reg_removed: "chLoop (chans w c) = L \<Longrightarrow> L' \<noteq> L \<Longrightarrow> same_reg L' w (removedWorld L c w)"
  by (auto simp: same_reg_def regOf_def)

section \<open>Waiting for events\<close>

lemma fillActiveChannels_active: "fst (fillActiveChannels evs active w) = active @ map fst evs"
  by (induction evs active w rule: fillActiveChannels.induct) simp_all

lemma fillActiveChannels_frame:
  "let w' = snd (fillActiveChannels evs active w) in
     syslog w' = syslog w \<and> pollers w' = pollers w \<and> pworld.more w' = pworld.more w \<and>
     (\<forall>c. chans w' c = (chans w c)\<lparr>chRevents := (case map_of (rev evs) c of None \<Rightarrow> chRevents (chans w c) | Some r \<Rightarrow> r)\<rparr>)"
proof (induction evs active w rule: fillActiveChannels.induct)
  case (1 active w)
  then show ?case by simp
next
  case (2 c revt evs active w)
  then show ?case
    by (auto simp: Let_def setChan_def set_revents_def map_add_def split: option.splits)
qed

lemma same_reg_fill: "same_reg L w (snd (fillActiveChannels evs active w))"
  using fillActiveChannels_frame [of evs active w] by (auto simp: same_reg_def regOf_def Let_def)

text \<open>Waiting changes no registration, and every channel it reports is one the kernel watched.\<close>

lemma pollerPoll_same_reg:
  assumes "pollerPoll K L active w = Inr (active', w')"
  shows "same_reg L' w w'"
proof -
  let ?r = "k_wait K (syslog w) L"
  from assms obtain p where p: "pollers w L = Some p" by (auto simp: pollerPoll_def split: option.splits)
  let ?wl = "logCall (SysWait L (?r (eventsSize p))) w"
  have l: "same_reg L' w ?wl" by (simp add: same_reg_def logCall_def)
  show ?thesis
  proof (cases "?r (eventsSize p)")
    case (Inl err)
    with assms p l show ?thesis by (simp add: pollerPoll_def)
  next
    case (Inr evs)
    let ?f = "fillActiveChannels evs active ?wl"
    have f: "same_reg L' w (snd ?f)" by (rule same_reg_trans [OF l same_reg_fill])
    have "same_reg L' w (setPoller L (\<lambda>p. p\<lparr>eventsSize := eventsSize p * 2\<rparr>) (snd ?f))"
      using f by (auto simp: same_reg_def setPoller_def option.map_comp comp_def)
    with f assms p l Inr show ?thesis
      by (auto simp: pollerPoll_def Let_def split: prod.splits if_splits)
  qed
qed

lemma pollerPoll_active:
  assumes K: "wait_documented K" and r: "pollerPoll K L [] w = Inr (active, w')" and c: "c \<in> set active"
  shows "\<exists>fd ev. interest L (syslog w) fd = Some (ev, c)"
proof -
  from r obtain p where p: "pollers w L = Some p" by (auto simp: pollerPoll_def split: option.splits)
  show ?thesis
  proof (cases "k_wait K (syslog w) L (eventsSize p)")
    case (Inl err)
    with r c p show ?thesis by (simp add: pollerPoll_def)
  next
    case (Inr evs)
    with r p have "active = map fst evs"
      using fillActiveChannels_active [of evs "[]" "logCall (SysWait L (Inr evs)) w"]
      by (auto simp: pollerPoll_def Let_def split: prod.splits if_splits)
    with c obtain rv where "(c, rv) \<in> set evs" by auto
    with K Inr show ?thesis unfolding wait_documented_def by blast
  qed
qed

section \<open>An example\<close>

text \<open>A loop with an empty poller, and one channel per descriptor, none of them registered.\<close>

definition samplePWorld :: pworld where
  "samplePWorld = \<lparr>syslog = [], chans = (\<lambda>c. newChannel 0 (int c)),
     pollers = (\<lambda>L. if L = 0 then Some \<lparr>channels = (\<lambda>_. None), eventsSize = 16\<rparr> else None)\<rparr>"

lemma samplePWorld_ok: "poll_ok 0 samplePWorld" "fd_free 0 c samplePWorld"
    "chLoop (chans samplePWorld c) = 0" "chFd (chans samplePWorld c) = int c"
  by (auto simp: poll_ok_def samplePWorld_def newChannel_def kNew_def watched_def fd_free_def)

section \<open>Properties\<close>

text \<open>
  \<^verbatim>\<open>EpollPoller::poll\<close> hands the loop only channels that the kernel watched for it
  when the wait began, and neither it nor the doubling of its event array touches any
  registration: what the kernel watches and what every poller and channel records of it is
  as before.
\<close>

theorem poll_reports_watched_channels:
  assumes "wait_documented K" and "pollerPoll K L [] w = Inr (active, w')"
  shows "(\<forall>c \<in> set active. \<exists>fd ev. interest L (syslog w) fd = Some (ev, c)) \<and> (\<forall>L'. same_reg L' w w')"
  using pollerPoll_active [OF assms] pollerPoll_same_reg [OF assms(2)] by blast

theorem poll_reports_watched_channels_witness:
  "\<exists>w'. pollerPoll sampleKernel 0 [] samplePWorld = Inr ([], w') \<and> same_reg 0 samplePWorld w'"
proof -
  obtain w' where r: "pollerPoll sampleKernel 0 [] samplePWorld = Inr ([], w')"
    by (auto simp: pollerPoll_def samplePWorld_def sampleKernel_def Let_def)
  from poll_reports_watched_channels [OF sampleKernel_documented(4) r] r show ?thesis by blast
qed

end
