(* ===== verification/EventLoop.thy ===== *)
theory EventLoop
  imports EPollPoller
begin

text \<open>
  \<^verbatim>\<open>class EventLoop\<close> of \<^verbatim>\<open>MyMuduo/EventLoop.h\<close> and \<^verbatim>\<open>MyMuduo/EventLoop.cc\<close>, and the
  functions of \<^verbatim>\<open>Channel\<close> that go through it. A functor is what the code binds and
  queues. The last section states what the users of a loop rely on for their channels as
  a locale, and interprets it on the code.
\<close>

section \<open>State\<close>

text \<open>
  The bound calls that are queued: the four of a connection, the two user callbacks with
  their connection, the server's removal, the acceptor's \<^verbatim>\<open>listen\<close>, and tasks of the
  application. A connection is named by a number; \<open>FSendInLoop\<close> carries, as the code
  does, the address and the length of the caller's bytes and not the bytes.
\<close>

datatype Functor =
    FConnectEstablished nat
  | FConnectDestroyed nat
  | FSendInLoop nat nat nat
  | FShutdownInLoop nat
  | FWriteComplete nat
  | FHighWaterMark nat nat
  | FRemoveConnectionInLoop nat
  | FAcceptorListen
  | FUser nat

record eloop =
  looping :: bool
  quitFlag :: bool
  callingPendingFunctors :: bool
  threadId :: nat
  wakeupChannel :: nat
  activeChannels :: "nat list"
  pendingFunctors :: "Functor list"

record lworld = pworld +
  loops :: "nat \<Rightarrow> eloop"
  loopInThisThread :: "nat \<Rightarrow> nat option"

definition setLoop :: "nat \<Rightarrow> (eloop \<Rightarrow> eloop) \<Rightarrow> 'a lworld_scheme \<Rightarrow> 'a lworld_scheme" where
  "setLoop L f w = w\<lparr>loops := (loops w)(L := f (loops w L))\<rparr>"

section \<open>Channels and their poller\<close>

definition loopUpdateChannel :: "kernel \<Rightarrow> nat \<Rightarrow> nat \<Rightarrow> 'a pworld_scheme \<Rightarrow> fault + 'a pworld_scheme" where
  "loopUpdateChannel K L c w =
     (case pollers w L of None \<Rightarrow> Inl NullDeref | Some p \<Rightarrow> pollerUpdateChannel K L c w)"

definition loopRemoveChannel :: "kernel \<Rightarrow> nat \<Rightarrow> nat \<Rightarrow> 'a pworld_scheme \<Rightarrow> fault + 'a pworld_scheme" where
  "loopRemoveChannel K L c w =
     (case pollers w L of None \<Rightarrow> Inl NullDeref | Some p \<Rightarrow> pollerRemoveChannel K L c w)"

definition loopHasChannel :: "nat \<Rightarrow> nat \<Rightarrow> 'a pworld_scheme \<Rightarrow> fault + bool" where
  "loopHasChannel L c w = (case pollers w L of None \<Rightarrow> Inl NullDeref | Some p \<Rightarrow> Inr (hasChannel c p w))"

definition channelUpdate :: "kernel \<Rightarrow> nat \<Rightarrow> 'a pworld_scheme \<Rightarrow> fault + 'a pworld_scheme" where
  "channelUpdate K c w = loopUpdateChannel K (chLoop (chans w c)) c w"

definition channelRemove :: "kernel \<Rightarrow> nat \<Rightarrow> 'a pworld_scheme \<Rightarrow> fault + 'a pworld_scheme" where
  "channelRemove K c w = loopRemoveChannel K (chLoop (chans w c)) c w"

text \<open>\<^verbatim>\<open>enableReading\<close>, \<^verbatim>\<open>disableReading\<close>, \<^verbatim>\<open>enableWriting\<close>, \<^verbatim>\<open>disableWriting\<close>, \<^verbatim>\<open>disableAll\<close>.\<close>

definition channelInterest :: "kernel \<Rightarrow> interest_op \<Rightarrow> nat \<Rightarrow> 'a pworld_scheme \<Rightarrow> fault + 'a pworld_scheme" where
  "channelInterest K op c w =
     channelUpdate K c (setChan c (\<lambda>ch. ch\<lparr>chEvents := newEvents op (chEvents ch)\<rparr>) w)"

section \<open>The loop\<close>

definition isInLoopThread :: "nat \<Rightarrow> nat \<Rightarrow> 'a lworld_scheme \<Rightarrow> bool" where
  "isInLoopThread t L w \<longleftrightarrow> threadId (loops w L) = t"

definition wakeup :: "nat \<Rightarrow> 'a lworld_scheme \<Rightarrow> 'a lworld_scheme" where
  "wakeup L w = logCall (SysWakeWrite L) w"

definition loopHandleRead :: "nat \<Rightarrow> 'a lworld_scheme \<Rightarrow> 'a lworld_scheme" where
  "loopHandleRead L w = logCall (SysWakeRead L) w"

text \<open>\<^verbatim>\<open>queueInLoop\<close> is two steps for another thread: the push under the mutex, then the wakeup.\<close>

definition pushFunctor :: "nat \<Rightarrow> Functor \<Rightarrow> 'a lworld_scheme \<Rightarrow> 'a lworld_scheme" where
  "pushFunctor L f w = setLoop L (\<lambda>l. l\<lparr>pendingFunctors := pendingFunctors l @ [f]\<rparr>) w"

definition queueInLoop :: "nat \<Rightarrow> nat \<Rightarrow> Functor \<Rightarrow> 'a lworld_scheme \<Rightarrow> 'a lworld_scheme" where
  "queueInLoop t L f w =
     (let w = pushFunctor L f w
      in if \<not> isInLoopThread t L w \<or> callingPendingFunctors (loops w L) then wakeup L w else w)"

text \<open>
  \<^verbatim>\<open>runInLoop\<close>: the call itself (\<open>now\<close>) when in the loop's thread, else its bound form is queued.
\<close>

definition runInLoop :: "nat \<Rightarrow> nat \<Rightarrow> ('a lworld_scheme \<Rightarrow> fault + 'a lworld_scheme) \<Rightarrow> Functor \<Rightarrow>
    'a lworld_scheme \<Rightarrow> fault + 'a lworld_scheme" where
  "runInLoop t L now f w =
     (if isInLoopThread t L w then now w else Inr (queueInLoop t L f w))"

definition setQuit :: "nat \<Rightarrow> 'a lworld_scheme \<Rightarrow> 'a lworld_scheme" where
  "setQuit L w = setLoop L (\<lambda>l. l\<lparr>quitFlag := True\<rparr>) w"

definition quitLoop :: "nat \<Rightarrow> nat \<Rightarrow> 'a lworld_scheme \<Rightarrow> 'a lworld_scheme" where
  "quitLoop t L w =
     (let w = setQuit L w in if \<not> isInLoopThread t L w then wakeup L w else w)"

text \<open>Construction and destruction; \<open>c\<close> is the address of the new wakeup channel.\<close>

definition newEventLoop :: "kernel \<Rightarrow> bool \<Rightarrow> int \<Rightarrow> int \<Rightarrow> nat \<Rightarrow> nat \<Rightarrow> nat \<Rightarrow> 'a lworld_scheme \<Rightarrow> fault + 'a lworld_scheme" where
  "newEventLoop K muduoUsePoll epollfd wakeupFd t L c w =
     bind_res (newDefaultPoller muduoUsePoll epollfd) (\<lambda>p.
     let w = w\<lparr>pollers := (pollers w)(L := p),
               chans := (chans w)(c := newChannel L wakeupFd),
               loops := (loops w)(L := \<lparr>looping = False, quitFlag = False, callingPendingFunctors = False,
                 threadId = t, wakeupChannel = c, activeChannels = [], pendingFunctors = []\<rparr>)\<rparr>
     in if loopInThisThread w t \<noteq> None then Inl ExitFailure
        else let w = w\<lparr>loopInThisThread := (loopInThisThread w)(t := Some L)\<rparr>;
                 w = setChan c (setReadCallback (WakeupRead L)) w
             in channelInterest K EnableReading c w)"

text \<open>The member \<^verbatim>\<open>poller_\<close> goes with its loop: the epoll descriptor is closed.\<close>

definition destroyPoller :: "nat \<Rightarrow> 'a pworld_scheme \<Rightarrow> 'a pworld_scheme" where
  "destroyPoller L w = w\<lparr>pollers := (pollers w)(L := None)\<rparr>"

definition destroyEventLoop :: "kernel \<Rightarrow> nat \<Rightarrow> nat \<Rightarrow> 'a lworld_scheme \<Rightarrow> fault + 'a lworld_scheme" where
  "destroyEventLoop K t L w =
     (let c = wakeupChannel (loops w L) in
      bind_res (channelInterest K DisableAll c w) (\<lambda>w.
      bind_res (channelRemove K c w) (\<lambda>w.
      Inr (destroyPoller L ((logCall (SysClose (chFd (chans w c))) w)
             \<lparr>loopInThisThread := (loopInThisThread w)(t := None)\<rparr>)))))"

text \<open>
  One turn of \<^verbatim>\<open>loop()\<close>: wait, let every reported channel handle its events, run the
  pending functors. \<open>handle\<close> and \<open>exec\<close> say what a channel's events and a functor do.
\<close>

fun runAll :: "('x \<Rightarrow> 'w \<Rightarrow> fault + 'w) \<Rightarrow> 'x list \<Rightarrow> 'w \<Rightarrow> fault + 'w" where
  "runAll f [] w = Inr w"
| "runAll f (x # xs) w = bind_res (f x w) (runAll f xs)"

definition doPendingFunctors :: "(Functor \<Rightarrow> 'a lworld_scheme \<Rightarrow> fault + 'a lworld_scheme) \<Rightarrow> nat \<Rightarrow>
    'a lworld_scheme \<Rightarrow> fault + 'a lworld_scheme" where
  "doPendingFunctors exec L w =
     (let w = setLoop L (\<lambda>l. l\<lparr>callingPendingFunctors := True\<rparr>) w;
          functors = pendingFunctors (loops w L);
          w = setLoop L (\<lambda>l. l\<lparr>pendingFunctors := []\<rparr>) w
      in bind_res (runAll exec functors w)
           (\<lambda>w. Inr (setLoop L (\<lambda>l. l\<lparr>callingPendingFunctors := False\<rparr>) w)))"

definition loopTurn :: "kernel \<Rightarrow> (nat \<Rightarrow> 'a lworld_scheme \<Rightarrow> fault + 'a lworld_scheme) \<Rightarrow>
    (Functor \<Rightarrow> 'a lworld_scheme \<Rightarrow> fault + 'a lworld_scheme) \<Rightarrow> nat \<Rightarrow> 'a lworld_scheme \<Rightarrow> fault + 'a lworld_scheme" where
  "loopTurn K handle exec L w =
     (let w = setLoop L (\<lambda>l. l\<lparr>activeChannels := []\<rparr>) w in
      bind_res (pollerPoll K L [] w) (\<lambda>(active, w).
      bind_res (runAll handle active (setLoop L (\<lambda>l. l\<lparr>activeChannels := active\<rparr>) w)) (\<lambda>w.
      doPendingFunctors exec L w)))"

text \<open>\<^verbatim>\<open>while(!quit_)\<close> may go on for ever: the result is an option, None when it does.\<close>

partial_function (option) loopWhile ::
  "('a lworld_scheme \<Rightarrow> fault + 'a lworld_scheme) \<Rightarrow> nat \<Rightarrow> 'a lworld_scheme \<Rightarrow> (fault + 'a lworld_scheme) option" where
  "loopWhile turn L w =
     (if quitFlag (loops w L) then Some (Inr (setLoop L (\<lambda>l. l\<lparr>looping := False\<rparr>) w))
      else case turn w of
             Inl e \<Rightarrow> Some (Inl e)
           | Inr w' \<Rightarrow> loopWhile turn L w')"

definition loopStart :: "nat \<Rightarrow> 'a lworld_scheme \<Rightarrow> 'a lworld_scheme" where
  "loopStart L w = setLoop L (\<lambda>l. l\<lparr>looping := True, quitFlag := False\<rparr>) w"

definition loopRun :: "('a lworld_scheme \<Rightarrow> fault + 'a lworld_scheme) \<Rightarrow> nat \<Rightarrow> 'a lworld_scheme \<Rightarrow>
    (fault + 'a lworld_scheme) option" where
  "loopRun turn L w = loopWhile turn L (loopStart L w)"

section \<open>Facts\<close>

lemmas loop_defs = setLoop_def wakeup_def loopHandleRead_def pushFunctor_def queueInLoop_def runInLoop_def
  isInLoopThread_def setQuit_def quitLoop_def logCall_def

text \<open>Changing a channel's interest through its loop: it never fails, and this is the result.\<close>

lemma channelInterest_updated:
  assumes "poll_ok L w" and "ctl_documented K" and "chLoop (chans w c) = L" and "fd_free L c w"
  shows "channelInterest K op c w = Inr (updatedWorld L c (newEvents op (chEvents (chans w c))) w)"
proof -
  let ?w = "setChan c (\<lambda>ch. ch\<lparr>chEvents := newEvents op (chEvents (chans w c))\<rparr>) w"
  from assms(1) obtain p where "pollers w L = Some p" by (rule poll_okE) blast
  with assms(3) have "channelUpdate K c ?w = pollerUpdateChannel K L c ?w"
    by (simp add: channelUpdate_def loopUpdateChannel_def setChan_def)
  also have "\<dots> = Inr (updatedWorld L c (newEvents op (chEvents (chans w c))) w)"
    by (rule pollerUpdateChannel_updated [OF assms])
  finally show ?thesis by (simp add: channelInterest_def setChan_def)
qed

lemma channelRemove_removed:
  assumes "poll_ok L w" and "ctl_documented K" and "chLoop (chans w c) = L"
  shows "channelRemove K c w = Inr (removedWorld L c w)"
proof -
  from assms(1) obtain p where "pollers w L = Some p" by (rule poll_okE) blast
  with assms(3) show ?thesis
    by (simp add: channelRemove_def loopRemoveChannel_def pollerRemoveChannel_removed [OF assms])
qed

lemma runAll_append: "runAll f (xs @ ys) w = bind_res (runAll f xs w) (runAll f ys)"
  by (induction xs arbitrary: w) (simp_all add: bind_res_def split: sum.splits)

text \<open>A property every step keeps is kept by the run.\<close>

lemma runAll_invariant:
  assumes step: "\<And>x w w'. x \<in> set xs \<Longrightarrow> P w \<Longrightarrow> f x w = Inr w' \<Longrightarrow> P w'"
    and "P w" and "runAll f xs w = Inr w'"
  shows "P w'"
  using assms(2,3) step
proof (induction xs arbitrary: w)
  case Nil
  then show ?case by simp
next
  case (Cons x xs)
  from Cons.prems(2) obtain w1 where "f x w = Inr w1" and "runAll f xs w1 = Inr w'"
    by (auto simp: bind_res_Inr_iff)
  with Cons.prems(1,3) show ?case by (intro Cons.IH [of w1]) auto
qed

text \<open>A run of steps that never fail from states with the property never fails.\<close>

lemma runAll_total:
  assumes step: "\<And>x w. x \<in> set xs \<Longrightarrow> P w \<Longrightarrow> \<exists>w'. f x w = Inr w' \<and> P w'" and "P w"
  shows "\<exists>w'. runAll f xs w = Inr w' \<and> P w'"
  using assms(2) step
proof (induction xs arbitrary: w)
  case Nil
  then show ?case by simp
next
  case (Cons x xs)
  from Cons.prems obtain w1 where "f x w = Inr w1" and "P w1" by (meson list.set_intros(1))
  with Cons.IH [of w1] Cons.prems(2) show ?case by auto
qed

end
