(* ===== verification/Registration.thy ===== *)
theory Registration
  imports EventLoop
begin

text \<open>
  The interface between the channels and the poller, over all the layers between them
  (\<^verbatim>\<open>Channel::update\<close>, \<^verbatim>\<open>EventLoop::updateChannel\<close>, \<^verbatim>\<open>EpollPoller::updateChannel\<close>,
  \<^verbatim>\<open>epoll_ctl\<close>): each request changes one channel's mask and whether it is watched, as
  the abstract machine \<open>specStep\<close> says, and disturbs no channel with another descriptor.
\<close>

section \<open>The abstract machine\<close>

datatype req = Ask interest_op nat | Forget nat

fun reqChan :: "req \<Rightarrow> nat" where
  "reqChan (Ask op c) = c"
| "reqChan (Forget c) = c"

text \<open>Per channel: the mask asked for, and whether the kernel watches it.\<close>

fun specStep :: "req \<Rightarrow> (nat \<Rightarrow> events \<times> bool) \<Rightarrow> (nat \<Rightarrow> events \<times> bool)" where
  "specStep (Ask op c) s =
     (let ev = newEvents op (fst (s c)) in s(c := (ev, \<not> (snd (s c) \<and> ev = kNoneEvent))))"
| "specStep (Forget c) s = s(c := (fst (s c), False))"

fun regStep :: "(interest_op \<Rightarrow> nat \<Rightarrow> 'w \<Rightarrow> fault + 'w) \<Rightarrow> (nat \<Rightarrow> 'w \<Rightarrow> fault + 'w) \<Rightarrow> req \<Rightarrow> 'w \<Rightarrow> fault + 'w" where
  "regStep ask forget (Ask op c) w = ask op c w"
| "regStep ask forget (Forget c) w = forget c w"

section \<open>The interface\<close>

locale channel_registry =
  fixes inv :: "'w \<Rightarrow> bool"
    and owns :: "nat \<Rightarrow> 'w \<Rightarrow> bool"
    and key :: "nat \<Rightarrow> 'w \<Rightarrow> int"
    and view :: "'w \<Rightarrow> nat \<Rightarrow> events \<times> bool"
    and ask :: "interest_op \<Rightarrow> nat \<Rightarrow> 'w \<Rightarrow> fault + 'w"
    and forget :: "nat \<Rightarrow> 'w \<Rightarrow> fault + 'w"
  assumes step_law: "inv w \<Longrightarrow> owns (reqChan r) w \<Longrightarrow>
      \<exists>w'. regStep ask forget r w = Inr w' \<and> inv w' \<and> view w' = specStep r (view w) \<and>
        (\<forall>c. key c w' = key c w) \<and>
        (\<forall>c. c = reqChan r \<or> key c w \<noteq> key (reqChan r) w \<longrightarrow> owns c w \<longrightarrow> owns c w')"
begin

text \<open>Any sequence of requests for channels with distinct descriptors refines the machine.\<close>

lemma run_law:
  assumes "inv w" and "\<forall>c \<in> C. owns c w" and "inj_on (\<lambda>c. key c w) C" and "reqChan ` set rs \<subseteq> C"
  shows "\<exists>w'. runAll (regStep ask forget) rs w = Inr w' \<and> inv w' \<and> (\<forall>c \<in> C. owns c w') \<and>
    view w' = fold specStep rs (view w) \<and> (\<forall>c. key c w' = key c w)"
  using assms
proof (induction rs arbitrary: w)
  case Nil
  then show ?case by simp
next
  case (Cons r rs)
  from Cons.prems have r: "reqChan r \<in> C" by simp
  with Cons.prems(2) have "owns (reqChan r) w" by blast
  from step_law [OF Cons.prems(1) this] obtain w1 where s: "regStep ask forget r w = Inr w1" "inv w1"
      "view w1 = specStep r (view w)" "\<forall>c. key c w1 = key c w"
      "\<forall>c. c = reqChan r \<or> key c w \<noteq> key (reqChan r) w \<longrightarrow> owns c w \<longrightarrow> owns c w1" by blast
  have "\<forall>c \<in> C. owns c w1"
    using s(5) Cons.prems(2,3) r by (auto simp: inj_on_def)
  moreover from s(4) Cons.prems(3) have "inj_on (\<lambda>c. key c w1) C" by simp
  ultimately obtain w' where "runAll (regStep ask forget) rs w1 = Inr w'" "inv w'" "\<forall>c \<in> C. owns c w'"
      "view w' = fold specStep rs (view w1)" "\<forall>c. key c w' = key c w1"
    using Cons.IH [of w1] s(2) Cons.prems(4) by auto
  with s show ?case by simp
qed

end

section \<open>The code provides it\<close>

definition chanOwned :: "nat \<Rightarrow> nat \<Rightarrow> 'a pworld_scheme \<Rightarrow> bool" where
  "chanOwned L c w \<longleftrightarrow> chLoop (chans w c) = L \<and> fd_free L c w"

definition chanView :: "nat \<Rightarrow> 'a pworld_scheme \<Rightarrow> nat \<Rightarrow> events \<times> bool" where
  "chanView L w c =
     (chEvents (chans w c),
      case interest L (syslog w) (chFd (chans w c)) of None \<Rightarrow> False | Some (ev, c') \<Rightarrow> c' = c)"

definition registryInv :: "kernel \<Rightarrow> nat \<Rightarrow> 'a pworld_scheme \<Rightarrow> bool" where
  "registryInv K L w \<longleftrightarrow> ctl_documented K \<and> poll_ok L w"

lemma chanView_owned:
  assumes "poll_ok L w" and "chanOwned L c w"
  shows "snd (chanView L w c) \<longleftrightarrow> chIndex (chans w c) = kAdded"
  using poll_ok_watched_fd [OF assms(1), of c] assms(2) by (auto simp: chanView_def chanOwned_def)

text \<open>A descriptor owned by \<open>c\<close> is watched for no other channel.\<close>

lemma chanView_other:
  assumes "poll_ok L w" and "chanOwned L c w" and "c' \<noteq> c" and "chFd (chans w c') = chFd (chans w c)"
  shows "\<not> snd (chanView L w c')"
  using poll_ok_watched_fd [OF assms(1), of c] assms(2-) by (auto simp: chanView_def chanOwned_def)

lemma chanView_updated:
  assumes ok: "poll_ok L w" and own: "chanOwned L c w"
  shows "chanView L (updatedWorld L c ev w) =
    (chanView L w)(c := (ev, \<not> (snd (chanView L w c) \<and> ev = kNoneEvent)))"
proof (rule ext)
  fix c'
  show "chanView L (updatedWorld L c ev w) c' =
    ((chanView L w)(c := (ev, \<not> (snd (chanView L w c) \<and> ev = kNoneEvent)))) c'"
    using chanView_owned [OF ok own] chanView_other [OF ok own, of c']
    by (auto simp: chanView_def ctlFor_def)
qed

lemma chanView_removed:
  assumes ok: "poll_ok L w" and own: "chanOwned L c w"
  shows "chanView L (removedWorld L c w) = (chanView L w)(c := (chEvents (chans w c), False))"
proof (rule ext)
  fix c'
  show "chanView L (removedWorld L c w) c' = ((chanView L w)(c := (chEvents (chans w c), False))) c'"
    using chanView_owned [OF ok own] chanView_other [OF ok own, of c']
    by (auto simp: chanView_def)
qed

lemma chanOwned_updated:
  "chanOwned L c w \<Longrightarrow> chLoop (chans w c) = L \<Longrightarrow> c' = c \<or> chFd (chans w c') \<noteq> chFd (chans w c) \<Longrightarrow>
   chanOwned L c' w \<Longrightarrow> chanOwned L c' (updatedWorld L c ev w)"
  by (auto simp: chanOwned_def fd_free_def)

lemma chanOwned_removed: "chanOwned L c' w \<Longrightarrow> chanOwned L c' (removedWorld L c w)"
  by (auto simp: chanOwned_def fd_free_def split: if_splits)

interpretation reg: channel_registry "registryInv K L" "chanOwned L" "\<lambda>c w. chFd (chans w c)" "chanView L"
    "channelInterest K" "channelRemove K" for K L
proof unfold_locales
  fix w :: "'a pworld_scheme" and r
  assume inv: "registryInv K L w" and own: "chanOwned L (reqChan r) w"
  then have ok: "poll_ok L w" and K: "ctl_documented K" and L: "chLoop (chans w (reqChan r)) = L"
    and free: "fd_free L (reqChan r) w"
    by (simp_all add: registryInv_def chanOwned_def)
  show "\<exists>w'. regStep (channelInterest K) (channelRemove K) r w = Inr w' \<and> registryInv K L w' \<and>
      chanView L w' = specStep r (chanView L w) \<and>
      (\<forall>c. chFd (chans w' c) = chFd (chans w c)) \<and>
      (\<forall>c. c = reqChan r \<or> chFd (chans w c) \<noteq> chFd (chans w (reqChan r)) \<longrightarrow> chanOwned L c w \<longrightarrow> chanOwned L c w')"
  proof (cases r)
    case (Ask op c)
    let ?w' = "updatedWorld L c (newEvents op (chEvents (chans w c))) w"
    have "chanView L ?w' = specStep r (chanView L w)"
      using chanView_updated [OF ok, of c] own Ask by (simp add: Let_def) (simp add: chanView_def)
    moreover have "poll_ok L ?w'" using poll_ok_updated [OF ok] L free Ask by simp
    ultimately show ?thesis
      using channelInterest_updated [OF ok K] L free Ask own K
      by (intro exI [of _ ?w']) (auto simp: registryInv_def intro!: chanOwned_updated)
  next
    case (Forget c)
    let ?w' = "removedWorld L c w"
    have "chanView L ?w' = specStep r (chanView L w)"
      using chanView_removed [OF ok, of c] own Forget by (simp add: chanView_def)
    moreover have "poll_ok L ?w'" using poll_ok_removed [OF ok] L free Forget by simp
    ultimately show ?thesis
      using channelRemove_removed [OF ok K] L Forget K
      by (intro exI [of _ ?w']) (auto simp: registryInv_def intro!: chanOwned_removed)
  qed
qed

section \<open>Properties\<close>

text \<open>
  C0: Whatever sequence of \<^verbatim>\<open>enableReading\<close>, \<^verbatim>\<open>enableWriting\<close>, \<^verbatim>\<open>disableReading\<close>,
  \<^verbatim>\<open>disableWriting\<close>, \<^verbatim>\<open>disableAll\<close> and \<^verbatim>\<open>remove\<close> the channels of a loop with different
  descriptors go through, no call fails (no \<^verbatim>\<open>epoll_ctl\<close> is refused, so no \<^verbatim>\<open>LOG_FATAL\<close>
  ends the program), the poller stays consistent with the kernel, and each channel's mask
  and whether the kernel watches it are those of the abstract registry.
\<close>

theorem channels_refine_registry:
  assumes "ctl_documented K" and "poll_ok L w"
    and "\<forall>c \<in> C. chLoop (chans w c) = L \<and> fd_free L c w"
    and "inj_on (\<lambda>c. chFd (chans w c)) C" and "reqChan ` set rs \<subseteq> C"
  shows "\<exists>w'. runAll (regStep (channelInterest K) (channelRemove K)) rs w = Inr w' \<and> poll_ok L w' \<and>
    chanView L w' = fold specStep rs (chanView L w)"
proof -
  have "registryInv K L w" using assms(1,2) by (simp add: registryInv_def)
  moreover have "\<forall>c \<in> C. chanOwned L c w" using assms(3) by (simp add: chanOwned_def)
  ultimately show ?thesis
    using reg.run_law [where K = K and L = L, OF _ _ assms(4,5)] by (auto simp: registryInv_def)
qed

theorem channels_refine_registry_witness:
  "\<exists>w'. runAll (regStep (channelInterest sampleKernel) (channelRemove sampleKernel))
      [Ask EnableReading 3, Ask EnableWriting 3, Ask EnableReading 5, Ask DisableAll 3, Forget 5] samplePWorld = Inr w' \<and>
    poll_ok 0 w' \<and> chanView 0 w' 3 = (kNoneEvent, False) \<and> chanView 0 w' 5 = (kReadEvent, False)"
proof -
  let ?rs = "[Ask EnableReading 3, Ask EnableWriting 3, Ask EnableReading 5, Ask DisableAll 3, Forget 5]"
  have "\<forall>c \<in> {3, 5}. chLoop (chans samplePWorld c) = 0 \<and> fd_free 0 c samplePWorld"
    by (simp add: samplePWorld_ok)
  moreover have "inj_on (\<lambda>c. chFd (chans samplePWorld c)) {3, 5}"
    by (simp add: samplePWorld_ok inj_on_def)
  moreover have "reqChan ` set ?rs \<subseteq> {3, 5}" by simp
  moreover have "fold specStep ?rs (chanView 0 samplePWorld) 3 = (kNoneEvent, False)"
    and "fold specStep ?rs (chanView 0 samplePWorld) 5 = (kReadEvent, False)"
    by (simp_all add: Let_def chanView_def samplePWorld_def newChannel_def kNoneEvent_def event_bits)
  ultimately show ?thesis
    using channels_refine_registry [OF sampleKernel_documented(1) samplePWorld_ok(1), of "{3, 5}" ?rs] by auto
qed

text \<open>
  \<^verbatim>\<open>disableAll\<close> on a channel that is not watched (a second \<^verbatim>\<open>disableAll\<close>, or one on a
  channel never enabled) does the opposite of what its comment says: it adds the descriptor
  to epoll with an empty mask, so that hang-ups and errors are reported again. On a
  watched channel it removes it.
\<close>

theorem disableAll_toggles:
  assumes "ctl_documented K" and "poll_ok L w" and "chLoop (chans w c) = L" and "fd_free L c w"
  shows "\<exists>w'. channelInterest K DisableAll c w = Inr w' \<and>
    interest L (syslog w') (chFd (chans w c)) =
      (if chIndex (chans w c) = kAdded then None else Some (kNoneEvent, c))"
  using channelInterest_updated [OF assms(2,1,3,4), of DisableAll] by (simp add: ctlFor_def)

theorem disableAll_toggles_witness:
  "\<exists>w'. channelInterest sampleKernel DisableAll 3 samplePWorld = Inr w' \<and>
    interest 0 (syslog w') 3 = Some (kNoneEvent, 3)"
  using disableAll_toggles [OF sampleKernel_documented(1) samplePWorld_ok(1,3,2), of 3]
  by (simp add: samplePWorld_ok) (simp add: samplePWorld_def newChannel_def kAdded_def)

end
