(* ===== verification/Wakeup.thy ===== *)
theory Wakeup
  imports EventLoop
begin

text \<open>
  One event loop and the other threads of the program, interleaved. The loop thread moves
  through \<^verbatim>\<open>EventLoop::loop\<close> and \<^verbatim>\<open>doPendingFunctors\<close>; any other thread may be inside
  \<^verbatim>\<open>queueInLoop\<close> or \<^verbatim>\<open>quit\<close>, between its change of the shared state and its write to
  the eventfd. The steps are made of the functions of \<^verbatim>\<open>EventLoop.thy\<close>. What
  \<^verbatim>\<open>epoll_wait\<close> does is left open (it may return at any time, for a timeout or another
  descriptor) but for one thing: it reports the eventfd when its counter is not zero.
\<close>

section \<open>The machine\<close>

text \<open>
  Where the loop thread is: before \<^verbatim>\<open>loop()\<close>, testing \<^verbatim>\<open>quit_\<close>, in \<^verbatim>\<open>poll\<close>, handling
  events (with the eventfd still to be read or not), running the functors swapped out, or
  out of the loop.
\<close>

datatype lpc = BeforeLoop | Checking | Polling | Handling bool | Running "Functor list" | Stopped

datatype opc = OIdle | OPushed | OQuit

text \<open>
  \<open>rounds\<close>, \<open>pushed\<close>, \<open>early\<close> and \<open>executed\<close> record the history; no step reads them.
  \<open>early\<close> are the functors the loop's own thread queued before it entered \<^verbatim>\<open>loop()\<close>.
\<close>

record race =
  wld :: lworld
  lpc :: lpc
  opc :: "nat \<Rightarrow> opc"
  rounds :: nat
  pushed :: "Functor list"
  early :: "Functor list"
  executed :: "Functor list"

abbreviation loopThread :: "nat \<Rightarrow> race \<Rightarrow> nat" where
  "loopThread L s \<equiv> threadId (loops (wld s) L)"

abbreviation queued :: "nat \<Rightarrow> race \<Rightarrow> Functor list" where
  "queued L s \<equiv> pendingFunctors (loops (wld s) L)"

abbreviation counter :: "nat \<Rightarrow> race \<Rightarrow> nat" where
  "counter L s \<equiv> wakeups L (syslog (wld s))"

definition swapFunctors :: "nat \<Rightarrow> 'a lworld_scheme \<Rightarrow> 'a lworld_scheme" where
  "swapFunctors L w =
     setLoop L (\<lambda>l. l\<lparr>callingPendingFunctors := True, pendingFunctors := []\<rparr>) w"

definition endFunctors :: "nat \<Rightarrow> 'a lworld_scheme \<Rightarrow> 'a lworld_scheme" where
  "endFunctors L w = setLoop L (\<lambda>l. l\<lparr>callingPendingFunctors := False\<rparr>) w"

definition endLoop :: "nat \<Rightarrow> 'a lworld_scheme \<Rightarrow> 'a lworld_scheme" where
  "endLoop L w = setLoop L (\<lambda>l. l\<lparr>looping := False\<rparr>) w"

inductive race_step :: "nat \<Rightarrow> race \<Rightarrow> race \<Rightarrow> bool" for L :: nat where
  own_early: "lpc s = BeforeLoop \<Longrightarrow>
    race_step L s (s\<lparr>wld := queueInLoop (loopThread L s) L f (wld s), pushed := pushed s @ [f], early := early s @ [f]\<rparr>)"
| own_start: "lpc s = BeforeLoop \<Longrightarrow> race_step L s (s\<lparr>wld := loopStart L (wld s), lpc := Checking\<rparr>)"
| own_stop: "lpc s = Checking \<Longrightarrow> quitFlag (loops (wld s) L) \<Longrightarrow>
    race_step L s (s\<lparr>wld := endLoop L (wld s), lpc := Stopped\<rparr>)"
| own_poll: "lpc s = Checking \<Longrightarrow> \<not> quitFlag (loops (wld s) L) \<Longrightarrow> race_step L s (s\<lparr>lpc := Polling\<rparr>)"
| own_return: "lpc s = Polling \<Longrightarrow> race_step L s (s\<lparr>lpc := Handling (0 < counter L s)\<rparr>)"
| own_drain: "lpc s = Handling True \<Longrightarrow>
    race_step L s (s\<lparr>wld := loopHandleRead L (wld s), lpc := Handling False\<rparr>)"
| own_handler_queue: "lpc s = Handling b \<Longrightarrow>
    race_step L s (s\<lparr>wld := queueInLoop (loopThread L s) L f (wld s), pushed := pushed s @ [f]\<rparr>)"
| own_handler_quit: "lpc s = Handling b \<Longrightarrow>
    race_step L s (s\<lparr>wld := quitLoop (loopThread L s) L (wld s)\<rparr>)"
| own_swap: "lpc s = Handling False \<Longrightarrow>
    race_step L s (s\<lparr>wld := swapFunctors L (wld s), lpc := Running (queued L s)\<rparr>)"
| own_run: "lpc s = Running (f # fs) \<Longrightarrow> race_step L s (s\<lparr>lpc := Running fs, executed := executed s @ [f]\<rparr>)"
| own_functor_queue: "lpc s = Running fs \<Longrightarrow>
    race_step L s (s\<lparr>wld := queueInLoop (loopThread L s) L f (wld s), pushed := pushed s @ [f]\<rparr>)"
| own_functor_quit: "lpc s = Running fs \<Longrightarrow>
    race_step L s (s\<lparr>wld := quitLoop (loopThread L s) L (wld s)\<rparr>)"
| own_done: "lpc s = Running [] \<Longrightarrow>
    race_step L s (s\<lparr>wld := endFunctors L (wld s), lpc := Checking, rounds := Suc (rounds s)\<rparr>)"
| other_push: "t \<noteq> loopThread L s \<Longrightarrow> opc s t = OIdle \<Longrightarrow>
    race_step L s (s\<lparr>wld := pushFunctor L f (wld s), opc := (opc s)(t := OPushed), pushed := pushed s @ [f]\<rparr>)"
| other_quit: "t \<noteq> loopThread L s \<Longrightarrow> opc s t = OIdle \<Longrightarrow>
    race_step L s (s\<lparr>wld := setQuit L (wld s), opc := (opc s)(t := OQuit)\<rparr>)"
| other_wake: "opc s t \<noteq> OIdle \<Longrightarrow>
    race_step L s (s\<lparr>wld := wakeup L (wld s), opc := (opc s)(t := OIdle)\<rparr>)"

definition race_init :: "nat \<Rightarrow> race \<Rightarrow> bool" where
  "race_init L s \<longleftrightarrow> lpc s = BeforeLoop \<and> (\<forall>t. opc s t = OIdle) \<and> rounds s = 0 \<and> pushed s = [] \<and> early s = [] \<and> executed s = [] \<and>
     queued L s = [] \<and> \<not> callingPendingFunctors (loops (wld s) L) \<and> counter L s = 0"

inductive race_reachable :: "nat \<Rightarrow> race \<Rightarrow> bool" for L :: nat where
  start: "race_init L s \<Longrightarrow> race_reachable L s"
| step: "race_reachable L s \<Longrightarrow> race_step L s s' \<Longrightarrow> race_reachable L s'"

text \<open>
  The steps of another thread are the two halves of its call, and the steps around the
  functors are those of \<^verbatim>\<open>doPendingFunctors\<close>.
\<close>

lemma queueInLoop_other: "t \<noteq> threadId (loops w L) \<Longrightarrow> queueInLoop t L f w = wakeup L (pushFunctor L f w)"
  by (simp add: loop_defs Let_def)

lemma quitLoop_other: "t \<noteq> threadId (loops w L) \<Longrightarrow> quitLoop t L w = wakeup L (setQuit L w)"
  by (simp add: loop_defs Let_def)

lemma doPendingFunctors_steps:
  "doPendingFunctors exec L w =
     bind_res (runAll exec (pendingFunctors (loops w L)) (swapFunctors L w)) (\<lambda>w. Inr (endFunctors L w))"
  by (simp add: doPendingFunctors_def swapFunctors_def endFunctors_def setLoop_def Let_def)

section \<open>The invariant\<close>

fun toRun :: "lpc \<Rightarrow> Functor list" where
  "toRun (Running fs) = fs"
| "toRun _ = []"

fun isRunning :: "lpc \<Rightarrow> bool" where
  "isRunning (Running fs) = True"
| "isRunning _ = False"

text \<open>The loop will not sleep: the counter is set, or a thread is about to set it.\<close>

definition signalled :: "nat \<Rightarrow> race \<Rightarrow> bool" where
  "signalled L s \<longleftrightarrow> 0 < counter L s \<or> (\<exists>t. opc s t \<noteq> OIdle)"

text \<open>Where work left in the queue must have been signalled.\<close>

definition mustSignal :: "race \<Rightarrow> bool" where
  "mustSignal s \<longleftrightarrow> isRunning (lpc s) \<or> (lpc s = Checking \<or> lpc s = Polling) \<and> 0 < rounds s"

definition race_inv :: "nat \<Rightarrow> race \<Rightarrow> bool" where
  "race_inv L s \<longleftrightarrow>
     executed s @ toRun (lpc s) @ queued L s = pushed s \<and>
     callingPendingFunctors (loops (wld s) L) = isRunning (lpc s) \<and>
     (lpc s = BeforeLoop \<longrightarrow> rounds s = 0) \<and>
     (mustSignal s \<longrightarrow> queued L s \<noteq> [] \<longrightarrow> signalled L s) \<and>
     (lpc s = Polling \<longrightarrow> quitFlag (loops (wld s) L) \<longrightarrow> signalled L s)"

lemmas race_defs = race_inv_def signalled_def mustSignal_def loop_defs loopStart_def
  swapFunctors_def endFunctors_def endLoop_def

lemma race_inv_init: "race_init L s \<Longrightarrow> race_inv L s"
  by (simp add: race_init_def race_inv_def mustSignal_def)

lemma race_inv_step: "race_step L s s' \<Longrightarrow> race_inv L s \<Longrightarrow> race_inv L s'"
  by (induction rule: race_step.induct) (force simp: race_defs Let_def)+

lemma race_inv_reachable: "race_reachable L s \<Longrightarrow> race_inv L s"
  by (induction rule: race_reachable.induct) (auto intro: race_inv_init race_inv_step)

text \<open>Before the first wait has returned, only another thread's functor has been signalled.\<close>

definition firstRound :: "race \<Rightarrow> bool" where
  "firstRound s \<longleftrightarrow> rounds s = 0 \<and> lpc s \<in> {BeforeLoop, Checking, Polling}"

definition first_inv :: "nat \<Rightarrow> race \<Rightarrow> bool" where
  "first_inv L s \<longleftrightarrow> (rounds s = 0 \<and> \<not> isRunning (lpc s) \<longrightarrow> executed s = []) \<and>
     (firstRound s \<longrightarrow> signalled L s \<or> pushed s = early s)"

lemma first_inv_step: "race_step L s s' \<Longrightarrow> first_inv L s \<Longrightarrow> first_inv L s'"
  by (cases rule: race_step.cases, assumption)
    (simp_all add: first_inv_def firstRound_def signalled_def loop_defs loopStart_def swapFunctors_def endFunctors_def endLoop_def Let_def,
      auto)

lemma first_inv_reachable: "race_reachable L s \<Longrightarrow> first_inv L s"
proof (induction rule: race_reachable.induct)
  case (start s)
  then show ?case by (simp add: race_init_def first_inv_def)
qed (rule first_inv_step)

section \<open>Properties\<close>

text \<open>
  C4: No wakeup is lost, but for one case. Whenever the loop's thread is about to sleep in
  \<^verbatim>\<open>epoll_wait\<close> while functors are queued or \<^verbatim>\<open>quit_\<close> is set, and no other thread is between
  changing the shared state and writing to the eventfd, the eventfd is readable, in any
  interleaving. The case is the first wait: if all that is queued then was queued by the loop's
  own thread before it entered \<^verbatim>\<open>loop()\<close>, nobody has written to the eventfd.
\<close>

theorem no_lost_wakeup:
  assumes "race_reachable L s" and "lpc s = Polling" and "\<forall>t. opc s t = OIdle"
    and "queued L s \<noteq> [] \<or> quitFlag (loops (wld s) L)"
  shows "0 < counter L s \<or>
    rounds s = 0 \<and> queued L s = early s \<and> pushed s = early s \<and> \<not> quitFlag (loops (wld s) L)"
  using race_inv_reachable [OF assms(1)] first_inv_reachable [OF assms(1)] assms(2-)
  by (cases "rounds s = 0") (auto simp: race_inv_def first_inv_def signalled_def mustSignal_def firstRound_def)

text \<open>
  C15: In any interleaving the functors pushed by all threads are run in the order in which
  they were pushed, each exactly once: those run, those being run and those still queued
  are together the ones pushed.
\<close>

theorem functors_run_once_in_order:
  assumes "race_reachable L s"
  shows "executed s @ toRun (lpc s) @ queued L s = pushed s"
  using race_inv_reachable [OF assms] by (simp add: race_inv_def)

definition sampleRace :: race where
  "sampleRace = \<lparr>
     wld = \<lparr>syslog = [], chans = (\<lambda>c. newChannel 0 (int c)), pollers = (\<lambda>_. None),
       loops = (\<lambda>_. \<lparr>looping = False, quitFlag = False, callingPendingFunctors = False, threadId = 1,
         wakeupChannel = 0, activeChannels = [], pendingFunctors = []\<rparr>),
       loopInThisThread = (\<lambda>_. None)\<rparr>,
     lpc = BeforeLoop, opc = (\<lambda>_. OIdle), rounds = 0, pushed = [], early = [], executed = []\<rparr>"

lemma sampleRace_init: "race_init 0 sampleRace"
  by (simp add: race_init_def sampleRace_def)

text \<open>Rounds of the loop, as steps between given states; the examples chain them.\<close>

lemma race_reachable_step: "race_reachable L s \<Longrightarrow> race_step L s s' \<Longrightarrow> s' = s'' \<Longrightarrow> race_reachable L s''"
  by (auto intro: race_reachable.step)

lemma race_round_reachable:
  assumes "race_reachable L s" and "lpc s = Checking" and "\<not> quitFlag (loops (wld s) L)"
    and "counter L s = 0" and "queued L s = []"
  obtains s' where "race_reachable L s'" "lpc s' = Polling" "0 < rounds s'" "queued L s' = []" "opc s' = opc s"
    "loopThread L s' = loopThread L s" "counter L s' = 0"
proof -
  let ?polling = "s\<lparr>lpc := Polling\<rparr>"
  let ?handling = "?polling\<lparr>lpc := Handling False\<rparr>"
  let ?running = "?handling\<lparr>wld := swapFunctors L (wld s), lpc := Running []\<rparr>"
  let ?done = "?running\<lparr>wld := endFunctors L (wld ?running), lpc := Checking, rounds := Suc (rounds s)\<rparr>"
  have "race_reachable L ?polling"
    by (rule race_reachable.step [OF assms(1) own_poll [OF assms(2,3)]])
  then have "race_reachable L ?handling"
    by (rule race_reachable_step [OF _ own_return]) (use assms in simp_all)
  then have "race_reachable L ?running"
    by (rule race_reachable_step [OF _ own_swap]) (use assms in simp_all)
  then have "race_reachable L ?done"
    by (rule race_reachable_step [OF _ own_done]) simp_all
  then have "race_reachable L (?done\<lparr>lpc := Polling\<rparr>)"
    by (rule race_reachable_step [OF _ own_poll]) (use assms in \<open>simp_all add: race_defs\<close>)
  then show thesis
    by (rule that) (use assms in \<open>simp_all add: race_defs\<close>)
qed

theorem no_lost_wakeup_witness:
  "\<exists>s. race_reachable 0 s \<and> lpc s = Polling \<and> queued 0 s \<noteq> [] \<and> 0 < counter 0 s"
proof -
  let ?s1 = "sampleRace\<lparr>wld := loopStart 0 (wld sampleRace), lpc := Checking\<rparr>"
  have "race_reachable 0 ?s1"
    by (rule race_reachable_step [OF race_reachable.start [OF sampleRace_init] own_start])
      (simp_all add: sampleRace_def)
  then obtain s where s: "race_reachable 0 s" "lpc s = Polling" "0 < rounds s" "queued 0 s = []"
      "opc s = opc ?s1" "loopThread 0 s = loopThread 0 ?s1"
    by (rule race_round_reachable) (simp_all add: sampleRace_def loopStart_def setLoop_def)
  then have idle: "opc s 2 = OIdle" "2 \<noteq> loopThread 0 s"
    by (simp_all add: sampleRace_def loopStart_def setLoop_def)
  let ?p = "s\<lparr>wld := pushFunctor 0 (FUser 9) (wld s), opc := (opc s)(2 := OPushed), pushed := pushed s @ [FUser 9]\<rparr>"
  let ?w = "?p\<lparr>wld := wakeup 0 (wld ?p), opc := (opc ?p)(2 := OIdle)\<rparr>"
  have "race_reachable 0 ?p" by (rule race_reachable.step [OF s(1) other_push]) (use idle in simp_all)
  then have "race_reachable 0 ?w" by (rule race_reachable.step [OF _ other_wake]) simp
  moreover have "\<forall>t. opc ?w t = OIdle" using s(5) by (simp add: sampleRace_def)
  moreover have "lpc ?w = Polling" "queued 0 ?w \<noteq> []" "0 < rounds ?w" using s by (simp_all add: loop_defs)
  ultimately show ?thesis using no_lost_wakeup [of 0 ?w] by (metis less_numeral_extra(3))
qed

text \<open>
  Two threads push, the loop wakes, runs the first functor and queues a third while it is
  running: one is done, one is next, one waits.
\<close>

theorem functors_run_once_in_order_witness:
  "\<exists>s. race_reachable 0 s \<and> lpc s = Running [FUser 2] \<and> queued 0 s = [FUser 3] \<and> executed s = [FUser 1] \<and>
     pushed s = [FUser 1, FUser 2, FUser 3]"
proof -
  let ?push = "\<lambda>t f s. s\<lparr>wld := pushFunctor 0 f (wld s), opc := (opc s)(t := OPushed), pushed := pushed s @ [f]\<rparr>"
  let ?s1 = "sampleRace\<lparr>wld := loopStart 0 (wld sampleRace), lpc := Checking\<rparr>"
  let ?s2 = "?s1\<lparr>lpc := Polling\<rparr>"
  let ?s4 = "?push 3 (FUser 2) (?push 2 (FUser 1) ?s2)"
  let ?s5 = "?s4\<lparr>wld := wakeup 0 (wld ?s4), opc := (opc ?s4)(2 := OIdle)\<rparr>"
  let ?s6 = "?s5\<lparr>lpc := Handling True\<rparr>"
  let ?s7 = "?s6\<lparr>wld := loopHandleRead 0 (wld ?s6), lpc := Handling False\<rparr>"
  let ?s8 = "?s7\<lparr>wld := swapFunctors 0 (wld ?s7), lpc := Running (queued 0 ?s7)\<rparr>"
  let ?s9 = "?s8\<lparr>lpc := Running [FUser 2], executed := [FUser 1]\<rparr>"
  let ?s10 = "?s9\<lparr>wld := queueInLoop (loopThread 0 ?s9) 0 (FUser 3) (wld ?s9), pushed := pushed ?s9 @ [FUser 3]\<rparr>"
  note defs = sampleRace_def loop_defs loopStart_def swapFunctors_def Let_def
  have "race_reachable 0 ?s1"
    by (rule race_reachable_step [OF race_reachable.start [OF sampleRace_init] own_start]) (simp_all add: sampleRace_def)
  then have "race_reachable 0 ?s2" by (rule race_reachable_step [OF _ own_poll]) (simp_all add: defs)
  then have "race_reachable 0 (?push 2 (FUser 1) ?s2)" by (rule race_reachable_step [OF _ other_push [where t = 2]]) (simp_all add: defs)
  then have "race_reachable 0 ?s4" by (rule race_reachable_step [OF _ other_push [where t = 3]]) (simp_all add: defs)
  then have "race_reachable 0 ?s5" by (rule race_reachable_step [OF _ other_wake [where t = 2]]) simp_all
  then have "race_reachable 0 ?s6" by (rule race_reachable_step [OF _ own_return]) (simp_all add: defs)
  then have "race_reachable 0 ?s7" by (rule race_reachable_step [OF _ own_drain]) simp_all
  then have "race_reachable 0 ?s8" by (rule race_reachable_step [OF _ own_swap]) simp_all
  then have "race_reachable 0 ?s9" by (rule race_reachable_step [OF _ own_run]) (simp_all add: defs)
  then have r: "race_reachable 0 ?s10" by (rule race_reachable_step [OF _ own_functor_queue]) simp_all
  have at: "lpc ?s10 = Running [FUser 2]" "queued 0 ?s10 = [FUser 3]" "executed ?s10 = [FUser 1]"
    by (simp_all add: defs)
  with functors_run_once_in_order [OF r] have "pushed ?s10 = [FUser 1, FUser 2, FUser 3]" by (simp only: toRun.simps append.simps)
  with r at show ?thesis by blast
qed

text \<open>
  C32: The case that is left is real: from any state in which nothing has happened yet, when the
  loop's own thread queues a functor before it enters \<^verbatim>\<open>loop()\<close>, it can go to sleep on the functor
  with an eventfd nobody has written to, although no other thread is in the middle of a call. So
  until a descriptor or the timeout of \<^verbatim>\<open>epoll_wait\<close> ends the sleep, the functor does not run.
\<close>

theorem early_functor_sleeps:
  assumes "race_init L s"
  shows "\<exists>s'. (race_step L)\<^sup>*\<^sup>* s s' \<and> lpc s' = Polling \<and> queued L s' = [f] \<and> executed s' = [] \<and>
    counter L s' = 0 \<and> (\<forall>t. opc s' t = OIdle)"
proof -
  let ?q = "s\<lparr>wld := queueInLoop (loopThread L s) L f (wld s), pushed := pushed s @ [f], early := early s @ [f]\<rparr>"
  let ?c = "?q\<lparr>wld := loopStart L (wld ?q), lpc := Checking\<rparr>"
  have "race_step L s ?q" "race_step L ?q ?c" "race_step L ?c (?c\<lparr>lpc := Polling\<rparr>)"
    by (rule own_early own_start own_poll; use assms in \<open>simp add: race_init_def race_defs\<close>)+
  then have "(race_step L)\<^sup>*\<^sup>* s (?c\<lparr>lpc := Polling\<rparr>)" by (meson converse_rtranclp_into_rtranclp rtranclp.rtrancl_refl)
  then show ?thesis
    by (intro exI [of _ "?c\<lparr>lpc := Polling\<rparr>"]) (use assms in \<open>simp add: race_init_def race_defs Let_def\<close>)
qed

theorem early_functor_sleeps_witness:
  "\<exists>s'. (race_step 0)\<^sup>*\<^sup>* sampleRace s' \<and> lpc s' = Polling \<and> queued 0 s' = [FUser 9] \<and> counter 0 s' = 0"
  using early_functor_sleeps [OF sampleRace_init, of "FUser 9"] by blast

text \<open>
  A loop does not return if its turns keep an invariant \<open>P\<close>, under which they neither fail nor
  set \<^verbatim>\<open>quit_\<close>.
\<close>

definition keepsRunning :: "('a lworld_scheme \<Rightarrow> bool) \<Rightarrow> ('a lworld_scheme \<Rightarrow> fault + 'a lworld_scheme) \<Rightarrow> nat \<Rightarrow> bool" where
  "keepsRunning P turn L \<longleftrightarrow>
     (\<forall>w. P w \<and> \<not> quitFlag (loops w L) \<longrightarrow> (\<exists>w'. turn w = Inr w' \<and> P w' \<and> \<not> quitFlag (loops w' L)))"

lemma loopWhile_quits:
  assumes "loopWhile turn L w = Some r"
  shows "keepsRunning P turn L \<and> P w \<longrightarrow> quitFlag (loops w L)"
proof (rule loopWhile.raw_induct [where P = "\<lambda>turn L w r. keepsRunning P turn L \<and> P w \<longrightarrow> quitFlag (loops w L)", OF _ assms],
    intro impI, rule ccontr)
  fix self :: "('a lworld_scheme \<Rightarrow> fault + 'a lworld_scheme) \<Rightarrow> nat \<Rightarrow> 'a lworld_scheme \<Rightarrow> (fault + 'a lworld_scheme) option"
    and turn :: "'a lworld_scheme \<Rightarrow> fault + 'a lworld_scheme" and L w r
  assume ih: "\<And>turn L w r. self turn L w = Some r \<Longrightarrow> keepsRunning P turn L \<and> P w \<longrightarrow> quitFlag (loops w L)"
    and body: "(if quitFlag (loops w L) then Some (Inr (setLoop L (\<lambda>l. l\<lparr>looping := False\<rparr>) w))
      else case turn w of Inl e \<Rightarrow> Some (Inl e) | Inr w' \<Rightarrow> self turn L w') = Some r"
    and keep: "keepsRunning P turn L \<and> P w" and no: "\<not> quitFlag (loops w L)"
  from keep no obtain w' where w': "turn w = Inr w'" "P w'" "\<not> quitFlag (loops w' L)"
    unfolding keepsRunning_def by blast
  with no body have "self turn L w' = Some r" by simp
  from ih [OF this] keep w'(2,3) show False by blast
qed

lemma loopRun_never_returns:
  assumes "keepsRunning P turn L" "P (loopStart L w)"
  shows "loopRun turn L w = None"
proof (cases "loopRun turn L w")
  case (Some r)
  then have "loopWhile turn L (loopStart L w) = Some r" by (simp add: loopRun_def)
  from loopWhile_quits [OF this] assms have "quitFlag (loops (loopStart L w) L)" by blast
  then show ?thesis by (simp add: loopStart_def setLoop_def)
qed simp

end
