(* ===== verification/Socket.thy ===== *)
theory Socket
  imports EPollPoller
begin

text \<open>
  \<^verbatim>\<open>class Socket\<close> of \<^verbatim>\<open>MyMuduo/Socket.h\<close> and \<^verbatim>\<open>MyMuduo/Socket.cc\<close>: a descriptor and the
  system calls on it. A failing \<^verbatim>\<open>bind\<close> or \<^verbatim>\<open>listen\<close> ends the program; the results of
  \<^verbatim>\<open>setsockopt\<close> are not looked at.
\<close>

definition closeSocket :: "int \<Rightarrow> 'a pworld_scheme \<Rightarrow> 'a pworld_scheme" where
  "closeSocket fd w = logCall (SysClose fd) w"

definition bindAddress :: "kernel \<Rightarrow> int \<Rightarrow> inetaddr \<Rightarrow> 'a pworld_scheme \<Rightarrow> fault + 'a pworld_scheme" where
  "bindAddress K fd localaddr w =
     (let ok = k_bind K (syslog w) fd localaddr;
          w = logCall (SysBind fd localaddr ok) w
      in if ok then Inr w else Inl ExitFailure)"

definition socketListen :: "kernel \<Rightarrow> int \<Rightarrow> 'a pworld_scheme \<Rightarrow> fault + 'a pworld_scheme" where
  "socketListen K fd w =
     (let ok = k_listen K (syslog w) fd;
          w = logCall (SysListen fd ok) w
      in if ok then Inr w else Inl ExitFailure)"

definition socketAccept :: "kernel \<Rightarrow> int \<Rightarrow> 'a pworld_scheme \<Rightarrow> (int + (int \<times> inetaddr)) \<times> 'a pworld_scheme" where
  "socketAccept K fd w = (let r = k_accept K (syslog w) fd in (r, logCall (SysAccept fd r) w))"

definition shutdownWrite :: "kernel \<Rightarrow> int \<Rightarrow> 'a pworld_scheme \<Rightarrow> 'a pworld_scheme" where
  "shutdownWrite K fd w = logCall (SysShutdownWr fd (k_shutdown K (syslog w) fd)) w"

definition setTcpNoDelay :: "int \<Rightarrow> bool \<Rightarrow> 'a pworld_scheme \<Rightarrow> 'a pworld_scheme" where
  "setTcpNoDelay fd on w = logCall (SysSetOpt fd TCP_NODELAY on) w"

definition setReuseAddr :: "int \<Rightarrow> bool \<Rightarrow> 'a pworld_scheme \<Rightarrow> 'a pworld_scheme" where
  "setReuseAddr fd on w = logCall (SysSetOpt fd SO_REUSEADDR on) w"

definition setReusePort :: "int \<Rightarrow> bool \<Rightarrow> 'a pworld_scheme \<Rightarrow> 'a pworld_scheme" where
  "setReusePort fd on w = logCall (SysSetOpt fd SO_REUSEPORT on) w"

definition setKeepAlive :: "int \<Rightarrow> bool \<Rightarrow> 'a pworld_scheme \<Rightarrow> 'a pworld_scheme" where
  "setKeepAlive fd on w = logCall (SysSetOpt fd SO_KEEPALIVE on) w"

lemmas socket_defs = closeSocket_def bindAddress_def socketListen_def socketAccept_def shutdownWrite_def
  setTcpNoDelay_def setReuseAddr_def setReusePort_def setKeepAlive_def

end
