(* ===== verification/TcpConnection.thy ===== *)
theory TcpConnection
  imports Buffer EventLoop Socket
begin

text \<open>
  \<^verbatim>\<open>class TcpConnection\<close> of \<^verbatim>\<open>MyMuduo/TcpConnection.h\<close> and \<^verbatim>\<open>MyMuduo/TcpConnection.cc\<close>.
  The handlers work on the world of
  \<^verbatim>\<open>EventLoop.thy\<close>, extended with the connections by address, which of them still exist,
  and the strings of callers that \<^verbatim>\<open>send\<close> only points to. The user's callbacks are a
  parameter; so is the closing callback, which the server sets. The proofs about this
  code are in \<^verbatim>\<open>ConnStream.thy\<close> and \<^verbatim>\<open>ConnLife.thy\<close>.
\<close>

section \<open>State\<close>

datatype stateE = KDisconnected | KConnecting | KConnected | KDisconnecting

record tcpconn =
  cnLoop :: nat
  cnName :: string
  cnState :: stateE
  cnReading :: bool
  cnSocket :: int
  cnChannel :: nat
  cnLocalAddr :: inetaddr
  cnPeerAddr :: inetaddr
  connectionSet :: bool
  messageSet :: bool
  writeCompleteSet :: bool
  highWaterMarkSet :: bool
  closeSet :: bool
  cnHighWaterMark :: nat
  cnInput :: buffer
  cnOutput :: buffer

record cworld = lworld +
  conns :: "nat \<Rightarrow> tcpconn"
  connAlive :: "nat \<Rightarrow> bool"
  mem :: "nat \<Rightarrow> char list option"

definition setConn :: "nat \<Rightarrow> (tcpconn \<Rightarrow> tcpconn) \<Rightarrow> 'a cworld_scheme \<Rightarrow> 'a cworld_scheme" where
  "setConn c f w = w\<lparr>conns := (conns w)(c := f (conns w c))\<rparr>"

definition setState :: "nat \<Rightarrow> stateE \<Rightarrow> 'a cworld_scheme \<Rightarrow> 'a cworld_scheme" where
  "setState c st w = setConn c (\<lambda>cn. cn\<lparr>cnState := st\<rparr>) w"

text \<open>The channel of connection \<open>c\<close>.\<close>

definition connChan :: "nat \<Rightarrow> 'a cworld_scheme \<Rightarrow> channel" where
  "connChan c w = chans w (cnChannel (conns w c))"

text \<open>
  The callbacks of the users of a connection, each with the thread that runs it; calling
  one that was never set throws.
\<close>

record 'w user =
  onConnection :: "nat \<Rightarrow> nat \<Rightarrow> 'w \<Rightarrow> fault + 'w"
  onMessage :: "nat \<Rightarrow> nat \<Rightarrow> 'w \<Rightarrow> fault + 'w"
  onWriteComplete :: "nat \<Rightarrow> nat \<Rightarrow> 'w \<Rightarrow> fault + 'w"
  onHighWaterMark :: "nat \<Rightarrow> nat \<Rightarrow> nat \<Rightarrow> 'w \<Rightarrow> fault + 'w"
  onClose :: "nat \<Rightarrow> nat \<Rightarrow> 'w \<Rightarrow> fault + 'w"

definition callSet :: "bool \<Rightarrow> ('w \<Rightarrow> fault + 'w) \<Rightarrow> 'w \<Rightarrow> fault + 'w" where
  "callSet isSet f w = (if isSet then f w else Inl BadFunctionCall)"

section \<open>System calls on a socket\<close>

definition EWOULDBLOCK :: int where "EWOULDBLOCK = 11"
definition EPIPE :: int where "EPIPE = 32"
definition ECONNRESET :: int where "ECONNRESET = 104"

definition sysWrite :: "kernel \<Rightarrow> int \<Rightarrow> char list \<Rightarrow> 'a pworld_scheme \<Rightarrow> (int \<times> int) \<times> 'a pworld_scheme" where
  "sysWrite K fd data w =
     (let (n, err) = k_write K (syslog w) fd data in ((n, err), logCall (SysWrite fd data n err) w))"

definition sysReadv :: "kernel \<Rightarrow> int \<Rightarrow> nat \<Rightarrow> 'a pworld_scheme \<Rightarrow> (int + char list) \<times> 'a pworld_scheme" where
  "sysReadv K fd room w =
     (let r = k_readv K (syslog w) fd room in (r, logCall (SysReadv fd r) w))"

section \<open>The code\<close>

definition initialHighWaterMark :: nat where
  "initialHighWaterMark = 64 * 1024 * 1024"

text \<open>
  The constructor, for a connection at address \<open>c\<close> with its channel at \<open>ch\<close>; a null
  loop ends the program.
\<close>

definition newTcpConnection :: "nat option \<Rightarrow> string \<Rightarrow> int \<Rightarrow> inetaddr \<Rightarrow> inetaddr \<Rightarrow> nat \<Rightarrow> nat \<Rightarrow>
    'a cworld_scheme \<Rightarrow> fault + 'a cworld_scheme" where
  "newTcpConnection loop nameArg sockfd localAddr peerAddr c ch w =
     (case loop of
        None \<Rightarrow> Inl ExitFailure
      | Some L \<Rightarrow>
          bind_res (newBuffer kInitialSize) (\<lambda>input.
          bind_res (newBuffer kInitialSize) (\<lambda>output.
          let channel = setErrorCallback (ConnError c) (setCloseCallback (ConnClose c)
                (setWriteCallback (ConnWrite c) (setReadCallback (ConnRead c) (newChannel L sockfd))));
              w = w\<lparr>chans := (chans w)(ch := channel),
                    connAlive := (connAlive w)(c := True),
                    conns := (conns w)(c := \<lparr>cnLoop = L, cnName = nameArg, cnState = KConnecting,
                      cnReading = True, cnSocket = sockfd, cnChannel = ch, cnLocalAddr = localAddr,
                      cnPeerAddr = peerAddr, connectionSet = False, messageSet = False,
                      writeCompleteSet = False, highWaterMarkSet = False, closeSet = False,
                      cnHighWaterMark = initialHighWaterMark, cnInput = input, cnOutput = output\<rparr>)\<rparr>
          in Inr (setKeepAlive sockfd True w))))"

definition connected :: "nat \<Rightarrow> 'a cworld_scheme \<Rightarrow> bool" where
  "connected c w \<longleftrightarrow> cnState (conns w c) = KConnected"

text \<open>The callbacks the owner sets; only whether there is one is kept, what they do is the parameter \<open>user\<close>.\<close>

definition connSetConnectionCallback :: "nat \<Rightarrow> bool \<Rightarrow> 'a cworld_scheme \<Rightarrow> 'a cworld_scheme" where
  "connSetConnectionCallback c cb w = setConn c (\<lambda>cn. cn\<lparr>connectionSet := cb\<rparr>) w"

definition connSetMessageCallback :: "nat \<Rightarrow> bool \<Rightarrow> 'a cworld_scheme \<Rightarrow> 'a cworld_scheme" where
  "connSetMessageCallback c cb w = setConn c (\<lambda>cn. cn\<lparr>messageSet := cb\<rparr>) w"

definition connSetWriteCompleteCallback :: "nat \<Rightarrow> bool \<Rightarrow> 'a cworld_scheme \<Rightarrow> 'a cworld_scheme" where
  "connSetWriteCompleteCallback c cb w = setConn c (\<lambda>cn. cn\<lparr>writeCompleteSet := cb\<rparr>) w"

definition connSetCloseCallback :: "nat \<Rightarrow> bool \<Rightarrow> 'a cworld_scheme \<Rightarrow> 'a cworld_scheme" where
  "connSetCloseCallback c cb w = setConn c (\<lambda>cn. cn\<lparr>closeSet := cb\<rparr>) w"

definition connSetHighWaterMarkCallback :: "nat \<Rightarrow> bool \<Rightarrow> nat \<Rightarrow> 'a cworld_scheme \<Rightarrow> 'a cworld_scheme" where
  "connSetHighWaterMarkCallback c cb mark w =
     setConn c (\<lambda>cn. cn\<lparr>highWaterMarkSet := cb, cnHighWaterMark := mark\<rparr>) w"

lemmas conn_setters = connSetConnectionCallback_def connSetMessageCallback_def connSetWriteCompleteCallback_def
  connSetCloseCallback_def connSetHighWaterMarkCallback_def

text \<open>\<^verbatim>\<open>sendInLoop\<close>: write at once when nothing is waiting, and keep what the kernel did not take.\<close>

definition sendDirect :: "kernel \<Rightarrow> nat \<Rightarrow> nat \<Rightarrow> char list \<Rightarrow> 'a cworld_scheme \<Rightarrow> nat \<times> bool \<times> 'a cworld_scheme" where
  "sendDirect K t c data w =
     (let ((n, err), w) = sysWrite K (chFd (connChan c w)) data w in
      if 0 < n
      then (nat n, False,
            if length data - nat n = 0 \<and> writeCompleteSet (conns w c)
            then queueInLoop t (cnLoop (conns w c)) (FWriteComplete c) w else w)
      else (0, err \<noteq> EWOULDBLOCK \<and> (err = EPIPE \<or> err = ECONNRESET), w))"

definition sendRest :: "kernel \<Rightarrow> nat \<Rightarrow> nat \<Rightarrow> char list \<Rightarrow> 'a cworld_scheme \<Rightarrow> fault + 'a cworld_scheme" where
  "sendRest K t c rest w =
     (let cn = conns w c;
          oldLen = readableBytes (cnOutput cn);
          total = size_add oldLen (length rest);
          w = (if cnHighWaterMark cn \<le> total \<and> oldLen < cnHighWaterMark cn \<and> highWaterMarkSet cn
               then queueInLoop t (cnLoop cn) (FHighWaterMark c total) w else w)
      in bind_res (appendBytes rest (cnOutput cn)) (\<lambda>b.
         let w = setConn c (\<lambda>cn. cn\<lparr>cnOutput := b\<rparr>) w
         in if \<not> isWriting (connChan c w) then channelInterest K EnableWriting (cnChannel cn) w else Inr w))"

definition sendInLoop :: "kernel \<Rightarrow> nat \<Rightarrow> nat \<Rightarrow> char list \<Rightarrow> 'a cworld_scheme \<Rightarrow> fault + 'a cworld_scheme" where
  "sendInLoop K t c data w =
     (if cnState (conns w c) = KDisconnected then Inr w
      else let (nwrote, faultError, w) =
                 (if \<not> isWriting (connChan c w) \<and> readableBytes (cnOutput (conns w c)) = 0
                  then sendDirect K t c data w else (0, False, w));
               remaining = length data - nwrote
           in if \<not> faultError \<and> 0 < remaining then sendRest K t c (drop nwrote data) w else Inr w)"

text \<open>A queued \<^verbatim>\<open>sendInLoop\<close> reads the caller's bytes when it runs, if they are still there.\<close>

definition readMem :: "nat \<Rightarrow> nat \<Rightarrow> 'a cworld_scheme \<Rightarrow> fault + char list" where
  "readMem p n w =
     (case mem w p of
        None \<Rightarrow> Inl UseAfterFree
      | Some s \<Rightarrow> if n \<le> length s then Inr (take n s) else Inl OutOfBounds)"

definition sendFrom :: "kernel \<Rightarrow> nat \<Rightarrow> nat \<Rightarrow> nat \<Rightarrow> nat \<Rightarrow> 'a cworld_scheme \<Rightarrow> fault + 'a cworld_scheme" where
  "sendFrom K t c p n w = bind_res (readMem p n w) (\<lambda>data. sendInLoop K t c data w)"

definition connSend :: "kernel \<Rightarrow> nat \<Rightarrow> nat \<Rightarrow> nat \<Rightarrow> 'a cworld_scheme \<Rightarrow> fault + 'a cworld_scheme" where
  "connSend K t c p w =
     (if cnState (conns w c) = KConnected
      then (case mem w p of
              None \<Rightarrow> Inl UseAfterFree
            | Some buf \<Rightarrow>
                if isInLoopThread t (cnLoop (conns w c)) w then sendFrom K t c p (length buf) w
                else runInLoop t (cnLoop (conns w c)) (sendFrom K t c p (length buf))
                       (FSendInLoop c p (length buf)) w)
      else Inr w)"

definition shutdownInLoop :: "kernel \<Rightarrow> nat \<Rightarrow> 'a cworld_scheme \<Rightarrow> 'a cworld_scheme" where
  "shutdownInLoop K c w =
     (if \<not> isWriting (connChan c w) then shutdownWrite K (cnSocket (conns w c)) w else w)"

definition connShutdown :: "kernel \<Rightarrow> nat \<Rightarrow> nat \<Rightarrow> 'a cworld_scheme \<Rightarrow> fault + 'a cworld_scheme" where
  "connShutdown K t c w =
     (if cnState (conns w c) = KConnected
      then runInLoop t (cnLoop (conns w c)) (\<lambda>w. Inr (shutdownInLoop K c w)) (FShutdownInLoop c)
             (setState c KDisconnecting w)
      else Inr w)"

definition connectEstablished :: "kernel \<Rightarrow> 'a cworld_scheme user \<Rightarrow> nat \<Rightarrow> nat \<Rightarrow> 'a cworld_scheme \<Rightarrow> fault + 'a cworld_scheme" where
  "connectEstablished K U t c w =
     (let w = setState c KConnected w;
          w = setChan (cnChannel (conns w c)) (tie c) w
      in bind_res (channelInterest K EnableReading (cnChannel (conns w c)) w) (\<lambda>w.
         callSet (connectionSet (conns w c)) (onConnection U t c) w))"

definition connectDestroyed :: "kernel \<Rightarrow> 'a cworld_scheme user \<Rightarrow> nat \<Rightarrow> nat \<Rightarrow> 'a cworld_scheme \<Rightarrow> fault + 'a cworld_scheme" where
  "connectDestroyed K U t c w =
     bind_res
       (if cnState (conns w c) = KConnected
        then let w = setState c KDisconnected w in
             bind_res (channelInterest K DisableAll (cnChannel (conns w c)) w) (\<lambda>w.
             callSet (connectionSet (conns w c)) (onConnection U t c) w)
        else Inr w)
       (\<lambda>w. channelRemove K (cnChannel (conns w c)) w)"

definition handleClose :: "kernel \<Rightarrow> 'a cworld_scheme user \<Rightarrow> nat \<Rightarrow> nat \<Rightarrow> 'a cworld_scheme \<Rightarrow> fault + 'a cworld_scheme" where
  "handleClose K U t c w =
     (let w = setState c KDisconnected w in
      bind_res (channelInterest K DisableAll (cnChannel (conns w c)) w) (\<lambda>w.
      bind_res (callSet (connectionSet (conns w c)) (onConnection U t c) w) (\<lambda>w.
      callSet (closeSet (conns w c)) (onClose U t c) w)))"

definition handleError :: "nat \<Rightarrow> 'a cworld_scheme \<Rightarrow> 'a cworld_scheme" where
  "handleError c w = logCall (SysGetSockErr (chFd (connChan c w))) w"

definition handleRead :: "kernel \<Rightarrow> 'a cworld_scheme user \<Rightarrow> nat \<Rightarrow> nat \<Rightarrow> 'a cworld_scheme \<Rightarrow> fault + 'a cworld_scheme" where
  "handleRead K U t c w =
     bind_res (readFd (sysReadv K (chFd (connChan c w))) (cnInput (conns w c)) w) (\<lambda>(res, b, w).
     let w = setConn c (\<lambda>cn. cn\<lparr>cnInput := b\<rparr>) w in
     case res of
       Inr n \<Rightarrow>
         if 0 < n then callSet (messageSet (conns w c)) (onMessage U t c) w
         else handleClose K U t c w
     | Inl err \<Rightarrow> Inr (handleError c w))"

definition handleWrite :: "kernel \<Rightarrow> nat \<Rightarrow> nat \<Rightarrow> 'a cworld_scheme \<Rightarrow> fault + 'a cworld_scheme" where
  "handleWrite K t c w =
     (if isWriting (connChan c w)
      then bind_res (writeFd (sysWrite K (chFd (connChan c w))) (cnOutput (conns w c)) w) (\<lambda>((n, _), w).
        if 0 < n
        then let w = setConn c (\<lambda>cn. cn\<lparr>cnOutput := retrieve (nat n) (cnOutput cn)\<rparr>) w in
             if readableBytes (cnOutput (conns w c)) = 0
             then bind_res (channelInterest K DisableWriting (cnChannel (conns w c)) w) (\<lambda>w.
                  let w = (if writeCompleteSet (conns w c)
                           then queueInLoop t (cnLoop (conns w c)) (FWriteComplete c) w else w)
                  in Inr (if cnState (conns w c) = KDisconnecting then shutdownInLoop K c w else w))
             else Inr w
        else Inr w)
      else Inr w)"

text \<open>
  The destructor, run when the last owner lets go: the socket's destructor closes the
  descriptor.
\<close>

definition destroyTcpConnection :: "nat \<Rightarrow> 'a cworld_scheme \<Rightarrow> 'a cworld_scheme" where
  "destroyTcpConnection c w =
     closeSocket (cnSocket (conns w c)) (w\<lparr>connAlive := (connAlive w)(c := False)\<rparr>)"

text \<open>What the callbacks bound in the constructor do, and the events of a channel.\<close>

definition runCallback :: "kernel \<Rightarrow> 'a cworld_scheme user \<Rightarrow> (nat \<Rightarrow> 'a cworld_scheme \<Rightarrow> fault + 'a cworld_scheme) \<Rightarrow>
    nat \<Rightarrow> callback \<Rightarrow> 'a cworld_scheme \<Rightarrow> fault + 'a cworld_scheme" where
  "runCallback K U accept t cb w =
     (case cb of
        WakeupRead L \<Rightarrow> Inr (loopHandleRead L w)
      | AcceptorRead \<Rightarrow> accept t w
      | ConnRead c \<Rightarrow> handleRead K U t c w
      | ConnWrite c \<Rightarrow> handleWrite K t c w
      | ConnClose c \<Rightarrow> handleClose K U t c w
      | ConnError c \<Rightarrow> Inr (handleError c w))"

definition channelEvent :: "kernel \<Rightarrow> 'a cworld_scheme user \<Rightarrow> (nat \<Rightarrow> 'a cworld_scheme \<Rightarrow> fault + 'a cworld_scheme) \<Rightarrow>
    nat \<Rightarrow> nat \<Rightarrow> 'a cworld_scheme \<Rightarrow> fault + 'a cworld_scheme" where
  "channelEvent K U accept t ch w =
     handleEvent (\<lambda>w. chans w ch) (\<lambda>c w. connAlive w c) (runCallback K U accept t) w"

end
