(* ===== verification/ConnStream.thy ===== *)
theory ConnStream
  imports TcpConnection Registration
begin

text \<open>
  The bytes of a connection. The first part says what the operations of \<^verbatim>\<open>TcpConnection\<close>
  leave alone; then come the invariant of a connection and what \<^verbatim>\<open>sendInLoop\<close>,
  \<^verbatim>\<open>handleWrite\<close> and \<^verbatim>\<open>handleRead\<close> do to the streams: what was handed to \<^verbatim>\<open>send\<close> is,
  in order, what the kernel took followed by what the output buffer still holds.
\<close>

section \<open>Frames\<close>

lemma pworld_frame [simp]:
  "conns (updatedWorld L ch ev w) = conns w" "connAlive (updatedWorld L ch ev w) = connAlive w"
  "mem (updatedWorld L ch ev w) = mem w" "loops (updatedWorld L ch ev w) = loops w"
  "loopInThisThread (updatedWorld L ch ev w) = loopInThisThread w"
  "conns (removedWorld L ch w) = conns w" "connAlive (removedWorld L ch w) = connAlive w"
  "mem (removedWorld L ch w) = mem w" "loops (removedWorld L ch w) = loops w"
  "loopInThisThread (removedWorld L ch w) = loopInThisThread w"
  by (simp_all add: updatedWorld_def removedWorld_def)

lemma logCall_frame [simp]:
  "syslog (logCall call w) = call # syslog w" "chans (logCall call w) = chans w" "pollers (logCall call w) = pollers w"
  "loops (logCall call w) = loops w" "conns (logCall call w) = conns w" "connAlive (logCall call w) = connAlive w"
  "mem (logCall call w) = mem w"
  by (simp_all add: logCall_def)

lemma queueInLoop_frame [simp]:
  "chans (queueInLoop t L f w) = chans w" "pollers (queueInLoop t L f w) = pollers w"
  "conns (queueInLoop t L f w) = conns w" "connAlive (queueInLoop t L f w) = connAlive w"
  "mem (queueInLoop t L f w) = mem w"
  "written fd (syslog (queueInLoop t L f w)) = written fd (syslog w)"
  "delivered fd (syslog (queueInLoop t L f w)) = delivered fd (syslog w)"
  "shutdowns fd (syslog (queueInLoop t L f w)) = shutdowns fd (syslog w)"
  "interest L' (syslog (queueInLoop t L f w)) = interest L' (syslog w)"
  "threadId (loops (queueInLoop t L f w) L') = threadId (loops w L')"
  by (simp_all add: loop_defs Let_def)

lemma queueInLoop_pending [simp]:
  "pendingFunctors (loops (queueInLoop t L f w) L') =
     pendingFunctors (loops w L') @ (if L' = L then [f] else [])"
  by (simp add: loop_defs Let_def)

lemma setConn_frame [simp]:
  "syslog (setConn c f w) = syslog w" "chans (setConn c f w) = chans w" "pollers (setConn c f w) = pollers w"
  "loops (setConn c f w) = loops w" "connAlive (setConn c f w) = connAlive w" "mem (setConn c f w) = mem w"
  "conns (setConn c f w) = (conns w)(c := f (conns w c))"
  by (simp_all add: setConn_def)

lemma setState_frame [simp]:
  "syslog (setState c st w) = syslog w" "chans (setState c st w) = chans w" "pollers (setState c st w) = pollers w"
  "loops (setState c st w) = loops w" "connAlive (setState c st w) = connAlive w" "mem (setState c st w) = mem w"
  "conns (setState c st w) = (conns w)(c := (conns w c)\<lparr>cnState := st\<rparr>)"
  by (simp_all add: setState_def)

lemma poll_ok_cong:
  "pollers w' = pollers w \<Longrightarrow> chans w' = chans w \<Longrightarrow> interest L (syslog w') = interest L (syslog w) \<Longrightarrow>
   poll_ok L w' = poll_ok L w"
  by (simp add: poll_ok_def)

lemma fd_free_cong: "pollers w' = pollers w \<Longrightarrow> chans w' = chans w \<Longrightarrow> fd_free L ch w' = fd_free L ch w"
  by (simp add: fd_free_def)

lemma fd_free_updated: "fd_free L ch w \<Longrightarrow> fd_free L ch (updatedWorld L ch ev w)"
  by (auto simp: fd_free_def)

lemma fd_free_removed: "fd_free L ch w \<Longrightarrow> fd_free L ch (removedWorld L ch w)"
  by (auto simp: fd_free_def)

section \<open>The invariant of a connection\<close>

text \<open>
  Its channel belongs to its loop, whose poller is consistent with the kernel; both buffers
  are well-formed; and unless the connection is down, the channel asks for \<^verbatim>\<open>EPOLLOUT\<close>
  exactly when bytes are waiting to be written.
\<close>

abbreviation connLoop :: "nat \<Rightarrow> 'a cworld_scheme \<Rightarrow> nat" where
  "connLoop c w \<equiv> cnLoop (conns w c)"

abbreviation connFd :: "nat \<Rightarrow> 'a cworld_scheme \<Rightarrow> int" where
  "connFd c w \<equiv> chFd (connChan c w)"

abbreviation waiting :: "nat \<Rightarrow> 'a cworld_scheme \<Rightarrow> char list" where
  "waiting c w \<equiv> content (cnOutput (conns w c))"

abbreviation unread :: "nat \<Rightarrow> 'a cworld_scheme \<Rightarrow> char list" where
  "unread c w \<equiv> content (cnInput (conns w c))"

definition conn_wired :: "nat \<Rightarrow> 'a cworld_scheme \<Rightarrow> bool" where
  "conn_wired c w \<longleftrightarrow>
     chLoop (connChan c w) = connLoop c w \<and> cnSocket (conns w c) = connFd c w \<and>
     poll_ok (connLoop c w) w \<and> fd_free (connLoop c w) (cnChannel (conns w c)) w"

definition conn_ok :: "nat \<Rightarrow> 'a cworld_scheme \<Rightarrow> bool" where
  "conn_ok c w \<longleftrightarrow> conn_wired c w \<and> buf_ok (cnInput (conns w c)) \<and> buf_ok (cnOutput (conns w c)) \<and>
     (cnState (conns w c) \<noteq> KDisconnected \<longrightarrow> isWriting (connChan c w) = (waiting c w \<noteq> []))"

lemma conn_okD:
  assumes "conn_ok c w"
  shows "conn_wired c w" "buf_ok (cnInput (conns w c))" "buf_ok (cnOutput (conns w c))"
    "cnState (conns w c) \<noteq> KDisconnected \<Longrightarrow> isWriting (connChan c w) = (waiting c w \<noteq> [])"
  using assms by (simp_all add: conn_ok_def)

lemma conn_wired_cong:
  assumes "pollers w' = pollers w" and "chans w' = chans w"
    and "interest (connLoop c w) (syslog w') = interest (connLoop c w) (syslog w)"
    and "cnLoop (conns w' c) = cnLoop (conns w c)" and "cnSocket (conns w' c) = cnSocket (conns w c)"
    and "cnChannel (conns w' c) = cnChannel (conns w c)"
  shows "conn_wired c w' = conn_wired c w"
  using assms poll_ok_cong [of w' w "connLoop c w"] fd_free_cong [of w' w "connLoop c w"]
  by (simp add: conn_wired_def connChan_def)

text \<open>Changing the interest of a connection's channel: it works, and nothing else changes.\<close>

definition interestWorld :: "interest_op \<Rightarrow> nat \<Rightarrow> 'a cworld_scheme \<Rightarrow> 'a cworld_scheme" where
  "interestWorld op c w = updatedWorld (connLoop c w) (cnChannel (conns w c)) (newEvents op (chEvents (connChan c w))) w"

lemma interestWorld_frame [simp]:
  "conns (interestWorld op c w) = conns w" "connAlive (interestWorld op c w) = connAlive w"
  "mem (interestWorld op c w) = mem w" "loops (interestWorld op c w) = loops w"
  "written fd (syslog (interestWorld op c w)) = written fd (syslog w)"
  "delivered fd (syslog (interestWorld op c w)) = delivered fd (syslog w)"
  "shutdowns fd (syslog (interestWorld op c w)) = shutdowns fd (syslog w)"
  "wakeups L (syslog (interestWorld op c w)) = wakeups L (syslog w)"
  "chFd (connChan c' (interestWorld op c w)) = chFd (connChan c' w)"
  "chEvents (connChan c (interestWorld op c w)) = newEvents op (chEvents (connChan c w))"
  by (simp_all add: interestWorld_def connChan_def)

lemma conn_interest:
  assumes "conn_wired c w" and "ctl_documented K"
  shows "channelInterest K op (cnChannel (conns w c)) w = Inr (interestWorld op c w)"
    and "conn_wired c (interestWorld op c w)"
proof -
  from assms(1) have ok: "poll_ok (connLoop c w) w" and L: "chLoop (chans w (cnChannel (conns w c))) = connLoop c w"
    and free: "fd_free (connLoop c w) (cnChannel (conns w c)) w" and s: "cnSocket (conns w c) = connFd c w"
    by (simp_all add: conn_wired_def connChan_def)
  show "channelInterest K op (cnChannel (conns w c)) w = Inr (interestWorld op c w)"
    using channelInterest_updated [OF ok assms(2) L free] by (simp add: interestWorld_def connChan_def)
  show "conn_wired c (interestWorld op c w)"
    using poll_ok_updated [OF ok L free] fd_free_updated [OF free] L s
    by (simp add: interestWorld_def conn_wired_def connChan_def)
qed

lemma conn_remove:
  assumes "conn_wired c w" and "ctl_documented K"
  shows "channelRemove K (cnChannel (conns w c)) w = Inr (removedWorld (connLoop c w) (cnChannel (conns w c)) w)"
    and "conn_wired c (removedWorld (connLoop c w) (cnChannel (conns w c)) w)"
proof -
  from assms(1) have ok: "poll_ok (connLoop c w) w" and L: "chLoop (chans w (cnChannel (conns w c))) = connLoop c w"
    and free: "fd_free (connLoop c w) (cnChannel (conns w c)) w" and s: "cnSocket (conns w c) = connFd c w"
    by (simp_all add: conn_wired_def connChan_def)
  show "channelRemove K (cnChannel (conns w c)) w = Inr (removedWorld (connLoop c w) (cnChannel (conns w c)) w)"
    by (rule channelRemove_removed [OF ok assms(2) L])
  show "conn_wired c (removedWorld (connLoop c w) (cnChannel (conns w c)) w)"
    using poll_ok_removed [OF ok L free] fd_free_removed [OF free] L s
    by (simp add: conn_wired_def connChan_def)
qed

lemma isWriting_interest:
  "isWriting (connChan c (interestWorld EnableWriting c w))"
  "\<not> isWriting (connChan c (interestWorld DisableWriting c w))"
  "\<not> isWriting (connChan c (interestWorld DisableAll c w))"
  "isWriting (connChan c (interestWorld EnableReading c w)) = isWriting (connChan c w)"
  by (simp_all add: isWriting_def newEvents_writing del: newEvents.simps)

subsection \<open>What belongs to one connection\<close>

text \<open>
  Everything of a connection but its state and its buffers is fixed once the server has set
  it up, and an operation on it touches no other connection and no other channel.
\<close>

definition connIdent :: "tcpconn \<Rightarrow> tcpconn" where
  "connIdent cn = cn\<lparr>cnState := KConnecting, cnInput := \<lparr>bytes = [], readerIndex = 0, writeIndex = 0\<rparr>,
     cnOutput := \<lparr>bytes = [], readerIndex = 0, writeIndex = 0\<rparr>\<rparr>"

definition chanIdent :: "channel \<Rightarrow> channel" where
  "chanIdent ch = ch\<lparr>chEvents := 0, chIndex := 0\<rparr>"

definition connFrame :: "nat \<Rightarrow> 'a cworld_scheme \<Rightarrow> 'a cworld_scheme \<Rightarrow> bool" where
  "connFrame c w w' \<longleftrightarrow>
     (\<forall>c'. c' \<noteq> c \<longrightarrow> conns w' c' = conns w c') \<and> connIdent (conns w' c) = connIdent (conns w c) \<and>
     (\<forall>ch. ch \<noteq> cnChannel (conns w c) \<longrightarrow> chans w' ch = chans w ch) \<and>
     chanIdent (connChan c w') = chanIdent (connChan c w) \<and>
     connAlive w' = connAlive w \<and> mem w' = mem w \<and> (\<forall>L. threadId (loops w' L) = threadId (loops w L))"

lemma connIdent_eqD:
  assumes "connIdent cn' = connIdent cn"
  shows "cnLoop cn' = cnLoop cn" "cnName cn' = cnName cn" "cnSocket cn' = cnSocket cn" "cnChannel cn' = cnChannel cn"
    "connectionSet cn' = connectionSet cn" "messageSet cn' = messageSet cn" "writeCompleteSet cn' = writeCompleteSet cn"
    "highWaterMarkSet cn' = highWaterMarkSet cn" "closeSet cn' = closeSet cn" "cnHighWaterMark cn' = cnHighWaterMark cn"
  using assms by (cases cn; cases cn'; simp add: connIdent_def)+

lemma chanIdent_eqD:
  assumes "chanIdent ch' = chanIdent ch"
  shows "chLoop ch' = chLoop ch" "chFd ch' = chFd ch" "chRevents ch' = chRevents ch" "chTie ch' = chTie ch"
    "chTied ch' = chTied ch" "readCallback ch' = readCallback ch" "writeCallback ch' = writeCallback ch"
    "closeCallback ch' = closeCallback ch" "errorCallback ch' = errorCallback ch"
  using assms by (cases ch; cases ch'; simp add: chanIdent_def)+

lemma connFrame_refl [simp, intro]: "connFrame c w w"
  by (simp add: connFrame_def)

lemma connFrame_channel:
  assumes "connFrame c w w'"
  shows "cnChannel (conns w' c) = cnChannel (conns w c)"
proof (rule connIdent_eqD(4))
  show "connIdent (conns w' c) = connIdent (conns w c)" using assms unfolding connFrame_def by blast
qed

lemma connFrame_trans [trans]:
  assumes 1: "connFrame c w w1" and 2: "connFrame c w1 w2"
  shows "connFrame c w w2"
proof -
  have ch: "cnChannel (conns w1 c) = cnChannel (conns w c)" by (rule connFrame_channel [OF 1])
  have "\<forall>c'. c' \<noteq> c \<longrightarrow> conns w2 c' = conns w c'" using 1 2 unfolding connFrame_def by simp
  moreover have "connIdent (conns w2 c) = connIdent (conns w c)"
    by (rule trans [of _ "connIdent (conns w1 c)"]) (use 1 2 in \<open>simp_all only: connFrame_def\<close>)
  moreover have "\<forall>ch. ch \<noteq> cnChannel (conns w c) \<longrightarrow> chans w2 ch = chans w ch"
    using 1 2 ch unfolding connFrame_def by simp
  moreover have "chanIdent (connChan c w2) = chanIdent (connChan c w)"
    by (rule trans [of _ "chanIdent (connChan c w1)"]) (use 1 2 in \<open>simp_all only: connFrame_def\<close>)
  moreover have "connAlive w2 = connAlive w \<and> mem w2 = mem w \<and> (\<forall>L. threadId (loops w2 L) = threadId (loops w L))"
    using 1 2 unfolding connFrame_def by simp
  ultimately show ?thesis unfolding connFrame_def by blast
qed

lemma connFrameD:
  assumes "connFrame c w w'"
  shows "connLoop c w' = connLoop c w" "connFd c w' = connFd c w" "cnChannel (conns w' c) = cnChannel (conns w c)"
    "cnSocket (conns w' c) = cnSocket (conns w c)" "mem w' = mem w" "connAlive w' = connAlive w"
    "isInLoopThread t L w' = isInLoopThread t L w"
    "messageSet (conns w' c) = messageSet (conns w c)" "writeCompleteSet (conns w' c) = writeCompleteSet (conns w c)"
    "connectionSet (conns w' c) = connectionSet (conns w c)" "closeSet (conns w' c) = closeSet (conns w c)"
  using assms connIdent_eqD [of "conns w' c" "conns w c"] chanIdent_eqD [of "connChan c w'" "connChan c w"]
  by (simp_all add: connFrame_def isInLoopThread_def)

lemma connFrame_logCall [intro]: "connFrame c w w1 \<Longrightarrow> connFrame c w (logCall call w1)"
  and connFrame_queue [intro]: "connFrame c w w1 \<Longrightarrow> connFrame c w (queueInLoop t L f w1)"
  and connFrame_shutdown [intro]: "connFrame c w w1 \<Longrightarrow> connFrame c w (shutdownWrite K fd w1)"
  by (simp_all add: connFrame_def connChan_def shutdownWrite_def)

lemma connFrame_setConn [intro]:
  "connFrame c w w1 \<Longrightarrow> connIdent (f (conns w1 c)) = connIdent (conns w1 c) \<Longrightarrow> connFrame c w (setConn c f w1)"
  using connIdent_eqD(4) [of "f (conns w1 c)" "conns w1 c"] by (simp add: connFrame_def connChan_def)

lemma connFrame_interest [intro]: "connFrame c w w1 \<Longrightarrow> connFrame c w (interestWorld op c w1)"
  using connIdent_eqD(4) [of "conns w1 c" "conns w c"]
  by (simp add: connFrame_def interestWorld_def connChan_def chanIdent_def)

section \<open>Sending\<close>

text \<open>The kernel answers a direct write with a connection that the peer has reset.\<close>

definition peerReset :: "kernel \<Rightarrow> nat \<Rightarrow> char list \<Rightarrow> 'a cworld_scheme \<Rightarrow> bool" where
  "peerReset K c data w \<longleftrightarrow> waiting c w = [] \<and>
     (case k_write K (syslog w) (connFd c w) data of (n, err) \<Rightarrow> n \<le> 0 \<and> (err = EPIPE \<or> err = ECONNRESET))"

lemma sendDirect_spec:
  assumes "write_documented K" and "sendDirect K t c data w = (nwrote, fault, w')"
  shows "nwrote \<le> length data" and "written (connFd c w) (syslog w') = written (connFd c w) (syslog w) @ take nwrote data"
    and "conns w' = conns w" and "chans w' = chans w" and "pollers w' = pollers w"
    and "interest L (syslog w') = interest L (syslog w)"
    and "shutdowns fd (syslog w') = shutdowns fd (syslog w)"
    and "fault \<Longrightarrow> nwrote = 0" and "waiting c w = [] \<Longrightarrow> fault = peerReset K c data w"
    and "pendingFunctors (loops w' (connLoop c w)) = pendingFunctors (loops w (connLoop c w)) @
      (if 0 < nwrote \<and> nwrote = length data \<and> writeCompleteSet (conns w c) then [FWriteComplete c] else [])"
    and "connFrame c w w'"
proof -
  obtain n err where wr: "k_write K (syslog w) (connFd c w) data = (n, err)" by fastforce
  note bound = write_documentedD [OF assms(1) wr]
  note r = assms(2) wr bound
  show "nwrote \<le> length data" "written (connFd c w) (syslog w') = written (connFd c w) (syslog w) @ take nwrote data"
    "conns w' = conns w" "chans w' = chans w" "pollers w' = pollers w"
    "interest L (syslog w') = interest L (syslog w)"
    "shutdowns fd (syslog w') = shutdowns fd (syslog w)" "fault \<Longrightarrow> nwrote = 0"
    "waiting c w = [] \<Longrightarrow> fault = peerReset K c data w"
    "pendingFunctors (loops w' (connLoop c w)) = pendingFunctors (loops w (connLoop c w)) @
      (if 0 < nwrote \<and> nwrote = length data \<and> writeCompleteSet (conns w c) then [FWriteComplete c] else [])"
    using r by (auto simp: sendDirect_def sysWrite_def Let_def peerReset_def EWOULDBLOCK_def EPIPE_def ECONNRESET_def
        split: if_splits)
  show "connFrame c w w'"
    using assms(2) wr by (auto simp: sendDirect_def sysWrite_def Let_def split: if_splits)
qed

lemma size_add_small: "a + b \<le> vec_max_size \<Longrightarrow> size_add a b = a + b"
  using vec_max_size_less by (intro size_add_eq) linarith

lemma fits_content: "buf_ok b \<Longrightarrow> fits n b \<Longrightarrow> length (content b) + n \<le> vec_max_size"
  by (auto simp: fits_def buf_ok_def content_def)

text \<open>
  What is known after the second half of \<^verbatim>\<open>sendInLoop\<close>: the rest waits behind what
  waited before, nothing is written, and the notice of the high-water mark is queued
  when the mark is crossed.
\<close>

definition highNotices :: "nat \<Rightarrow> char list \<Rightarrow> 'a cworld_scheme \<Rightarrow> Functor list" where
  "highNotices c left w =
     (if cnHighWaterMark (conns w c) \<le> length left \<and> length (waiting c w) < cnHighWaterMark (conns w c) \<and>
         highWaterMarkSet (conns w c)
      then [FHighWaterMark c (length left)] else [])"

definition restQueued :: "nat \<Rightarrow> char list \<Rightarrow> 'a cworld_scheme \<Rightarrow> 'a cworld_scheme \<Rightarrow> bool" where
  "restQueued c rest w w' \<longleftrightarrow> conn_ok c w' \<and> waiting c w' = waiting c w @ rest \<and>
     connFrame c w w' \<and> connFd c w' = connFd c w \<and> cnState (conns w' c) = cnState (conns w c) \<and>
     cnInput (conns w' c) = cnInput (conns w c) \<and>
     length (bytes (cnOutput (conns w' c))) \<le> length (bytes (cnOutput (conns w c))) + length rest \<and>
     (\<forall>fd. written fd (syslog w') = written fd (syslog w) \<and> shutdowns fd (syslog w') = shutdowns fd (syslog w)) \<and>
     pendingFunctors (loops w' (connLoop c w)) = pendingFunctors (loops w (connLoop c w)) @ highNotices c (waiting c w @ rest) w"

lemma sendRest_queued:
  assumes ok: "conn_wired c w" "buf_ok (cnInput (conns w c))" "buf_ok (cnOutput (conns w c))"
    and K: "ctl_documented K" and fit: "fits (length rest) (cnOutput (conns w c))" and some: "rest \<noteq> []"
  shows "\<exists>w'. sendRest K t c rest w = Inr w' \<and> restQueued c rest w w'"
proof -
  let ?cn = "conns w c"
  let ?high = "cnHighWaterMark ?cn \<le> length (waiting c w @ rest) \<and> length (waiting c w) < cnHighWaterMark ?cn \<and> highWaterMarkSet ?cn"
  let ?w1 = "if ?high then queueInLoop t (cnLoop ?cn) (FHighWaterMark c (length (waiting c w @ rest))) w else w"
  have total: "size_add (length (waiting c w)) (length rest) = length (waiting c w) + length rest"
    using fits_content [OF ok(3) fit] by (simp add: size_add_small)
  obtain b where b: "appendBytes rest (cnOutput ?cn) = Inr b" "buf_ok b" "content b = waiting c w @ rest"
      "length (bytes b) \<le> length (bytes (cnOutput ?cn)) + length rest"
    by (rule appendBytes_fits [OF ok(3) fit])
  let ?w2 = "setConn c (\<lambda>cn. cn\<lparr>cnOutput := b\<rparr>) ?w1"
  have conns1: "conns ?w1 = conns w" and chans1: "chans ?w1 = chans w" and pollers1: "pollers ?w1 = pollers w"
    and int1: "\<And>L. interest L (syslog ?w1) = interest L (syslog w)"
    and log1: "\<And>fd. written fd (syslog ?w1) = written fd (syslog w) \<and> shutdowns fd (syslog ?w1) = shutdowns fd (syslog w)"
    and pend1: "pendingFunctors (loops ?w1 (cnLoop ?cn)) =
      pendingFunctors (loops w (cnLoop ?cn)) @ highNotices c (waiting c w @ rest) w"
    by (simp_all add: highNotices_def)
  have wired2: "conn_wired c ?w2"
    using ok(1) conns1 chans1 pollers1 int1 by (subst conn_wired_cong [of _ w]) simp_all
  have ch2: "cnChannel (conns ?w2 c) = cnChannel ?cn" and chan2: "connChan c ?w2 = connChan c w"
    using conns1 chans1 by (simp_all add: connChan_def)
  let ?w3 = "if \<not> isWriting (connChan c ?w2) then interestWorld EnableWriting c ?w2 else ?w2"
  have "sendRest K t c rest w =
      (if \<not> isWriting (connChan c ?w2) then channelInterest K EnableWriting (cnChannel ?cn) ?w2 else Inr ?w2)"
    using b(1) conns1 by (simp add: sendRest_def Let_def total readableBytes_content [OF ok(3)])
  then have res: "sendRest K t c rest w = Inr ?w3"
    using conn_interest(1) [OF wired2 K, of EnableWriting] ch2 by simp
  have conns3: "conns ?w3 = conns ?w2" and wired3: "conn_wired c ?w3" and writing3: "isWriting (connChan c ?w3)"
    using wired2 conn_interest(2) [OF wired2 K, of EnableWriting] isWriting_interest(1) [of c ?w2] by auto
  have "connFrame c w ?w2" by (intro connFrame_setConn) (auto simp: connIdent_def)
  then have "connFrame c w ?w3" by auto
  moreover have "conn_ok c ?w3" using wired3 writing3 conns3 conns1 ok(2) b some by (simp add: conn_ok_def)
  ultimately have "restQueued c rest w ?w3"
    using conns3 conns1 b(3,4) chan2 log1 pend1 by (simp add: restQueued_def)
  with res show ?thesis by blast
qed

text \<open>
  What \<^verbatim>\<open>sendInLoop\<close> does, as a relation between the worlds before and after: the bytes
  are added to the stream (or dropped, when the peer is gone), and the two notifications
  are queued exactly when they are due.
\<close>

definition sentNotices :: "kernel \<Rightarrow> nat \<Rightarrow> char list \<Rightarrow> 'a cworld_scheme \<Rightarrow> char list \<Rightarrow> Functor list" where
  "sentNotices K c data w left =
     (if waiting c w = [] \<and> left = [] \<and> data \<noteq> [] \<and> \<not> peerReset K c data w \<and> writeCompleteSet (conns w c)
      then [FWriteComplete c] else []) @
     highNotices c left w"

definition sent :: "kernel \<Rightarrow> nat \<Rightarrow> char list \<Rightarrow> 'a cworld_scheme \<Rightarrow> 'a cworld_scheme \<Rightarrow> bool" where
  "sent K c data w w' \<longleftrightarrow> conn_ok c w' \<and>
     written (connFd c w) (syslog w') @ waiting c w' =
       written (connFd c w) (syslog w) @ waiting c w @ (if peerReset K c data w then [] else data) \<and>
     connFrame c w w' \<and> cnState (conns w' c) = cnState (conns w c) \<and>
     cnInput (conns w' c) = cnInput (conns w c) \<and>
     length (bytes (cnOutput (conns w' c))) \<le> length (bytes (cnOutput (conns w c))) + length data \<and>
     (\<forall>fd. shutdowns fd (syslog w') = shutdowns fd (syslog w)) \<and>
     pendingFunctors (loops w' (connLoop c w)) =
       pendingFunctors (loops w (connLoop c w)) @ sentNotices K c data w (waiting c w')"

lemma sendInLoop_busy:
  assumes ok: "conn_ok c w" and st: "cnState (conns w c) \<noteq> KDisconnected" and K: "ctl_documented K"
    and fit: "fits (length data) (cnOutput (conns w c))" and busy: "waiting c w \<noteq> []"
  shows "\<exists>w'. sendInLoop K t c data w = Inr w' \<and> sent K c data w w'"
proof (cases "data = []")
  case True
  with st busy conn_okD [OF ok] have "sendInLoop K t c data w = Inr w"
    by (simp add: sendInLoop_def readableBytes_content)
  with True ok busy show ?thesis by (simp add: sent_def sentNotices_def highNotices_def)
next
  case False
  from sendRest_queued [OF conn_okD(1-3) [OF ok] K fit False]
  obtain w' where w': "sendRest K t c data w = Inr w'" "restQueued c data w w'" by blast
  from st busy conn_okD(3,4) [OF ok] False have "sendInLoop K t c data w = sendRest K t c data w"
    by (simp add: sendInLoop_def readableBytes_content)
  with w' busy show ?thesis by (simp add: sent_def sentNotices_def peerReset_def restQueued_def)
qed

lemma sendInLoop_idle:
  assumes ok: "conn_ok c w" and st: "cnState (conns w c) \<noteq> KDisconnected" and K: "ctl_documented K"
    and W: "write_documented K" and fit: "fits (length data) (cnOutput (conns w c))" and idle: "waiting c w = []"
  shows "\<exists>w'. sendInLoop K t c data w = Inr w' \<and> sent K c data w w'"
proof -
  obtain nwrote fault w1 where d: "sendDirect K t c data w = (nwrote, fault, w1)"
    by (cases "sendDirect K t c data w") blast
  note spec = sendDirect_spec [OF W d]
  have run: "sendInLoop K t c data w =
      (if \<not> fault \<and> 0 < length data - nwrote then sendRest K t c (drop nwrote data) w1 else Inr w1)"
    using st idle d conn_okD(3,4) [OF ok] by (simp add: sendInLoop_def readableBytes_content)
  have wired1: "conn_wired c w1" using conn_okD(1) [OF ok] spec
    by (subst conn_wired_cong [of w1 w]) simp_all
  have chan1: "connChan c w1 = connChan c w" using spec by (simp add: connChan_def)
  have ok1: "conn_ok c w1" using ok wired1 chan1 spec by (simp add: conn_ok_def)
  show ?thesis
  proof (cases "\<not> fault \<and> 0 < length data - nwrote")
    case False
    with spec(1,8,9) idle have all: "take nwrote data = (if peerReset K c data w then [] else data)" by auto
    from False spec(1) have full: "(0 < nwrote \<and> nwrote = length data) = (data \<noteq> [] \<and> \<not> peerReset K c data w)"
      using spec(8,9) idle by auto
    have "pendingFunctors (loops w1 (connLoop c w)) =
        pendingFunctors (loops w (connLoop c w)) @ sentNotices K c data w (waiting c w1)"
      using spec(3,10) full idle by (auto simp: sentNotices_def highNotices_def)
    then have "sent K c data w w1"
      using ok1 chan1 spec(2,3,7,11) idle all by (simp add: sent_def)
    moreover from False run have "sendInLoop K t c data w = Inr w1" by argo
    ultimately show ?thesis by blast
  next
    case True
    then have some: "drop nwrote data \<noteq> []" and noreset: "\<not> peerReset K c data w" using spec(9) idle by auto
    have fit1: "fits (length (drop nwrote data)) (cnOutput (conns w1 c))"
      using fit spec(3) by (simp add: fits_def)
    from sendRest_queued [OF conn_okD(1-3) [OF ok1] K fit1 some]
    obtain w' where w': "sendRest K t c (drop nwrote data) w1 = Inr w'" "restQueued c (drop nwrote data) w1 w'" by blast
    note q = w'(2) [unfolded restQueued_def]
    have "sentNotices K c data w (waiting c w') = highNotices c (waiting c w1 @ drop nwrote data) w1"
      using q spec(3) idle some by (auto simp: sentNotices_def highNotices_def)
    then have "sent K c data w w'"
      using q connFrame_trans [OF spec(11)] chan1 spec(2,3,7,10) idle noreset True by (auto simp: sent_def)
    moreover from True run w'(1) have "sendInLoop K t c data w = Inr w'" by simp
    ultimately show ?thesis by blast
  qed
qed

lemma sendInLoop_sent:
  assumes "conn_ok c w" and "cnState (conns w c) \<noteq> KDisconnected" and "ctl_documented K"
    and "write_documented K" and "fits (length data) (cnOutput (conns w c))"
  shows "\<exists>w'. sendInLoop K t c data w = Inr w' \<and> sent K c data w w'"
  using sendInLoop_busy [OF assms(1-3,5)] sendInLoop_idle [OF assms] by blast

section \<open>Draining the output buffer\<close>

definition wrote :: "nat \<Rightarrow> nat \<Rightarrow> 'a cworld_scheme \<Rightarrow> 'a cworld_scheme \<Rightarrow> bool" where
  "wrote n c w w' \<longleftrightarrow> conn_ok c w' \<and> waiting c w' = drop n (waiting c w) \<and>
     written (connFd c w) (syslog w') = written (connFd c w) (syslog w) @ take n (waiting c w) \<and>
     connFrame c w w' \<and> cnState (conns w' c) = cnState (conns w c) \<and> cnInput (conns w' c) = cnInput (conns w c) \<and>
     length (bytes (cnOutput (conns w' c))) = length (bytes (cnOutput (conns w c))) \<and>
     (\<forall>fd. shutdowns fd (syslog w') = shutdowns fd (syslog w) +
       (if fd = connFd c w \<and> waiting c w \<noteq> [] \<and> waiting c w' = [] \<and> cnState (conns w c) = KDisconnecting then 1 else 0)) \<and>
     pendingFunctors (loops w' (connLoop c w)) = pendingFunctors (loops w (connLoop c w)) @
       (if waiting c w \<noteq> [] \<and> waiting c w' = [] \<and> writeCompleteSet (conns w c) then [FWriteComplete c] else [])"

lemma conn_ok_setOutput:
  assumes "conn_wired c w" and "buf_ok (cnInput (conns w c))" and "buf_ok b"
    and "isWriting (connChan c w) = (content b \<noteq> [])"
  shows "conn_ok c (setConn c (\<lambda>cn. cn\<lparr>cnOutput := b\<rparr>) w)"
proof -
  have "conn_wired c (setConn c (\<lambda>cn. cn\<lparr>cnOutput := b\<rparr>) w)"
    using assms(1) by (subst conn_wired_cong [of _ w]) simp_all
  moreover have "connChan c (setConn c (\<lambda>cn. cn\<lparr>cnOutput := b\<rparr>) w) = connChan c w"
    by (simp add: connChan_def)
  ultimately show ?thesis using assms by (simp add: conn_ok_def)
qed

text \<open>The branch of \<^verbatim>\<open>handleWrite\<close> in which the buffer is now empty.\<close>

definition finishWrite :: "kernel \<Rightarrow> nat \<Rightarrow> nat \<Rightarrow> 'a cworld_scheme \<Rightarrow> 'a cworld_scheme" where
  "finishWrite K t c w =
     (let w = interestWorld DisableWriting c w;
          w = (if writeCompleteSet (conns w c) then queueInLoop t (cnLoop (conns w c)) (FWriteComplete c) w else w)
      in if cnState (conns w c) = KDisconnecting then shutdownInLoop K c w else w)"

lemma finishWrite_wrote:
  assumes wired: "conn_wired c w" and bufs: "buf_ok (cnInput (conns w c))" "buf_ok (cnOutput (conns w c))"
    and empty: "waiting c w = []"
  shows "conn_ok c (finishWrite K t c w)" "conns (finishWrite K t c w) = conns w"
    "written fd (syslog (finishWrite K t c w)) = written fd (syslog w)" "connFrame c w (finishWrite K t c w)"
    "shutdowns fd (syslog (finishWrite K t c w)) = shutdowns fd (syslog w) +
       (if fd = connFd c w \<and> cnState (conns w c) = KDisconnecting then 1 else 0)"
    "pendingFunctors (loops (finishWrite K t c w) (connLoop c w)) = pendingFunctors (loops w (connLoop c w)) @
       (if writeCompleteSet (conns w c) then [FWriteComplete c] else [])"
proof -
  let ?w1 = "interestWorld DisableWriting c w"
  let ?w2 = "if writeCompleteSet (conns ?w1 c) then queueInLoop t (cnLoop (conns ?w1 c)) (FWriteComplete c) ?w1 else ?w1"
  have wired1: "conn_wired c ?w1"
    using conn_interest(2) [OF wired sampleKernel_documented(1)] .
  have chan2: "connChan c ?w2 = connChan c ?w1" by (simp add: connChan_def)
  have wired2: "conn_wired c ?w2" using wired1 by (subst conn_wired_cong [of ?w2 ?w1]) simp_all
  have off: "\<not> isWriting (connChan c ?w2)" using chan2 isWriting_interest(2) [of c w] by simp
  have sock: "cnSocket (conns w c) = connFd c w" using wired by (simp add: conn_wired_def)
  have fin: "finishWrite K t c w =
      (if cnState (conns w c) = KDisconnecting then shutdownWrite K (connFd c w) ?w2 else ?w2)"
    using off sock by (simp add: finishWrite_def shutdownInLoop_def Let_def)
  have wired3: "conn_wired c (finishWrite K t c w)"
    unfolding fin using wired2 by (subst conn_wired_cong [of _ ?w2]) (simp_all add: shutdownWrite_def)
  show conns: "conns (finishWrite K t c w) = conns w" by (simp add: fin shutdownWrite_def)
  have "\<not> isWriting (connChan c (finishWrite K t c w))"
    unfolding fin using off by (simp add: shutdownWrite_def connChan_def)
  then show "conn_ok c (finishWrite K t c w)"
    using wired3 conns bufs empty by (simp add: conn_ok_def)
  show "written fd (syslog (finishWrite K t c w)) = written fd (syslog w)"
    and "shutdowns fd (syslog (finishWrite K t c w)) = shutdowns fd (syslog w) +
       (if fd = connFd c w \<and> cnState (conns w c) = KDisconnecting then 1 else 0)"
    and "pendingFunctors (loops (finishWrite K t c w) (connLoop c w)) = pendingFunctors (loops w (connLoop c w)) @
       (if writeCompleteSet (conns w c) then [FWriteComplete c] else [])"
    by (simp_all add: fin shutdownWrite_def)
  show "connFrame c w (finishWrite K t c w)" unfolding fin by auto
qed

lemma handleWrite_wrote:
  assumes ok: "conn_ok c w" and st: "cnState (conns w c) \<noteq> KDisconnected" and K: "ctl_documented K" and W: "write_documented K"
  shows "handleWrite K t c w =
    Inr (if waiting c w = [] then w
         else let (n, err) = k_write K (syslog w) (connFd c w) (waiting c w);
                  w1 = logCall (SysWrite (connFd c w) (waiting c w) n err) w;
                  w2 = setConn c (\<lambda>cn. cn\<lparr>cnOutput := retrieve (nat n) (cnOutput cn)\<rparr>) w1
              in if n \<le> 0 then w1 else if nat n < length (waiting c w) then w2 else finishWrite K t c w2)"
proof (cases "waiting c w = []")
  case True
  with ok st show ?thesis by (simp add: handleWrite_def conn_ok_def)
next
  case False
  note bo = conn_okD(3) [OF ok]
  obtain n err where wr: "k_write K (syslog w) (connFd c w) (waiting c w) = (n, err)" by fastforce
  let ?w1 = "logCall (SysWrite (connFd c w) (waiting c w) n err) w"
  let ?w2 = "setConn c (\<lambda>cn. cn\<lparr>cnOutput := retrieve (nat n) (cnOutput cn)\<rparr>) ?w1"
  have wf: "writeFd (sysWrite K (connFd c w)) (cnOutput (conns w c)) w = Inr ((n, if n < 0 then Some err else None), ?w1)"
    by (rule writeFd_content [OF bo]) (simp add: sysWrite_def wr)
  have wired2: "conn_wired c ?w2" using conn_okD(1) [OF ok] by (subst conn_wired_cong [of _ w]) simp_all
  have left: "readableBytes (retrieve (nat n) (cnOutput (conns w c))) = 0 \<longleftrightarrow> length (waiting c w) \<le> nat n"
    using bo by (simp add: readableBytes_content retrieve_ok retrieve_content)
  from conn_interest(1) [OF wired2 K, of DisableWriting]
  have dis: "channelInterest K DisableWriting (cnChannel (conns w c)) ?w2 = Inr (interestWorld DisableWriting c ?w2)" by simp
  have on: "isWriting (connChan c w)" using conn_okD(4) [OF ok st] False by simp
  show ?thesis
  proof (cases "0 < n")
    case False
    with wf on \<open>waiting c w \<noteq> []\<close> wr show ?thesis by (simp add: handleWrite_def Let_def)
  next
    case pos: True
    show ?thesis
    proof (cases "nat n < length (waiting c w)")
      case True
      with pos wf on \<open>waiting c w \<noteq> []\<close> wr left show ?thesis by (simp add: handleWrite_def Let_def)
    next
      case full: False
      have "handleWrite K t c w = Inr (finishWrite K t c ?w2)"
        using pos full wf on left dis by (simp add: handleWrite_def Let_def finishWrite_def)
      with pos full \<open>waiting c w \<noteq> []\<close> wr show ?thesis by (simp add: Let_def)
    qed
  qed
qed

lemma handleWrite_progress:
  assumes ok: "conn_ok c w" and st: "cnState (conns w c) \<noteq> KDisconnected" and K: "ctl_documented K" and W: "write_documented K"
  shows "\<exists>w'. handleWrite K t c w = Inr w' \<and>
    wrote (if waiting c w = [] then 0 else nat (fst (k_write K (syslog w) (connFd c w) (waiting c w)))) c w w'"
proof (cases "waiting c w = []")
  case True
  then show ?thesis using handleWrite_wrote [OF assms, of t] ok by (simp add: wrote_def)
next
  case False
  note bo = conn_okD(3) [OF ok]
  obtain n err where wr: "k_write K (syslog w) (connFd c w) (waiting c w) = (n, err)" by fastforce
  let ?w1 = "logCall (SysWrite (connFd c w) (waiting c w) n err) w"
  let ?b = "retrieve (nat n) (cnOutput (conns w c))"
  let ?w2 = "setConn c (\<lambda>cn. cn\<lparr>cnOutput := retrieve (nat n) (cnOutput cn)\<rparr>) ?w1"
  have b: "buf_ok ?b" "content ?b = drop (nat n) (waiting c w)" "length (bytes ?b) = length (bytes (cnOutput (conns w c)))"
    using bo by (simp_all add: retrieve_ok retrieve_content) (simp add: retrieve_def retrieveAll_def)
  have le: "nat n \<le> length (waiting c w)" using write_documentedD [OF W wr] by simp
  have on: "isWriting (connChan c w)" using conn_okD(4) [OF ok st] False by simp
  have wired1: "conn_wired c ?w1" using conn_okD(1) [OF ok] by (subst conn_wired_cong [of _ w]) simp_all
  have chan1: "connChan c ?w1 = connChan c w" "connChan c ?w2 = connChan c w" by (simp_all add: connChan_def)
  have wr2: "written (connFd c w) (syslog ?w2) = written (connFd c w) (syslog w) @ take (nat n) (waiting c w)" by simp
  have fr2: "connFrame c w ?w2" by (intro connFrame_setConn connFrame_logCall) (simp_all add: connIdent_def)
  note step = handleWrite_wrote [OF assms, of t]
  consider "n \<le> 0" | "0 < n" "nat n < length (waiting c w)" | "0 < n" "nat n = length (waiting c w)" using le by linarith
  then show ?thesis
  proof cases
    case 1
    have "conn_ok c ?w1" using ok wired1 chan1 by (simp add: conn_ok_def)
    with 1 False wr step show ?thesis by (auto simp: wrote_def)
  next
    case 2
    have "conn_ok c ?w2"
      using conn_ok_setOutput [OF wired1 _ b(1)] conn_okD(2) [OF ok] on b(2) 2 chan1 by (simp add: setConn_def)
    with 2 False wr step wr2 b fr2 show ?thesis by (simp add: wrote_def)
  next
    case 3
    have wired2: "conn_wired c ?w2" using wired1 by (subst conn_wired_cong [of _ ?w1]) simp_all
    have "waiting c ?w2 = []" using b(2) 3 by simp
    with wired2 conn_okD(2) [OF ok] b(1) have f: "conn_wired c ?w2" "buf_ok (cnInput (conns ?w2 c))"
      "buf_ok (cnOutput (conns ?w2 c))" "waiting c ?w2 = []" by simp_all
    note fin = finishWrite_wrote [OF f, where K = K and t = t]
    have "wrote (nat n) c w (finishWrite K t c ?w2)"
      using fin(1,2,3,5,6) connFrame_trans [OF fr2 fin(4)] wr2 b 3 False chan1 by (simp add: wrote_def)
    with 3 False wr step show ?thesis by (simp add: Let_def)
  qed
qed

section \<open>A session of sends, writable events and a shutdown\<close>

text \<open>
  What the application and the poller do to a connection, in the loop's thread, once it is
  up: \<^verbatim>\<open>send\<close> of the string at an address, \<^verbatim>\<open>shutdown\<close>, and a writable event.
\<close>

datatype connop = OpSend nat | OpShutdown | OpWritable

fun connStep :: "kernel \<Rightarrow> nat \<Rightarrow> nat \<Rightarrow> connop \<Rightarrow> 'a cworld_scheme \<Rightarrow> fault + 'a cworld_scheme" where
  "connStep K t c (OpSend p) w = connSend K t c p w"
| "connStep K t c OpShutdown w = connShutdown K t c w"
| "connStep K t c OpWritable w = handleWrite K t c w"

text \<open>The bytes the specification accepts: those of the sends before the first shutdown.\<close>

fun accepted :: "(nat \<Rightarrow> char list option) \<Rightarrow> stateE \<Rightarrow> connop list \<Rightarrow> char list" where
  "accepted m st [] = []"
| "accepted m st (OpSend p # ops) =
     (if st = KConnected then (case m p of None \<Rightarrow> [] | Some s \<Rightarrow> s) else []) @ accepted m st ops"
| "accepted m st (OpShutdown # ops) = accepted m (if st = KConnected then KDisconnecting else st) ops"
| "accepted m st (OpWritable # ops) = accepted m st ops"

fun stateAfter :: "stateE \<Rightarrow> connop list \<Rightarrow> stateE" where
  "stateAfter st [] = st"
| "stateAfter st (OpShutdown # ops) = stateAfter (if st = KConnected then KDisconnecting else st) ops"
| "stateAfter st (_ # ops) = stateAfter st ops"

definition peer_stays :: "kernel \<Rightarrow> bool" where
  "peer_stays K \<longleftrightarrow> (\<forall>log fd data. case k_write K log fd data of (n, err) \<Rightarrow> n \<le> 0 \<longrightarrow> err \<noteq> EPIPE \<and> err \<noteq> ECONNRESET)"

lemma peer_staysD: "peer_stays K \<Longrightarrow> \<not> peerReset K c data w"
  unfolding peer_stays_def peerReset_def by (auto split: prod.splits)

text \<open>The write side is shut down once the last accepted byte is written, and not before.\<close>

definition closing_ok :: "nat \<Rightarrow> 'a cworld_scheme \<Rightarrow> bool" where
  "closing_ok c w \<longleftrightarrow> (cnState (conns w c) = KConnected \<or> cnState (conns w c) = KDisconnecting) \<and>
     shutdowns (connFd c w) (syslog w) = (if cnState (conns w c) = KDisconnecting \<and> waiting c w = [] then 1 else 0)"

definition session_ok :: "nat \<Rightarrow> nat \<Rightarrow> 'a cworld_scheme \<Rightarrow> bool" where
  "session_ok t c w \<longleftrightarrow> conn_ok c w \<and> closing_ok c w \<and> isInLoopThread t (connLoop c w) w"

lemma session_okD:
  assumes "session_ok t c w"
  shows "conn_ok c w" "closing_ok c w" "isInLoopThread t (connLoop c w) w" "cnState (conns w c) \<noteq> KDisconnected"
  using assms by (auto simp: session_ok_def closing_ok_def)

lemma connSend_inLoop:
  assumes "cnState (conns w c) = KConnected" and "isInLoopThread t (connLoop c w) w" and "mem w p = Some data"
  shows "connSend K t c p w = sendInLoop K t c data w"
  using assms by (simp add: connSend_def sendFrom_def readMem_def)

lemma connSend_closed: "cnState (conns w c) \<noteq> KConnected \<Longrightarrow> connSend K t c p w = Inr w"
  by (simp add: connSend_def)

lemma connShutdown_inLoop:
  assumes ok: "session_ok t c w" and st: "cnState (conns w c) = KConnected"
  shows "\<exists>w'. connShutdown K t c w = Inr w' \<and> session_ok t c w' \<and> cnState (conns w' c) = KDisconnecting \<and>
    connFrame c w w' \<and> cnOutput (conns w' c) = cnOutput (conns w c) \<and> cnInput (conns w' c) = cnInput (conns w c) \<and>
    (\<forall>fd. written fd (syslog w') = written fd (syslog w))"
proof -
  note D = session_okD [OF ok]
  let ?w1 = "setState c KDisconnecting w"
  let ?w2 = "shutdownInLoop K c ?w1"
  have chan1: "connChan c ?w1 = connChan c w" by (simp add: connChan_def)
  have run: "connShutdown K t c w = Inr ?w2"
    using st D(3) by (simp add: connShutdown_def runInLoop_def isInLoopThread_def)
  have sock: "cnSocket (conns w c) = connFd c w" using conn_okD(1) [OF D(1)] by (simp add: conn_wired_def)
  have shut: "?w2 = (if waiting c w = [] then shutdownWrite K (connFd c w) ?w1 else ?w1)"
    using conn_okD(4) [OF D(1,4)] chan1 sock by (simp add: shutdownInLoop_def)
  have wired: "conn_wired c ?w2"
    unfolding shut using conn_okD(1) [OF D(1)] by (subst conn_wired_cong [of _ w]) (simp_all add: shutdownWrite_def)
  have chan2: "connChan c ?w2 = connChan c w" unfolding shut by (simp add: shutdownWrite_def connChan_def)
  have conns2: "conns ?w2 c = (conns w c)\<lparr>cnState := KDisconnecting\<rparr>" unfolding shut by (simp add: shutdownWrite_def)
  have "connFrame c w ?w1"
    unfolding setState_def by (rule connFrame_setConn) (simp_all add: connIdent_def)
  then have frame: "connFrame c w ?w2" unfolding shut by auto
  have ok2: "conn_ok c ?w2"
    using wired chan2 conns2 D(1,4) by (simp add: conn_ok_def)
  have "shutdowns (connFd c w) (syslog ?w2) = (if waiting c w = [] then 1 else 0)"
    unfolding shut using D(2) st by (simp add: shutdownWrite_def closing_ok_def)
  then have "closing_ok c ?w2" using chan2 conns2 by (simp add: closing_ok_def)
  moreover have "written fd (syslog ?w2) = written fd (syslog w)" for fd
    unfolding shut by (simp add: shutdownWrite_def)
  ultimately show ?thesis
    using run ok2 conns2 frame connFrameD(1,7) [OF frame] D(3) by (simp add: session_ok_def)
qed

lemma sent_session:
  assumes ok: "session_ok t c w" and s: "sent K c data w w'" and reset: "\<not> peerReset K c data w"
    and st: "cnState (conns w c) = KConnected"
  shows "session_ok t c w'"
proof -
  from s have f: "connFrame c w w'" by (simp add: sent_def)
  from s ok st show ?thesis
    using connFrameD(1,2,7) [OF f] by (simp add: session_ok_def closing_ok_def sent_def)
qed

lemma wrote_session:
  assumes ok: "session_ok t c w" and s: "wrote n c w w'"
  shows "session_ok t c w'"
proof -
  from s have f: "connFrame c w w'" by (simp add: wrote_def)
  have "waiting c w = [] \<Longrightarrow> waiting c w' = []" using s by (simp add: wrote_def)
  with s ok show ?thesis
    using connFrameD(1,2,7) [OF f] by (auto simp: session_ok_def closing_ok_def wrote_def)
qed

lemma connStep_session:
  assumes ok: "session_ok t c w" and K: "ctl_documented K" "write_documented K" "peer_stays K"
    and here: "\<forall>p. op = OpSend p \<longrightarrow> mem w p \<noteq> None"
    and fit: "fits (length (accepted (mem w) (cnState (conns w c)) [op])) (cnOutput (conns w c))"
  shows "\<exists>w'. connStep K t c op w = Inr w' \<and> session_ok t c w' \<and> connFrame c w w' \<and>
    cnState (conns w' c) = stateAfter (cnState (conns w c)) [op] \<and>
    written (connFd c w) (syslog w') @ waiting c w' =
      written (connFd c w) (syslog w) @ waiting c w @ accepted (mem w) (cnState (conns w c)) [op] \<and>
    length (bytes (cnOutput (conns w' c))) \<le>
      length (bytes (cnOutput (conns w c))) + length (accepted (mem w) (cnState (conns w c)) [op])"
proof -
  note D = session_okD [OF ok]
  show ?thesis
  proof (cases op)
    case (OpSend p)
    show ?thesis
    proof (cases "cnState (conns w c) = KConnected")
      case True
      from here OpSend obtain data where m: "mem w p = Some data" by blast
      from fit OpSend True m have fit': "fits (length data) (cnOutput (conns w c))" by simp
      from sendInLoop_sent [OF D(1,4) K(1,2) fit'] obtain w' where
        w': "sendInLoop K t c data w = Inr w'" "sent K c data w w'" by blast
      have "session_ok t c w'" by (rule sent_session [OF ok w'(2) peer_staysD [OF K(3)] True])
      with w' OpSend True m connSend_inLoop [OF True D(3) m] peer_staysD [OF K(3)] show ?thesis
        by (auto simp: sent_def)
    next
      case False
      with OpSend connSend_closed [OF False] ok show ?thesis by simp
    qed
  next
    case OpShutdown
    show ?thesis
    proof (cases "cnState (conns w c) = KConnected")
      case True
      from connShutdown_inLoop [OF ok True, of K] obtain w' where "connShutdown K t c w = Inr w'" "session_ok t c w'"
        "cnState (conns w' c) = KDisconnecting" "connFrame c w w'" "cnOutput (conns w' c) = cnOutput (conns w c)"
        "\<forall>fd. written fd (syslog w') = written fd (syslog w)" by blast
      with OpShutdown True show ?thesis by simp
    next
      case False
      with OpShutdown ok show ?thesis by (simp add: connShutdown_def)
    qed
  next
    case OpWritable
    from handleWrite_progress [OF D(1,4) K(1,2)] obtain w' n where
      w': "handleWrite K t c w = Inr w'" "wrote n c w w'" by blast
    have "session_ok t c w'" by (rule wrote_session [OF ok w'(2)])
    with w' OpWritable show ?thesis by (auto simp: wrote_def)
  qed
qed

lemma accepted_Cons:
  "accepted m st (op # ops) = accepted m st [op] @ accepted m (stateAfter st [op]) ops"
  "stateAfter st (op # ops) = stateAfter (stateAfter st [op]) ops"
  by (cases op; simp)+

lemma session_run:
  "session_ok t c w \<Longrightarrow> ctl_documented K \<Longrightarrow> write_documented K \<Longrightarrow> peer_stays K \<Longrightarrow>
   \<forall>p. OpSend p \<in> set ops \<longrightarrow> mem w p \<noteq> None \<Longrightarrow>
   fits (length (accepted (mem w) (cnState (conns w c)) ops)) (cnOutput (conns w c)) \<Longrightarrow>
   \<exists>w'. runAll (connStep K t c) ops w = Inr w' \<and> session_ok t c w' \<and> connFrame c w w' \<and>
     cnState (conns w' c) = stateAfter (cnState (conns w c)) ops \<and>
     written (connFd c w) (syslog w') @ waiting c w' =
       written (connFd c w) (syslog w) @ waiting c w @ accepted (mem w) (cnState (conns w c)) ops"
proof (induction ops arbitrary: w)
  case Nil
  then show ?case by simp
next
  case (Cons op ops)
  let ?st = "cnState (conns w c)"
  have "fits (length (accepted (mem w) ?st [op])) (cnOutput (conns w c))"
    using Cons.prems(6) accepted_Cons(1) [of "mem w" ?st op ops] by (auto simp: fits_def)
  from connStep_session [OF Cons.prems(1-4) _ this] Cons.prems(5) obtain w1 where
    w1: "connStep K t c op w = Inr w1" "session_ok t c w1" "connFrame c w w1"
      "cnState (conns w1 c) = stateAfter ?st [op]"
      "written (connFd c w) (syslog w1) @ waiting c w1 =
        written (connFd c w) (syslog w) @ waiting c w @ accepted (mem w) ?st [op]"
      "length (bytes (cnOutput (conns w1 c))) \<le> length (bytes (cnOutput (conns w c))) + length (accepted (mem w) ?st [op])"
    by auto
  note same = connFrameD(2,5) [OF w1(3)]
  have "\<forall>p. OpSend p \<in> set ops \<longrightarrow> mem w1 p \<noteq> None" using Cons.prems(5) same by simp
  moreover have "fits (length (accepted (mem w1) (cnState (conns w1 c)) ops)) (cnOutput (conns w1 c))"
    using Cons.prems(6) w1(4,6) same accepted_Cons(1) [of "mem w" ?st op ops] by (auto simp: fits_def)
  ultimately obtain w' where w': "runAll (connStep K t c) ops w1 = Inr w'" "session_ok t c w'" "connFrame c w1 w'"
      "cnState (conns w' c) = stateAfter (cnState (conns w1 c)) ops"
      "written (connFd c w1) (syslog w') @ waiting c w' =
        written (connFd c w1) (syslog w1) @ waiting c w1 @ accepted (mem w1) (cnState (conns w1 c)) ops"
    using Cons.IH [OF w1(2) Cons.prems(2-4)] by blast
  have "written (connFd c w) (syslog w') @ waiting c w' =
      (written (connFd c w) (syslog w1) @ waiting c w1) @ accepted (mem w) (stateAfter ?st [op]) ops"
    using w'(5) w1(4) same by simp
  then have "written (connFd c w) (syslog w') @ waiting c w' =
      written (connFd c w) (syslog w) @ waiting c w @ accepted (mem w) ?st (op # ops)"
    unfolding w1(5) accepted_Cons(1) [of "mem w" ?st op ops] by simp
  with w1 w' connFrame_trans [OF w1(3) w'(3)] accepted_Cons(2) [of ?st op ops] show ?case by auto
qed

text \<open>A kernel that takes at least a byte each time empties the buffer.\<close>

definition makes_progress :: "kernel \<Rightarrow> bool" where
  "makes_progress K \<longleftrightarrow> (\<forall>log fd data. data \<noteq> [] \<longrightarrow> 0 < fst (k_write K log fd data))"

lemma drain_run:
  "session_ok t c w \<Longrightarrow> ctl_documented K \<Longrightarrow> write_documented K \<Longrightarrow> makes_progress K \<Longrightarrow> length (waiting c w) \<le> n \<Longrightarrow>
   \<exists>w'. runAll (connStep K t c) (replicate n OpWritable) w = Inr w' \<and> session_ok t c w' \<and> waiting c w' = [] \<and>
     cnState (conns w' c) = cnState (conns w c) \<and> connFd c w' = connFd c w \<and>
     written (connFd c w) (syslog w') = written (connFd c w) (syslog w) @ waiting c w"
proof (induction n arbitrary: w)
  case 0
  then show ?case by simp
next
  case (Suc n)
  note D = session_okD [OF Suc.prems(1)]
  let ?k = "if waiting c w = [] then 0 else nat (fst (k_write K (syslog w) (connFd c w) (waiting c w)))"
  from handleWrite_progress [OF D(1,4) Suc.prems(2,3)] obtain w1 where
    w1: "handleWrite K t c w = Inr w1" "wrote ?k c w w1" by blast
  from Suc.prems(4) have "waiting c w \<noteq> [] \<Longrightarrow> 0 < ?k" by (simp add: makes_progress_def)
  then have "length (drop ?k (waiting c w)) \<le> n" using Suc.prems(5) by (cases "waiting c w = []") auto
  then have le: "length (waiting c w1) \<le> n" using w1(2) by (simp add: wrote_def)
  have ok1: "session_ok t c w1" by (rule wrote_session [OF Suc.prems(1) w1(2)])
  from w1(2) have "connFrame c w w1" by (simp add: wrote_def)
  note fd1 = connFrameD(2) [OF this]
  have split: "written (connFd c w) (syslog w1) @ waiting c w1 = written (connFd c w) (syslog w) @ waiting c w"
    using w1(2) by (simp add: wrote_def)
  from Suc.IH [OF ok1 Suc.prems(2-4) le] obtain w' where
    w': "runAll (connStep K t c) (replicate n OpWritable) w1 = Inr w'" "session_ok t c w'" "waiting c w' = []"
      "cnState (conns w' c) = cnState (conns w1 c)" "connFd c w' = connFd c w1"
      "written (connFd c w1) (syslog w') = written (connFd c w1) (syslog w1) @ waiting c w1" by blast
  with w1 fd1 split show ?case by (simp add: wrote_def)
qed

section \<open>Receiving\<close>

lemma handleRead_delivered:
  assumes ok: "conn_ok c w"
    and fit: "\<forall>got. k_readv K (syslog w) (connFd c w) (readvRoom (cnInput (conns w c))) = Inr got \<longrightarrow>
      fits (length got) (cnInput (conns w c))"
  shows "\<exists>w1. conn_ok c w1 \<and> connFrame c w w1 \<and> cnState (conns w1 c) = cnState (conns w c) \<and>
    cnOutput (conns w1 c) = cnOutput (conns w c) \<and>
    (\<forall>fd. written fd (syslog w1) = written fd (syslog w) \<and> shutdowns fd (syslog w1) = shutdowns fd (syslog w)) \<and>
    (case k_readv K (syslog w) (connFd c w) (readvRoom (cnInput (conns w c))) of
       Inl err \<Rightarrow> unread c w1 = unread c w \<and> handleRead K U t c w = Inr (handleError c w1)
     | Inr got \<Rightarrow> unread c w1 = unread c w @ got \<and>
         delivered (connFd c w) (syslog w1) = delivered (connFd c w) (syslog w) @ got \<and>
         handleRead K U t c w =
           (if got = [] then handleClose K U t c w1 else callSet (messageSet (conns w c)) (onMessage U t c) w1))"
proof -
  note bi = conn_okD(2) [OF ok]
  let ?r = "k_readv K (syslog w) (connFd c w) (readvRoom (cnInput (conns w c)))"
  let ?w0 = "logCall (SysReadv (connFd c w) ?r) w"
  have rv: "sysReadv K (connFd c w) (readvRoom (cnInput (conns w c))) w = (?r, ?w0)" by (simp add: sysReadv_def Let_def)
  have wired: "conn_wired c (setConn c (\<lambda>cn. cn\<lparr>cnInput := b\<rparr>) ?w0)" for b
    using conn_okD(1) [OF ok] by (subst conn_wired_cong [of _ w]) (auto split: sum.splits)
  have frame: "connFrame c w (setConn c (\<lambda>cn. cn\<lparr>cnInput := b\<rparr>) ?w0)" for b
    by (intro connFrame_setConn connFrame_logCall) (simp_all add: connIdent_def)
  have ok1: "conn_ok c (setConn c (\<lambda>cn. cn\<lparr>cnInput := b\<rparr>) ?w0)" if "buf_ok b" for b
    using wired [of b] that ok by (simp add: conn_ok_def connChan_def)
  show ?thesis
  proof (cases ?r)
    case (Inl err)
    with rv have "readFd (sysReadv K (connFd c w)) (cnInput (conns w c)) w = Inr (Inl err, cnInput (conns w c), ?w0)"
      by (intro readFd_error) simp
    with Inl ok1 [OF bi] frame [of "cnInput (conns w c)"] show ?thesis
      by (intro exI [of _ "setConn c (\<lambda>cn. cn\<lparr>cnInput := cnInput (conns w c)\<rparr>) ?w0"]) (simp add: handleRead_def)
  next
    case (Inr got)
    with rv fit have "sysReadv K (connFd c w) (readvRoom (cnInput (conns w c))) w = (Inr got, ?w0)"
      and "fits (length got) (cnInput (conns w c))" by auto
    then obtain b where b: "readFd (sysReadv K (connFd c w)) (cnInput (conns w c)) w = Inr (Inr (length got), b, ?w0)"
        "buf_ok b" "content b = unread c w @ got"
      by (rule readFd_content [OF bi]) blast
    with Inr ok1 [OF b(2)] frame [of b] show ?thesis
      by (intro exI [of _ "setConn c (\<lambda>cn. cn\<lparr>cnInput := b\<rparr>) ?w0"]) (simp add: handleRead_def)
  qed
qed

section \<open>An example\<close>

text \<open>
  Loop 0 of thread 1, and a connection with number 5 that is up, on descriptor 3 (channel 3).
\<close>

definition sampleConn :: tcpconn where
  "sampleConn = \<lparr>cnLoop = 0, cnName = ''c5'', cnState = KConnected, cnReading = True, cnSocket = 3, cnChannel = 3,
     cnLocalAddr = \<lparr>sin_addr = (127, 0, 0, 1), sin_port = 0\<rparr>, cnPeerAddr = \<lparr>sin_addr = (127, 0, 0, 1), sin_port = 0\<rparr>,
     connectionSet = True, messageSet = True, writeCompleteSet = True, highWaterMarkSet = True, closeSet = True,
     cnHighWaterMark = 6, cnInput = sampleBuffer,
     cnOutput = \<lparr>bytes = replicate 16 (CHR 0x00), readerIndex = 8, writeIndex = 8\<rparr>\<rparr>"

definition sampleCWorld :: cworld where
  "sampleCWorld = \<lparr>syslog = [], chans = (\<lambda>c. newChannel 0 (int c)),
     pollers = (\<lambda>L. if L = 0 then Some \<lparr>channels = (\<lambda>_. None), eventsSize = 16\<rparr> else None),
     loops = (\<lambda>_. \<lparr>looping = True, quitFlag = False, callingPendingFunctors = False, threadId = 1,
       wakeupChannel = 0, activeChannels = [], pendingFunctors = []\<rparr>),
     loopInThisThread = (\<lambda>t. if t = 1 then Some 0 else None),
     conns = (\<lambda>_. sampleConn), connAlive = (\<lambda>_. True),
     mem = (\<lambda>p. if p = 0 then Some ''hello, world'' else None)\<rparr>"

text \<open>A user whose callbacks do nothing.\<close>

definition sampleUser :: "'w user" where
  "sampleUser = \<lparr>onConnection = (\<lambda>t c w. Inr w), onMessage = (\<lambda>t c w. Inr w), onWriteComplete = (\<lambda>t c w. Inr w),
     onHighWaterMark = (\<lambda>t c n w. Inr w), onClose = (\<lambda>t c w. Inr w)\<rparr>"

lemma sampleConn_buffers:
  "cnInput sampleConn = sampleBuffer" "buf_ok (cnOutput sampleConn)" "content (cnOutput sampleConn) = []"
  "fits 100 (cnOutput sampleConn)" "fits 100 sampleBuffer"
  by (auto simp: sampleConn_def buf_ok_def content_def kCheapPrepend_def vec_max_size_def fits_def sampleBuffer_def)

lemma sampleCWorld_chan [simp]: "connChan c sampleCWorld = newChannel 0 3"
  "conns sampleCWorld c = sampleConn" "syslog sampleCWorld = []"
  by (simp_all add: connChan_def sampleCWorld_def sampleConn_def)

lemma newChannel_simps [simp]: "chFd (newChannel L fd) = fd" "chLoop (newChannel L fd) = L"
  "\<not> isWriting (newChannel L fd)" "chIndex (newChannel L fd) = kNew" "chEvents (newChannel L fd) = kNoneEvent"
  by (simp_all add: newChannel_def isWriting_def kNew_def kNoneEvent_def)

lemma sampleConn_simps [simp]: "cnLoop sampleConn = 0" "cnSocket sampleConn = 3" "cnState sampleConn = KConnected"
  "cnChannel sampleConn = 3" "writeCompleteSet sampleConn" "messageSet sampleConn" "highWaterMarkSet sampleConn"
  "cnHighWaterMark sampleConn = 6"
  by (simp_all add: sampleConn_def)

lemma sampleCWorld_ok: "session_ok 1 5 sampleCWorld"
proof -
  have "poll_ok 0 sampleCWorld"
    by (auto simp: poll_ok_def sampleCWorld_def watched_def)
  moreover have "fd_free 0 3 sampleCWorld" by (simp add: fd_free_def sampleCWorld_def)
  moreover have "isInLoopThread 1 0 sampleCWorld" by (simp add: isInLoopThread_def sampleCWorld_def)
  ultimately show ?thesis
    using sampleConn_buffers sampleBuffer_ok
    by (simp add: session_ok_def conn_ok_def conn_wired_def closing_ok_def)
qed

lemma sampleKernel_stays: "peer_stays sampleKernel" "makes_progress sampleKernel"
  by (simp_all add: peer_stays_def makes_progress_def sampleKernel_def EPIPE_def ECONNRESET_def)

section \<open>Properties\<close>

text \<open>
  C1: Run any sequence of \<^verbatim>\<open>send\<close>, \<^verbatim>\<open>shutdown\<close> and writable events, in the loop's thread, on
  a connection that is up, with a kernel that takes whatever part of each write it likes
  while the peer stays. Then no call fails; the bytes the kernel took followed by those in
  the output buffer are the earlier ones followed by the strings sent before the first
  \<^verbatim>\<open>shutdown\<close>, in order, none lost or repeated; \<^verbatim>\<open>EPOLLOUT\<close> is asked for exactly while
  bytes wait; and the write side is shut down exactly once, when a shutdown was requested
  and the last byte has been written, never before.
\<close>

theorem connection_stream:
  assumes "session_ok t c w" and "ctl_documented K" and "write_documented K" and "peer_stays K"
    and "\<forall>p. OpSend p \<in> set ops \<longrightarrow> mem w p \<noteq> None"
    and "fits (length (accepted (mem w) (cnState (conns w c)) ops)) (cnOutput (conns w c))"
  shows "\<exists>w'. runAll (connStep K t c) ops w = Inr w' \<and>
    written (connFd c w) (syslog w') @ waiting c w' =
      written (connFd c w) (syslog w) @ waiting c w @ accepted (mem w) (cnState (conns w c)) ops \<and>
    cnState (conns w' c) = stateAfter (cnState (conns w c)) ops \<and>
    isWriting (connChan c w') = (waiting c w' \<noteq> []) \<and>
    shutdowns (connFd c w) (syslog w') = (if cnState (conns w' c) = KDisconnecting \<and> waiting c w' = [] then 1 else 0)"
proof -
  from session_run [OF assms] obtain w' where w': "runAll (connStep K t c) ops w = Inr w'" "session_ok t c w'"
      "connFrame c w w'" "cnState (conns w' c) = stateAfter (cnState (conns w c)) ops"
      "written (connFd c w) (syslog w') @ waiting c w' =
        written (connFd c w) (syslog w) @ waiting c w @ accepted (mem w) (cnState (conns w c)) ops" by blast
  note D = session_okD [OF w'(2)]
  have "isWriting (connChan c w') = (waiting c w' \<noteq> [])" by (rule conn_okD(4) [OF D(1,4)])
  moreover have "shutdowns (connFd c w) (syslog w') =
      (if cnState (conns w' c) = KDisconnecting \<and> waiting c w' = [] then 1 else 0)"
    using D(2) connFrameD(2) [OF w'(3)] by (simp add: closing_ok_def)
  ultimately show ?thesis using w' by auto
qed

theorem connection_stream_witness:
  "\<exists>w'. runAll (connStep sampleKernel 1 5) [OpSend 0, OpWritable, OpShutdown, OpSend 0, OpWritable] sampleCWorld = Inr w' \<and>
    written 3 (syslog w') @ waiting 5 w' = ''hello, world'' \<and> cnState (conns w' 5) = KDisconnecting"
proof -
  let ?ops = "[OpSend 0, OpWritable, OpShutdown, OpSend 0, OpWritable]"
  have m: "mem sampleCWorld 0 = Some ''hello, world''" by (simp add: sampleCWorld_def)
  then have acc: "accepted (mem sampleCWorld) (cnState (conns sampleCWorld 5)) ?ops = ''hello, world''" by simp
  from m have "\<forall>p. OpSend p \<in> set ?ops \<longrightarrow> mem sampleCWorld p \<noteq> None" by simp
  moreover have "fits (length (accepted (mem sampleCWorld) (cnState (conns sampleCWorld 5)) ?ops)) (cnOutput (conns sampleCWorld 5))"
    unfolding acc by (rule fits_mono [of 100]) (simp_all add: sampleConn_buffers)
  ultimately show ?thesis
    using connection_stream [OF sampleCWorld_ok sampleKernel_documented(1,2) sampleKernel_stays(1), of ?ops]
    unfolding acc by (auto simp: sampleConn_buffers)
qed

text \<open>
  C17: With a kernel that takes at least a byte of every write, as many writable events as
  there are bytes waiting empty the output buffer: every byte reaches the kernel, and if a
  shutdown was pending the write side is then shut down.
\<close>

theorem output_drains:
  assumes "session_ok t c w" and "ctl_documented K" and "write_documented K" and "makes_progress K"
    and "length (waiting c w) \<le> n"
  shows "\<exists>w'. runAll (connStep K t c) (replicate n OpWritable) w = Inr w' \<and> waiting c w' = [] \<and>
    written (connFd c w) (syslog w') = written (connFd c w) (syslog w) @ waiting c w \<and>
    shutdowns (connFd c w) (syslog w') = (if cnState (conns w c) = KDisconnecting then 1 else 0)"
proof -
  from drain_run [OF assms] obtain w' where w': "runAll (connStep K t c) (replicate n OpWritable) w = Inr w'"
      "session_ok t c w'" "waiting c w' = []" "cnState (conns w' c) = cnState (conns w c)" "connFd c w' = connFd c w"
      "written (connFd c w) (syslog w') = written (connFd c w) (syslog w) @ waiting c w" by blast
  with session_okD(2) [OF w'(2)] show ?thesis by (auto simp: closing_ok_def)
qed

theorem output_drains_witness:
  "\<exists>w'. runAll (connStep sampleKernel 1 5) (replicate 2 OpWritable) sampleCWorld = Inr w' \<and> waiting 5 w' = [] \<and>
    shutdowns 3 (syslog w') = 0"
  using output_drains [OF sampleCWorld_ok sampleKernel_documented(1,2) sampleKernel_stays(2), of 2]
  by (auto simp: sampleConn_buffers)

text \<open>
  \<^verbatim>\<open>sendInLoop\<close> on a connection that is not down never fails; the data is added to the
  stream whole, except that it is dropped when a direct write reports that the peer is
  gone (\<^verbatim>\<open>EPIPE\<close>, \<^verbatim>\<open>ECONNRESET\<close>); the write-complete callback is queued exactly when a
  direct write took everything, and the high-water-mark callback, with the new length,
  exactly when the bytes waiting cross the mark from below.
\<close>

theorem sendInLoop_effect:
  assumes "conn_ok c w" and "cnState (conns w c) \<noteq> KDisconnected" and "ctl_documented K"
    and "write_documented K" and "fits (length data) (cnOutput (conns w c))"
  shows "\<exists>w'. sendInLoop K t c data w = Inr w' \<and> conn_ok c w' \<and>
    written (connFd c w) (syslog w') @ waiting c w' =
      written (connFd c w) (syslog w) @ waiting c w @ (if peerReset K c data w then [] else data) \<and>
    pendingFunctors (loops w' (connLoop c w)) = pendingFunctors (loops w (connLoop c w)) @
      (if waiting c w = [] \<and> waiting c w' = [] \<and> data \<noteq> [] \<and> \<not> peerReset K c data w \<and> writeCompleteSet (conns w c)
       then [FWriteComplete c] else []) @
      (if cnHighWaterMark (conns w c) \<le> length (waiting c w') \<and> length (waiting c w) < cnHighWaterMark (conns w c) \<and>
          highWaterMarkSet (conns w c)
       then [FHighWaterMark c (length (waiting c w'))] else [])"
proof -
  from sendInLoop_sent [OF assms, of t] obtain w' where "sendInLoop K t c data w = Inr w'" "sent K c data w w'" by blast
  then show ?thesis unfolding sent_def sentNotices_def highNotices_def by blast
qed

theorem sendInLoop_effect_witness:
  "\<exists>w'. sendInLoop sampleKernel 1 5 ''hello, world'' sampleCWorld = Inr w' \<and>
    written 3 (syslog w') @ waiting 5 w' = ''hello, world''"
proof -
  have "fits (length ''hello, world'') (cnOutput (conns sampleCWorld 5))"
    by (rule fits_mono [of 100]) (simp_all add: sampleConn_buffers)
  from sendInLoop_effect [OF session_okD(1,4) [OF sampleCWorld_ok] sampleKernel_documented(1,2) this, of 1]
  obtain w' where "sendInLoop sampleKernel 1 5 ''hello, world'' sampleCWorld = Inr w'"
    "written 3 (syslog w') @ waiting 5 w' = (if peerReset sampleKernel 5 ''hello, world'' sampleCWorld then [] else ''hello, world'')"
    by (auto simp: sampleConn_buffers)
  then show ?thesis using peer_staysD [OF sampleKernel_stays(1), of 5 "''hello, world''" sampleCWorld] by auto
qed

text \<open>
  \<^verbatim>\<open>handleRead\<close> appends exactly the bytes \<^verbatim>\<open>readv\<close> delivered to the input buffer and
  then runs the message callback, closes the connection at end of file, and after an error
  only asks for the socket's error; nothing else of the connection changes before that.
\<close>

theorem handleRead_effect:
  assumes "conn_ok c w"
    and "\<forall>got. k_readv K (syslog w) (connFd c w) (readvRoom (cnInput (conns w c))) = Inr got \<longrightarrow>
      fits (length got) (cnInput (conns w c))"
  shows "\<exists>w1. conn_ok c w1 \<and> connFrame c w w1 \<and> cnState (conns w1 c) = cnState (conns w c) \<and>
    cnOutput (conns w1 c) = cnOutput (conns w c) \<and>
    (\<forall>fd. written fd (syslog w1) = written fd (syslog w) \<and> shutdowns fd (syslog w1) = shutdowns fd (syslog w)) \<and>
    (case k_readv K (syslog w) (connFd c w) (readvRoom (cnInput (conns w c))) of
       Inl err \<Rightarrow> unread c w1 = unread c w \<and> handleRead K U t c w = Inr (handleError c w1)
     | Inr got \<Rightarrow> unread c w1 = unread c w @ got \<and>
         delivered (connFd c w) (syslog w1) = delivered (connFd c w) (syslog w) @ got \<and>
         handleRead K U t c w =
           (if got = [] then handleClose K U t c w1 else callSet (messageSet (conns w c)) (onMessage U t c) w1))"
  by (rule handleRead_delivered [OF assms])

theorem handleRead_effect_witness:
  "\<exists>w1. unread 5 w1 = ''cdeping'' \<and>
    handleRead sampleKernel sampleUser 1 5 sampleCWorld = Inr w1"
proof -
  have room: "4 \<le> readvRoom sampleBuffer"
    by (simp add: readvRoom_def writeableBytes_ok [OF sampleBuffer_ok]) (simp add: sampleBuffer_def extrabufSize_def)
  then have rv: "k_readv sampleKernel [] 3 (readvRoom sampleBuffer) = Inr ''ping''"
    by (simp add: sampleKernel_def)
  have "fits (length ''ping'') (cnInput sampleConn)" by (rule fits_mono [of 100]) (simp_all add: sampleConn_buffers)
  with rv have "\<forall>got. k_readv sampleKernel (syslog sampleCWorld) (connFd 5 sampleCWorld)
      (readvRoom (cnInput (conns sampleCWorld 5))) = Inr got \<longrightarrow> fits (length got) (cnInput (conns sampleCWorld 5))"
    by (simp add: sampleConn_buffers)
  from handleRead_effect [OF session_okD(1) [OF sampleCWorld_ok] this, of sampleUser 1] rv
  obtain w1 where "unread 5 w1 = content sampleBuffer @ ''ping''" "handleRead sampleKernel sampleUser 1 5 sampleCWorld = Inr w1"
    by (auto simp: sampleConn_buffers callSet_def sampleUser_def)
  moreover have "content sampleBuffer @ ''ping'' = ''cdeping''" by (simp add: content_def sampleBuffer_def Prelude.slice_def)
  ultimately show ?thesis by auto
qed

end
