(* ===== verification/ConnLife.thy ===== *)
theory ConnLife
  imports ConnStream
begin

text \<open>
  The life of a connection: which callbacks a reported event runs and in which order, what
  the guard of a tied channel does, and what \<^verbatim>\<open>connectEstablished\<close>, \<^verbatim>\<open>handleClose\<close> and
  \<^verbatim>\<open>connectDestroyed\<close> do to the state of the connection and to its registration.
\<close>

section \<open>Which callbacks an event runs\<close>

text \<open>The callbacks due for the events reported, in the order of the code.\<close>

definition dispatched :: "channel \<Rightarrow> callback list" where
  "dispatched ch =
     (let r = chRevents ch;
          due = (\<lambda>b cb. if b then (case cb of None \<Rightarrow> [] | Some f \<Rightarrow> [f]) else [])
      in due (r AND EPOLLHUP \<noteq> 0 \<and> \<not> r AND EPOLLIN \<noteq> 0) (closeCallback ch) @
         due (r AND EPOLLERR \<noteq> 0) (errorCallback ch) @
         due (r AND EPOLLIN \<noteq> 0) (readCallback ch) @
         due (r AND EPOLLOUT \<noteq> 0) (writeCallback ch))"

text \<open>The callbacks do not set the channel up again.\<close>

definition keepsChannel :: "('w \<Rightarrow> channel) \<Rightarrow> (callback \<Rightarrow> 'w \<Rightarrow> fault + 'w) \<Rightarrow> bool" where
  "keepsChannel get run \<longleftrightarrow> (\<forall>cb w w'. run cb w = Inr w' \<longrightarrow> chanIdent (get w') = chanIdent (get w))"

lemma callIf_runAll:
  "callIf b cb run w = runAll run (if b then (case cb of None \<Rightarrow> [] | Some f \<Rightarrow> [f]) else []) w"
  by (cases "run (the cb) w") (auto simp: callIf_def split: option.splits)

lemma callIf_keeps:
  assumes "keepsChannel get run" and "callIf b cb run w = Inr w'"
  shows "chanIdent (get w') = chanIdent (get w)"
  using assms by (auto simp: keepsChannel_def callIf_def split: if_splits option.splits)

lemma bind_res_cong: "r = r' \<Longrightarrow> (\<And>a. r' = Inr a \<Longrightarrow> f a = g a) \<Longrightarrow> bind_res r f = bind_res r' g"
  by (cases r') simp_all

lemma callIf_then:
  assumes "keepsChannel get run" and "chanIdent (get w) = i" and "b = b'" and "cb = cb'"
    and "\<And>w'. chanIdent (get w') = i \<Longrightarrow> f w' = g w'"
  shows "bind_res (callIf b cb run w) f = bind_res (callIf b' cb' run w) g"
  using callIf_keeps [OF assms(1), of b cb w] assms(2-5) by (intro bind_res_cong) auto

lemma runAll_append_fun: "runAll f (xs @ ys) = (\<lambda>w. bind_res (runAll f xs w) (runAll f ys))"
  by (rule ext) (rule runAll_append)

lemma handleEventWithGuard_dispatched:
  assumes keep: "keepsChannel get run"
  shows "handleEventWithGuard get run w = runAll run (dispatched (get w)) w"
proof -
  let ?ch = "get w" and ?r = "chRevents (get w)"
  have same: "chRevents (get w') = ?r \<and> errorCallback (get w') = errorCallback ?ch \<and>
      readCallback (get w') = readCallback ?ch \<and> writeCallback (get w') = writeCallback ?ch"
    if "chanIdent (get w') = chanIdent ?ch" for w'
    using chanIdent_eqD [OF that] by simp
  have "handleEventWithGuard get run w =
      bind_res (callIf (?r AND EPOLLHUP \<noteq> 0 \<and> \<not> ?r AND EPOLLIN \<noteq> 0) (closeCallback ?ch) run w) (\<lambda>w.
      bind_res (callIf (?r AND EPOLLERR \<noteq> 0) (errorCallback ?ch) run w) (\<lambda>w.
      bind_res (callIf (?r AND EPOLLIN \<noteq> 0) (readCallback ?ch) run w) (\<lambda>w.
      callIf (?r AND EPOLLOUT \<noteq> 0) (writeCallback ?ch) run w)))"
    unfolding handleEventWithGuard_def
    by (intro callIf_then [OF keep, where i = "chanIdent ?ch"]; (simp; fail | drule same, simp))
  then show ?thesis by (simp only: callIf_runAll dispatched_def Let_def runAll_append_fun)
qed

section \<open>Up and down\<close>

lemma setState_wired: "conn_wired c w \<Longrightarrow> conn_wired c (setState c st w)"
  by (subst conn_wired_cong [of _ w]) simp_all

lemma interestWorld_interest:
  "interest (connLoop c w) (syslog (interestWorld op c w)) (connFd c w) =
     (if chIndex (connChan c w) = kAdded \<and> newEvents op (chEvents (connChan c w)) = kNoneEvent then None
      else Some (newEvents op (chEvents (connChan c w)), cnChannel (conns w c)))"
  by (simp add: interestWorld_def connChan_def ctlFor_def)

lemma setState_connChan [simp]: "connChan c' (setState c st w) = connChan c' w"
  by (cases "c' = c") (simp_all add: connChan_def)

lemma disableAll_state:
  assumes "conn_wired c w" and "ctl_documented K"
  shows "channelInterest K DisableAll (cnChannel (conns (setState c st w) c)) (setState c st w) =
    Inr (interestWorld DisableAll c (setState c st w))"
  by (rule conn_interest(1) [OF setState_wired [OF assms(1)] assms(2)])

text \<open>The world in which the callbacks learn that the connection is down.\<close>

definition downWorld :: "nat \<Rightarrow> 'a cworld_scheme \<Rightarrow> 'a cworld_scheme" where
  "downWorld c w = interestWorld DisableAll c (setState c KDisconnected w)"

lemma downWorld_conns [simp]: "conns (downWorld c w) = (conns w)(c := (conns w c)\<lparr>cnState := KDisconnected\<rparr>)"
  "connAlive (downWorld c w) = connAlive w" "mem (downWorld c w) = mem w" "loops (downWorld c w) = loops w"
  by (simp_all add: downWorld_def)

lemma downWorld_ok:
  assumes wired: "conn_wired c w"
  shows "conn_wired c (downWorld c w)" "isNoneEvent (connChan c (downWorld c w))"
    "chIndex (connChan c w) = kAdded \<Longrightarrow> interest (connLoop c w) (syslog (downWorld c w)) (connFd c w) = None"
proof -
  note w1 = setState_wired [OF wired, of KDisconnected]
  show "conn_wired c (downWorld c w)"
    unfolding downWorld_def by (rule conn_interest(2) [OF w1 sampleKernel_documented(1)])
  show "isNoneEvent (connChan c (downWorld c w))" by (simp add: downWorld_def isNoneEvent_def)
  show "interest (connLoop c w) (syslog (downWorld c w)) (connFd c w) = None" if "chIndex (connChan c w) = kAdded"
    using interestWorld_interest [where c = c and w = "setState c KDisconnected w" and op = DisableAll] that by (simp add: downWorld_def)
qed

lemma handleClose_run:
  assumes "conn_wired c w" and "ctl_documented K"
  shows "handleClose K U t c w =
    bind_res (callSet (connectionSet (conns w c)) (onConnection U t c) (downWorld c w))
      (\<lambda>w. callSet (closeSet (conns w c)) (onClose U t c) w)"
  using disableAll_state [OF assms, of KDisconnected] by (simp add: handleClose_def downWorld_def)

text \<open>After the removal nothing is left in the poller or the kernel.\<close>

definition unregistered :: "nat \<Rightarrow> nat \<Rightarrow> int \<Rightarrow> 'a pworld_scheme \<Rightarrow> bool" where
  "unregistered L ch fd w \<longleftrightarrow> interest L (syslog w) fd = None \<and> loopHasChannel L ch w = Inr False \<and>
     chIndex (chans w ch) = kNew \<and> poll_ok L w"

lemma conn_removed:
  assumes "conn_wired c w" and "ctl_documented K"
  shows "\<exists>w'. channelRemove K (cnChannel (conns w c)) w = Inr w' \<and> conns w' = conns w \<and>
    unregistered (connLoop c w) (cnChannel (conns w c)) (connFd c w) w'"
proof -
  let ?L = "connLoop c w" and ?ch = "cnChannel (conns w c)"
  from assms(1) have ok: "poll_ok ?L w" and L: "chLoop (chans w ?ch) = ?L" and free: "fd_free ?L ?ch w"
    by (simp_all add: conn_wired_def connChan_def)
  from ok obtain p where p: "pollers w ?L = Some p" by (rule poll_okE) blast
  have "loopHasChannel ?L ?ch (removedWorld ?L ?ch w) = Inr False"
    using p by (simp add: loopHasChannel_def hasChannel_def)
  moreover have "interest ?L (syslog (removedWorld ?L ?ch w)) (connFd c w) = None"
    using poll_ok_watched_fd [OF ok L free] by (auto simp: connChan_def)
  ultimately show ?thesis
    using conn_remove(1) [OF assms] poll_ok_removed [OF ok L free] by (simp add: unregistered_def)
qed

section \<open>Properties\<close>

text \<open>
  \<^verbatim>\<open>Channel::handleEvent\<close> runs exactly the callbacks due for the reported events, in the
  order close, error, read, write; close only for a hang-up without readable data. The
  first fault ends the sequence.
\<close>

theorem handleEvent_dispatches:
  assumes "keepsChannel get run" and "\<not> chTied (get w)"
  shows "handleEvent get alive run w = runAll run (dispatched (get w)) w"
  using handleEventWithGuard_dispatched [OF assms(1)] assms(2) by (simp add: handleEvent_def)

theorem handleEvent_dispatches_witness:
  "handleEvent (\<lambda>(ch, log). ch) (\<lambda>_ _. True) (\<lambda>cb (ch, log). Inr (ch, log @ [cb]))
     (setWriteCallback (ConnWrite 1) (setCloseCallback (ConnClose 1) (setReadCallback (ConnRead 1)
        (set_revents (EPOLLIN OR EPOLLOUT OR EPOLLHUP) (newChannel 0 3)))), []) =
   Inr (setWriteCallback (ConnWrite 1) (setCloseCallback (ConnClose 1) (setReadCallback (ConnRead 1)
        (set_revents (EPOLLIN OR EPOLLOUT OR EPOLLHUP) (newChannel 0 3)))), [ConnRead 1, ConnWrite 1])"
proof -
  let ?get = "\<lambda>(ch, log :: callback list). ch :: channel" and ?run = "\<lambda>cb (ch, log). Inr (ch, log @ [cb])"
  let ?ch = "setWriteCallback (ConnWrite 1) (setCloseCallback (ConnClose 1) (setReadCallback (ConnRead 1)
        (set_revents (EPOLLIN OR EPOLLOUT OR EPOLLHUP) (newChannel 0 3))))"
  have keep: "keepsChannel ?get ?run" by (auto simp: keepsChannel_def)
  have untied: "\<not> chTied (?get (?ch, []))"
    by (simp add: setWriteCallback_def setCloseCallback_def setReadCallback_def set_revents_def newChannel_def)
  have "dispatched ?ch = [ConnRead 1, ConnWrite 1]"
    by (simp add: dispatched_def Let_def setWriteCallback_def setCloseCallback_def setReadCallback_def
        set_revents_def newChannel_def event_bits)
  with handleEvent_dispatches [OF keep untied, of "\<lambda>_ _. True"] show ?thesis by simp
qed

text \<open>
  A tied channel whose object is gone runs no callback at all, whatever was reported: an
  event that was already in the active list when the last owner of the connection let go
  does not reach the destroyed connection.
\<close>

theorem expired_tie_runs_nothing:
  assumes "chTied (chans w ch)" and "chTie (chans w ch) = Some c" and "\<not> connAlive w c"
  shows "channelEvent K U accept t ch w = Inr w"
  using assms by (simp add: channelEvent_def handleEvent_def)

theorem expired_tie_runs_nothing_witness:
  "channelEvent sampleKernel sampleUser (\<lambda>t w. Inl NullDeref) 1 3
     (setChan 3 (tie 5) (sampleCWorld\<lparr>connAlive := (\<lambda>_. False)\<rparr>)) =
   Inr (setChan 3 (tie 5) (sampleCWorld\<lparr>connAlive := (\<lambda>_. False)\<rparr>))"
  by (rule expired_tie_runs_nothing [where c = 5]) (simp_all add: setChan_def tie_def)

text \<open>
  \<^verbatim>\<open>handleClose\<close> first marks the connection down and takes its channel out of epoll, and
  only then runs the connection callback and after it the close callback, each once; a
  connection the kernel was watching is no longer watched when they run.
\<close>

theorem handleClose_effect:
  assumes "conn_wired c w" and "ctl_documented K" and "chIndex (connChan c w) = kAdded"
  shows "\<exists>w1. cnState (conns w1 c) = KDisconnected \<and> conn_wired c w1 \<and>
    interest (connLoop c w) (syslog w1) (connFd c w) = None \<and>
    handleClose K U t c w =
      bind_res (callSet (connectionSet (conns w c)) (onConnection U t c) w1)
        (\<lambda>w. callSet (closeSet (conns w c)) (onClose U t c) w)"
  using handleClose_run [OF assms(1,2)] downWorld_ok [OF assms(1)] assms(3)
  by (intro exI [of _ "downWorld c w"]) simp

definition watchedCWorld :: cworld where
  "watchedCWorld = updatedWorld 0 3 kReadEvent sampleCWorld"

lemma watchedCWorld_ok: "conn_wired 5 watchedCWorld" "chIndex (connChan 5 watchedCWorld) = kAdded"
  "connFd 5 watchedCWorld = 3" "conns watchedCWorld = (\<lambda>_. sampleConn)" "chEvents (connChan 5 watchedCWorld) = kReadEvent"
proof -
  have "interestWorld EnableReading 5 sampleCWorld = watchedCWorld"
    by (simp add: interestWorld_def watchedCWorld_def kNoneEvent_def)
  then show "conn_wired 5 watchedCWorld"
    using conn_interest(2) [OF conn_okD(1) [OF session_okD(1) [OF sampleCWorld_ok]] sampleKernel_documented(1),
        of EnableReading] by simp
  show "conns watchedCWorld = (\<lambda>_. sampleConn)" by (simp add: watchedCWorld_def) (simp add: sampleCWorld_def)
  then show "chIndex (connChan 5 watchedCWorld) = kAdded" "connFd 5 watchedCWorld = 3"
    "chEvents (connChan 5 watchedCWorld) = kReadEvent"
    by (simp_all add: connChan_def) (simp_all add: watchedCWorld_def sampleCWorld_def nextIndex_def)
qed

theorem handleClose_effect_witness:
  "\<exists>w1. cnState (conns w1 5) = KDisconnected \<and> interest 0 (syslog w1) 3 = None \<and>
    handleClose sampleKernel sampleUser 1 5 watchedCWorld =
      bind_res (callSet (connectionSet sampleConn) Inr w1) (\<lambda>w. callSet (closeSet (conns w 5)) Inr w)"
  using handleClose_effect [OF watchedCWorld_ok(1) sampleKernel_documented(1) watchedCWorld_ok(2), of sampleUser 1]
  by (auto simp: watchedCWorld_ok sampleUser_def)

text \<open>
  \<^verbatim>\<open>connectDestroyed\<close> of a connection that is still up marks it down, takes it out of
  epoll, runs the connection callback once and removes the channel; of any other
  connection it runs no callback. In both cases, unless the callback changes the
  connection's wiring, the poller and the kernel have forgotten the channel afterwards.
\<close>

theorem connectDestroyed_effect:
  assumes "conn_wired c w" and "ctl_documented K"
    and "\<forall>w1 w2. onConnection U t c w1 = Inr w2 \<longrightarrow> conn_wired c w1 \<longrightarrow>
      conn_wired c w2 \<and> connLoop c w2 = connLoop c w1 \<and> cnChannel (conns w2 c) = cnChannel (conns w1 c) \<and> connFd c w2 = connFd c w1"
    and "connectDestroyed K U t c w = Inr w'"
  shows "unregistered (connLoop c w) (cnChannel (conns w c)) (connFd c w) w' \<and>
    (cnState (conns w c) \<noteq> KConnected \<longrightarrow> conns w' = conns w) \<and>
    (cnState (conns w c) = KConnected \<longrightarrow> (\<exists>w1 w2. cnState (conns w1 c) = KDisconnected \<and>
       callSet (connectionSet (conns w c)) (onConnection U t c) w1 = Inr w2 \<and> channelRemove K (cnChannel (conns w2 c)) w2 = Inr w'))"
proof (cases "cnState (conns w c) = KConnected")
  case False
  with assms(4) conn_removed [OF assms(1,2)] show ?thesis by (auto simp: connectDestroyed_def)
next
  case True
  have "bind_res (callSet (connectionSet (conns w c)) (onConnection U t c) (downWorld c w))
      (\<lambda>w. channelRemove K (cnChannel (conns w c)) w) = Inr w'"
    using assms(4) True disableAll_state [OF assms(1,2), of KDisconnected]
    by (simp add: connectDestroyed_def downWorld_def)
  then obtain w2 where w2: "callSet (connectionSet (conns w c)) (onConnection U t c) (downWorld c w) = Inr w2"
      "channelRemove K (cnChannel (conns w2 c)) w2 = Inr w'" by (rule bind_res_Inr_E)
  have "onConnection U t c (downWorld c w) = Inr w2"
    using w2(1) by (simp add: callSet_def split: if_splits)
  with assms(3) downWorld_ok(1) [OF assms(1)] have s: "conn_wired c w2" "connLoop c w2 = connLoop c w"
    "cnChannel (conns w2 c) = cnChannel (conns w c)" "connFd c w2 = connFd c w"
    by (auto simp: downWorld_def)
  from conn_removed [OF s(1) assms(2)] s w2(2)
  have "unregistered (connLoop c w) (cnChannel (conns w c)) (connFd c w) w'" by auto
  moreover have "cnState (conns (downWorld c w) c) = KDisconnected" by simp
  ultimately show ?thesis using True w2 by blast
qed

theorem connectDestroyed_effect_witness:
  "\<exists>w'. connectDestroyed sampleKernel sampleUser 1 5 watchedCWorld = Inr w' \<and> unregistered 0 3 3 w'"
proof -
  obtain w' where r: "connectDestroyed sampleKernel sampleUser 1 5 watchedCWorld = Inr w'"
    using disableAll_state [OF watchedCWorld_ok(1) sampleKernel_documented(1), of KDisconnected]
      conn_removed [OF downWorld_ok(1) [OF watchedCWorld_ok(1)] sampleKernel_documented(1)]
    by (auto simp: connectDestroyed_def watchedCWorld_ok callSet_def sampleUser_def downWorld_def sampleConn_def)
  have "\<forall>w1 w2. onConnection sampleUser 1 5 w1 = Inr w2 \<longrightarrow> conn_wired 5 w1 \<longrightarrow>
      conn_wired 5 w2 \<and> connLoop 5 w2 = connLoop 5 w1 \<and> cnChannel (conns w2 5) = cnChannel (conns w1 5) \<and> connFd 5 w2 = connFd 5 w1"
    by (simp add: sampleUser_def)
  from connectDestroyed_effect [OF watchedCWorld_ok(1) sampleKernel_documented(1) this r] r
  show ?thesis by (auto simp: watchedCWorld_ok)
qed

text \<open>The world in which the connection callback runs.\<close>

definition establishedWorld :: "nat \<Rightarrow> 'a cworld_scheme \<Rightarrow> 'a cworld_scheme" where
  "establishedWorld c w =
     interestWorld EnableReading c (setChan (cnChannel (conns w c)) (tie c) (setState c KConnected w))"

lemma establishedWorld_frame [simp]:
  "conns (establishedWorld c w) = (conns w)(c := (conns w c)\<lparr>cnState := KConnected\<rparr>)"
  "mem (establishedWorld c w) = mem w" "loops (establishedWorld c w) = loops w"
  "written fd (syslog (establishedWorld c w)) = written fd (syslog w)"
  "shutdowns fd (syslog (establishedWorld c w)) = shutdowns fd (syslog w)"
  "chFd (connChan c (establishedWorld c w)) = chFd (connChan c w)"
  "chTied (connChan c (establishedWorld c w))" "chTie (connChan c (establishedWorld c w)) = Some c"
  by (simp_all add: establishedWorld_def setState_def setConn_def setChan_def connChan_def tie_def)
    (simp_all add: interestWorld_def connChan_def tie_def)

lemma establishedWorld_writing [simp]: "isWriting (connChan c (establishedWorld c w)) = isWriting (connChan c w)"
  unfolding establishedWorld_def isWriting_interest(4)
  by (simp add: setState_def setConn_def setChan_def connChan_def tie_def isWriting_def)

lemma connectEstablished_run:
  assumes "conn_wired c w" and "ctl_documented K"
  shows "connectEstablished K U t c w = callSet (connectionSet (conns w c)) (onConnection U t c) (establishedWorld c w)"
    and "conn_wired c (establishedWorld c w)"
proof -
  let ?ch = "cnChannel (conns w c)"
  let ?w0 = "setChan ?ch (tie c) (setState c KConnected w)"
  have same: "conns ?w0 c = (conns w c)\<lparr>cnState := KConnected\<rparr>" "pollers ?w0 = pollers w" "syslog ?w0 = syslog w"
    "connChan c ?w0 = tie c (connChan c w)"
    by (simp_all add: setChan_def connChan_def)
  have reg: "regOf (chans ?w0 ch) = regOf (chans w ch)" for ch
    by (simp add: setChan_def regOf_def tie_def)
  have sr: "same_reg L w ?w0" for L using same(2,3) reg by (simp add: same_reg_def)
  from assms(1) have "conn_wired c ?w0"
    using poll_ok_same_reg [OF _ sr, of "connLoop c w"] same_reg_fd_free [OF sr, where c = ?ch and L = "connLoop c w"]
    by (simp add: conn_wired_def same) (simp add: setChan_def connChan_def tie_def)
  note step = conn_interest [OF this assms(2), of EnableReading]
  show "connectEstablished K U t c w = callSet (connectionSet (conns w c)) (onConnection U t c) (establishedWorld c w)"
    using step(1) same by (simp add: connectEstablished_def establishedWorld_def Let_def)
  show "conn_wired c (establishedWorld c w)" using step(2) by (simp add: establishedWorld_def)
qed

lemma establishedWorld_watched:
  assumes "chEvents (connChan c w) = kNoneEvent"
  shows "interest (connLoop c w) (syslog (establishedWorld c w)) (connFd c w) = Some (kReadEvent, cnChannel (conns w c))"
proof -
  let ?w0 = "setChan (cnChannel (conns w c)) (tie c) (setState c KConnected w)"
  have same: "conns ?w0 c = (conns w c)\<lparr>cnState := KConnected\<rparr>" "connChan c ?w0 = tie c (connChan c w)"
    by (simp_all add: setChan_def connChan_def)
  have "newEvents EnableReading (chEvents (connChan c ?w0)) = kReadEvent"
    using same(2) assms by (simp add: tie_def kNoneEvent_def)
  with interestWorld_interest [where c = c and w = ?w0 and op = EnableReading] same show ?thesis
    by (simp add: tie_def event_bits establishedWorld_def del: newEvents.simps)
qed

text \<open>
  \<^verbatim>\<open>connectEstablished\<close> of a fresh connection marks it up, ties the channel to it and
  registers the channel for reading: when the connection callback runs, the kernel watches
  the descriptor for exactly \<^verbatim>\<open>EPOLLIN|EPOLLPRI\<close>.
\<close>

theorem connectEstablished_effect:
  assumes "conn_wired c w" and "ctl_documented K" and "chEvents (connChan c w) = kNoneEvent"
  shows "\<exists>w1. connectEstablished K U t c w = callSet (connectionSet (conns w c)) (onConnection U t c) w1 \<and>
    cnState (conns w1 c) = KConnected \<and> conn_wired c w1 \<and> chTied (connChan c w1) \<and> chTie (connChan c w1) = Some c \<and>
    interest (connLoop c w) (syslog w1) (connFd c w) = Some (kReadEvent, cnChannel (conns w c))"
  using connectEstablished_run [OF assms(1,2)] establishedWorld_watched [OF assms(3)]
  by (intro exI [of _ "establishedWorld c w"]) simp

theorem connectEstablished_effect_witness:
  "\<exists>w1. connectEstablished sampleKernel sampleUser 1 5 sampleCWorld = callSet True Inr w1 \<and>
    interest 0 (syslog w1) 3 = Some (kReadEvent, 3)"
proof -
  have "chEvents (connChan 5 sampleCWorld) = kNoneEvent" by simp
  from connectEstablished_effect [OF conn_okD(1) [OF session_okD(1) [OF sampleCWorld_ok]] sampleKernel_documented(1) this,
      of sampleUser 1]
  show ?thesis by (auto simp: sampleUser_def sampleConn_def)
qed

end
