(* ===== verification/Acceptor.thy ===== *)
theory Acceptor
  imports EventLoop Socket
begin

text \<open>
  \<^verbatim>\<open>class Acceptor\<close> of \<^verbatim>\<open>MyMuduo/Acceptor.h\<close> and \<^verbatim>\<open>MyMuduo/Acceptor.cc\<close>: the listening
  socket and its channel. The callback for new connections is a parameter of the handler.
\<close>

section \<open>The code\<close>

record acceptor =
  acLoop :: nat
  acSocket :: int
  acChannel :: nat
  newConnectionSet :: bool
  listenning :: bool

definition createNonblocking :: "kernel \<Rightarrow> 'a pworld_scheme \<Rightarrow> fault + (int \<times> 'a pworld_scheme)" where
  "createNonblocking K w =
     (let r = k_socket K (syslog w);
          w = logCall (SysSocket r) w
      in case r of Inl err \<Rightarrow> Inl ExitFailure | Inr fd \<Rightarrow> Inr (fd, w))"

text \<open>The constructor, with its channel at \<open>ch\<close>. The parameter \<open>reuseport\<close> is not used.\<close>

definition newAcceptor :: "kernel \<Rightarrow> nat \<Rightarrow> inetaddr \<Rightarrow> bool \<Rightarrow> nat \<Rightarrow> 'a pworld_scheme \<Rightarrow> fault + (acceptor \<times> 'a pworld_scheme)" where
  "newAcceptor K loop listenAddr reuseport ch w =
     bind_res (createNonblocking K w) (\<lambda>(fd, w).
     let w = w\<lparr>chans := (chans w)(ch := newChannel loop fd)\<rparr>;
         w = setReusePort fd True (setReuseAddr fd True w)
     in bind_res (bindAddress K fd listenAddr w) (\<lambda>w.
        Inr (\<lparr>acLoop = loop, acSocket = fd, acChannel = ch, newConnectionSet = False, listenning = False\<rparr>,
             setChan ch (setReadCallback AcceptorRead) w)))"

definition setNewConnectionCallback :: "acceptor \<Rightarrow> acceptor" where
  "setNewConnectionCallback a = a\<lparr>newConnectionSet := True\<rparr>"

definition acceptorListen :: "kernel \<Rightarrow> acceptor \<Rightarrow> 'a pworld_scheme \<Rightarrow> fault + (acceptor \<times> 'a pworld_scheme)" where
  "acceptorListen K a w =
     (let a = a\<lparr>listenning := True\<rparr> in
      bind_res (socketListen K (acSocket a) w) (\<lambda>w.
      bind_res (channelInterest K EnableReading (acChannel a) w) (\<lambda>w. Inr (a, w))))"

definition acceptorHandleRead :: "kernel \<Rightarrow> (int \<Rightarrow> inetaddr \<Rightarrow> 'a pworld_scheme \<Rightarrow> fault + 'a pworld_scheme) \<Rightarrow>
    acceptor \<Rightarrow> 'a pworld_scheme \<Rightarrow> fault + 'a pworld_scheme" where
  "acceptorHandleRead K newConnection a w =
     (let (r, w) = socketAccept K (acSocket a) w in
      case r of
        Inr (connfd, peerAddr) \<Rightarrow>
          if newConnectionSet a then newConnection connfd peerAddr w else Inr (closeSocket connfd w)
      | Inl err \<Rightarrow> Inr w)"

definition destroyAcceptor :: "kernel \<Rightarrow> acceptor \<Rightarrow> 'a pworld_scheme \<Rightarrow> fault + 'a pworld_scheme" where
  "destroyAcceptor K a w =
     bind_res (channelInterest K DisableAll (acChannel a) w) (\<lambda>w.
     bind_res (channelRemove K (acChannel a) w) (\<lambda>w.
     Inr (closeSocket (acSocket a) w)))"

section \<open>Properties\<close>

text \<open>
  The option \<^verbatim>\<open>reuseport\<close> has no effect: whatever it says, the acceptor makes the same
  system calls, and \<^verbatim>\<open>SO_REUSEPORT\<close> is set on the listening socket it returns.
\<close>

theorem reuseport_is_ignored:
  "newAcceptor K loop addr r1 ch w = newAcceptor K loop addr r2 ch w \<and>
   (newAcceptor K loop addr r1 ch w = Inr (a, w') \<longrightarrow>
     SysSetOpt (acSocket a) SO_REUSEPORT True \<in> set (syslog w') \<and> \<not> listenning a \<and> \<not> newConnectionSet a)"
  by (auto simp: newAcceptor_def createNonblocking_def socket_defs logCall_def setChan_def Let_def bind_res_Inr_iff
      split: sum.splits if_splits)

theorem reuseport_is_ignored_witness:
  "\<exists>a w'. newAcceptor sampleKernel 0 localhost False 9 samplePWorld = Inr (a, w') \<and>
    SysSetOpt (acSocket a) SO_REUSEPORT True \<in> set (syslog w')"
proof -
  obtain a w' where r: "newAcceptor sampleKernel 0 localhost False 9 samplePWorld = Inr (a, w')"
    by (simp add: newAcceptor_def createNonblocking_def socket_defs sampleKernel_def logCall_def Let_def)
  from reuseport_is_ignored [of sampleKernel 0 localhost False 9 samplePWorld True a w'] r show ?thesis by blast
qed

text \<open>
  A connection that is accepted is never leaked: \<^verbatim>\<open>handleRead\<close> accepts once, hands the
  descriptor with the peer's address to the callback if there is one and closes it
  otherwise; a failed accept changes nothing but the log.
\<close>

theorem accept_hands_over_or_closes:
  "acceptorHandleRead K newConnection a w =
     (case k_accept K (syslog w) (acSocket a) of
        Inl err \<Rightarrow> Inr (logCall (SysAccept (acSocket a) (Inl err)) w)
      | Inr (fd, peer) \<Rightarrow>
          (let w1 = logCall (SysAccept (acSocket a) (Inr (fd, peer))) w
           in if newConnectionSet a then newConnection fd peer w1 else Inr (logCall (SysClose fd) w1)))"
  by (auto simp: acceptorHandleRead_def socket_defs Let_def split: sum.splits prod.splits)

end
