(* ===== verification/LoopPool.thy ===== *)
theory LoopPool
  imports InetAddress
begin

text \<open>
  \<^verbatim>\<open>class EventLoopThreadPool\<close> of \<^verbatim>\<open>MyMuduo/EventLoopThreadPool.h\<close> and
  \<^verbatim>\<open>MyMuduo/EventLoopThreadPool.cc\<close>: the loops among which a server spreads its
  connections. What the server relies on is stated as a locale.
\<close>

section \<open>The code\<close>

record pool =
  baseLoop :: nat
  poolName :: string
  poolStarted :: bool
  numThreads :: int
  nextIdx :: int
  poolLoops :: "nat list"

definition newPool :: "nat \<Rightarrow> string \<Rightarrow> pool" where
  "newPool base nm = \<lparr>baseLoop = base, poolName = nm, poolStarted = False, numThreads = 0, nextIdx = 0, poolLoops = []\<rparr>"

definition setThreadNum :: "int \<Rightarrow> pool \<Rightarrow> pool" where
  "setThreadNum n p = p\<lparr>numThreads := n\<rparr>"

text \<open>\<^verbatim>\<open>%d\<close>.\<close>

definition decimalInt :: "int \<Rightarrow> string" where
  "decimalInt i = (if i < 0 then ''-'' @ decimal (nat (- i)) else decimal (nat i))"

text \<open>\<^verbatim>\<open>snprintf\<close> into \<open>n\<close> bytes keeps all but the last for the closing zero.\<close>

definition snprintf :: "nat \<Rightarrow> string \<Rightarrow> string" where
  "snprintf n s = take (n - 1) s"

text \<open>
  The loop of \<^verbatim>\<open>start\<close>: \<open>startLoop\<close> makes an \<^verbatim>\<open>EventLoopThread\<close> with the given name and
  returns its event loop. \<open>n\<close> threads are still to be started.
\<close>

fun startThreads :: "(string \<Rightarrow> 'w \<Rightarrow> fault + (nat \<times> 'w)) \<Rightarrow> nat \<Rightarrow> int \<Rightarrow> pool \<Rightarrow> 'w \<Rightarrow> fault + (pool \<times> 'w)" where
  "startThreads startLoop 0 i p w = Inr (p, w)"
| "startThreads startLoop (Suc n) i p w =
     bind_res (startLoop (snprintf (length (poolName p) + 32) (poolName p @ decimalInt i)) w) (\<lambda>(L, w).
     startThreads startLoop n (i + 1) (p\<lparr>poolLoops := poolLoops p @ [L]\<rparr>) w)"

definition poolStart :: "(string \<Rightarrow> 'w \<Rightarrow> fault + (nat \<times> 'w)) \<Rightarrow> (nat \<Rightarrow> 'w \<Rightarrow> fault + 'w) option \<Rightarrow>
    pool \<Rightarrow> 'w \<Rightarrow> fault + (pool \<times> 'w)" where
  "poolStart startLoop cb p w =
     bind_res (startThreads startLoop (nat (numThreads p)) 0 (p\<lparr>poolStarted := True\<rparr>) w) (\<lambda>(p, w).
     if numThreads p = 0
     then (case cb of None \<Rightarrow> Inr (p, w) | Some f \<Rightarrow> bind_res (f (baseLoop p) w) (\<lambda>w. Inr (p, w)))
     else Inr (p, w))"

definition getNextLoop :: "pool \<Rightarrow> fault + (nat \<times> pool)" where
  "getNextLoop p =
     (if poolLoops p \<noteq> []
      then if 0 \<le> nextIdx p \<and> nextIdx p < int (length (poolLoops p))
           then let L = poolLoops p ! nat (nextIdx p);
                    next = nextIdx p + 1
                in Inr (L, p\<lparr>nextIdx := if int (length (poolLoops p)) \<le> next then 0 else next\<rparr>)
           else Inl OutOfBounds
      else Inr (baseLoop p, p))"

definition getAllLoops :: "pool \<Rightarrow> nat list" where
  "getAllLoops p = (if poolLoops p = [] then [baseLoop p] else poolLoops p)"

section \<open>The interface\<close>

text \<open>
  A chooser hands out one of a fixed, non-empty list of loops at each call, going round.
  \<open>pickMany n\<close> is a client that asks \<open>n\<close> times.
\<close>

fun pickMany :: "('s \<Rightarrow> fault + (nat \<times> 's)) \<Rightarrow> nat \<Rightarrow> 's \<Rightarrow> fault + (nat list \<times> 's)" where
  "pickMany pick 0 s = Inr ([], s)"
| "pickMany pick (Suc n) s =
     bind_res (pick s) (\<lambda>(L, s). bind_res (pickMany pick n s) (\<lambda>(Ls, s). Inr (L # Ls, s)))"

locale loop_chooser =
  fixes inv :: "'s \<Rightarrow> bool"
    and pick :: "'s \<Rightarrow> fault + (nat \<times> 's)"
    and members :: "'s \<Rightarrow> nat list"
    and pos :: "'s \<Rightarrow> nat"
  assumes pick_law: "inv s \<Longrightarrow> \<exists>s'. pick s = Inr (members s ! pos s, s') \<and> inv s' \<and> members s' = members s \<and>
      pos s' = Suc (pos s) mod length (members s)"
    and pos_law: "inv s \<Longrightarrow> pos s < length (members s)"
begin

lemma pick_member:
  "inv s \<Longrightarrow> pick s = Inr (L, s') \<Longrightarrow> L \<in> set (members s) \<and> inv s'"
  using pick_law [of s] pos_law [of s] by auto

lemma pickMany_rotates:
  "inv s \<Longrightarrow> \<exists>s'. pickMany pick n s =
      Inr (map (\<lambda>i. members s ! ((pos s + i) mod length (members s))) [0..<n], s') \<and>
    inv s' \<and> members s' = members s \<and> pos s' = (pos s + n) mod length (members s)"
proof (induction n arbitrary: s)
  case 0
  then show ?case using pos_law [of s] by simp
next
  case (Suc n)
  from pick_law [OF Suc.prems] obtain s1 where s1: "pick s = Inr (members s ! pos s, s1)" "inv s1"
      "members s1 = members s" "pos s1 = Suc (pos s) mod length (members s)" by blast
  from Suc.IH [OF s1(2)] obtain s' where s': "pickMany pick n s1 =
      Inr (map (\<lambda>i. members s1 ! ((pos s1 + i) mod length (members s1))) [0..<n], s')"
      "inv s'" "members s' = members s1" "pos s' = (pos s1 + n) mod length (members s1)" by blast
  have "map (\<lambda>i. members s ! ((pos s + i) mod length (members s))) [0..<Suc n] =
      members s ! (pos s mod length (members s)) #
      map (\<lambda>i. members s ! ((pos s + Suc i) mod length (members s))) [0..<n]"
    by (simp add: upt_conv_Cons map_Suc_upt [symmetric] del: upt_Suc)
  with s1 s' pos_law [OF Suc.prems] show ?case by (simp add: mod_add_left_eq)
qed

lemma pickMany_members:
  assumes "inv s"
  shows "\<exists>Ls s'. pickMany pick n s = Inr (Ls, s') \<and> set Ls \<subseteq> set (members s)"
proof -
  from pos_law [OF assms] have "0 < length (members s)" by linarith
  then have "set (map (\<lambda>i. members s ! ((pos s + i) mod length (members s))) [0..<n]) \<subseteq> set (members s)"
    by auto
  with pickMany_rotates [OF assms, of n] show ?thesis by blast
qed

text \<open>One whole turn hands out every member once.\<close>

lemma pickMany_fair:
  assumes "inv s"
  shows "\<exists>Ls s'. pickMany pick (length (members s)) s = Inr (Ls, s') \<and>
    Ls = rotate (pos s) (members s) \<and> inv s' \<and> members s' = members s \<and> pos s' = pos s"
proof -
  let ?n = "length (members s)"
  have "map (\<lambda>i. members s ! ((pos s + i) mod ?n)) [0..<?n] = rotate (pos s) (members s)"
    by (rule nth_equalityI) (simp_all add: nth_rotate)
  with pickMany_rotates [OF assms, of ?n] pos_law [OF assms] show ?thesis by auto
qed

end

section \<open>The code provides it\<close>

definition pool_ok :: "pool \<Rightarrow> bool" where
  "pool_ok p \<longleftrightarrow> 0 \<le> nextIdx p \<and> nextIdx p < int (length (getAllLoops p))"

lemma getNextLoop_law:
  assumes "pool_ok p"
  shows "\<exists>p'. getNextLoop p = Inr (getAllLoops p ! nat (nextIdx p), p') \<and> pool_ok p' \<and>
    getAllLoops p' = getAllLoops p \<and> nat (nextIdx p') = Suc (nat (nextIdx p)) mod length (getAllLoops p)"
proof (cases "poolLoops p = []")
  case True
  with assms show ?thesis by (simp add: getNextLoop_def getAllLoops_def pool_ok_def)
next
  case False
  show ?thesis
  proof (cases "int (length (poolLoops p)) \<le> nextIdx p + 1")
    case True
    with False assms have "nextIdx p + 1 = int (length (poolLoops p))"
      by (simp add: pool_ok_def getAllLoops_def)
    then have "Suc (nat (nextIdx p)) = length (poolLoops p)" using assms unfolding pool_ok_def by linarith
    with True False assms show ?thesis
      by (simp add: getNextLoop_def getAllLoops_def pool_ok_def Let_def)
  next
    case less: False
    then have "Suc (nat (nextIdx p)) < length (poolLoops p)" using assms unfolding pool_ok_def by linarith
    with less False assms show ?thesis
      by (simp add: getNextLoop_def getAllLoops_def pool_ok_def Let_def nat_add_distrib)
  qed
qed

interpretation poolc: loop_chooser pool_ok getNextLoop getAllLoops "\<lambda>p. nat (nextIdx p)"
proof unfold_locales
  fix s
  assume ok: "pool_ok s"
  then show "\<exists>s'. getNextLoop s = Inr (getAllLoops s ! nat (nextIdx s), s') \<and> pool_ok s' \<and>
      getAllLoops s' = getAllLoops s \<and> nat (nextIdx s') = Suc (nat (nextIdx s)) mod length (getAllLoops s)"
    by (rule getNextLoop_law)
  from ok show "nat (nextIdx s) < length (getAllLoops s)"
    unfolding pool_ok_def by linarith
qed

lemma startThreads_pool:
  "startThreads startLoop n i p w = Inr (p', w') \<Longrightarrow>
   length (poolLoops p') = length (poolLoops p) + n \<and> nextIdx p' = nextIdx p \<and> numThreads p' = numThreads p \<and>
   baseLoop p' = baseLoop p \<and> poolStarted p' = poolStarted p"
  by (induction startLoop n i p w rule: startThreads.induct) (auto simp: bind_res_Inr_iff)

lemma poolStart_pool:
  assumes "poolStart startLoop cb p w = Inr (p', w')"
  shows "length (poolLoops p') = length (poolLoops p) + nat (numThreads p) \<and> nextIdx p' = nextIdx p \<and>
    baseLoop p' = baseLoop p \<and> poolStarted p'"
  using assms
  by (auto simp: poolStart_def bind_res_Inr_iff dest!: startThreads_pool split: if_splits option.splits)

section \<open>Properties\<close>

text \<open>
  C20: \<^verbatim>\<open>getNextLoop\<close> never indexes out of range, and goes round: asked as often as there
  are loops, starting anywhere, it returns each of them exactly once, in order from where it
  stood, and is back where it started. Without worker threads it always returns the base
  loop.
\<close>

theorem getNextLoop_round_robin:
  assumes "pool_ok p"
  shows "\<exists>p'. pickMany getNextLoop (length (getAllLoops p)) p = Inr (rotate (nat (nextIdx p)) (getAllLoops p), p') \<and>
    pool_ok p' \<and> getAllLoops p' = getAllLoops p \<and> nat (nextIdx p') = nat (nextIdx p)"
  using poolc.pickMany_fair [OF assms] by blast

theorem getNextLoop_round_robin_witness:
  "\<exists>p'. pickMany getNextLoop 3 ((newPool 0 ''p'')\<lparr>poolLoops := [7, 8, 9], nextIdx := 1\<rparr>) = Inr ([8, 9, 7], p')"
proof -
  let ?p = "(newPool 0 ''p'')\<lparr>poolLoops := [7, 8, 9], nextIdx := 1\<rparr>"
  have "pool_ok ?p" by (simp add: pool_ok_def getAllLoops_def)
  moreover have "length (getAllLoops ?p) = 3" "rotate (nat (nextIdx ?p)) (getAllLoops ?p) = [8, 9, 7]"
    by (simp_all add: getAllLoops_def rotate_def)
  ultimately show ?thesis using getNextLoop_round_robin [of ?p] by auto
qed

text \<open>
  A pool that has just been made and started has one loop for every thread asked for
  (none for a negative number), all of them returned by \<^verbatim>\<open>getAllLoops\<close>, and hands out
  loops without fault from then on.
\<close>

theorem started_pool_ok:
  assumes "poolStart startLoop cb (setThreadNum n (newPool base nm)) w = Inr (p', w')"
  shows "pool_ok p' \<and> length (poolLoops p') = nat n \<and> poolStarted p' \<and>
    (\<forall>k. \<exists>Ls p''. pickMany getNextLoop k p' = Inr (Ls, p'') \<and> set Ls \<subseteq> set (getAllLoops p'))"
proof -
  from poolStart_pool [OF assms] have p': "length (poolLoops p') = nat n" "nextIdx p' = 0" "poolStarted p'"
    by (simp_all add: newPool_def setThreadNum_def)
  have "getAllLoops p' \<noteq> []" by (simp add: getAllLoops_def)
  with p'(2) have ok: "pool_ok p'" by (simp add: pool_ok_def)
  have "\<exists>Ls p''. pickMany getNextLoop k p' = Inr (Ls, p'') \<and> set Ls \<subseteq> set (getAllLoops p')" for k
    by (rule poolc.pickMany_members [OF ok])
  with p' ok show ?thesis by blast
qed

theorem started_pool_ok_witness:
  "\<exists>p'. poolStart (\<lambda>nm w. Inr (w, Suc w)) None (setThreadNum 3 (newPool 0 ''echo'')) 5 = Inr (p', 8) \<and>
    pool_ok p' \<and> poolLoops p' = [5, 6, 7]"
proof -
  obtain p' where r: "poolStart (\<lambda>nm w. Inr (w, Suc w)) None (setThreadNum 3 (newPool 0 ''echo'')) 5 = Inr (p', 8)"
      "poolLoops p' = [5, 6, 7]"
    by (simp add: poolStart_def setThreadNum_def newPool_def eval_nat_numeral)
  from started_pool_ok [OF r(1)] r show ?thesis by blast
qed

end
