(* ===== verification/Threads.thy ===== *)
theory Threads
  imports LoopPool EventLoop
begin

text \<open>
  \<^verbatim>\<open>class Thread\<close> and \<^verbatim>\<open>class EventLoopThread\<close> (\<^verbatim>\<open>MyMuduo/Thread.h\<close>, \<^verbatim>\<open>Thread.cc\<close>,
  \<^verbatim>\<open>EventLoopThread.h\<close>, \<^verbatim>\<open>EventLoopThread.cc\<close>) and the thread identifiers of
  \<^verbatim>\<open>CurrentThread\<close>. The first part is the data and the sequential effect of the calls;
  the second is the handshake between the thread that calls \<^verbatim>\<open>startLoop\<close> and the thread
  it starts, as a step relation.
\<close>

section \<open>CurrentThread\<close>

text \<open>
  The cached identifier of the calling thread, 0 while there is none; \<open>gettid\<close> is the
  system call. \<^verbatim>\<open>tid()\<close> returns the identifier and the cache.
\<close>

definition cacheTid :: "int \<Rightarrow> int \<Rightarrow> int" where
  "cacheTid gettid cached = (if cached = 0 then gettid else cached)"

definition tid :: "int \<Rightarrow> int \<Rightarrow> int \<times> int" where
  "tid gettid cached = (let cached = (if cached = 0 then cacheTid gettid cached else cached) in (cached, cached))"

lemma tid_idem:
  assumes "tid gettid cached = (i, cached')" and "cached = 0 \<or> cached = gettid"
  shows "i = gettid \<and> tid gettid cached' = (gettid, gettid)"
  using assms by (auto simp: tid_def cacheTid_def split: if_splits)

section \<open>Thread\<close>

record cthread =
  thStarted :: bool
  thJoined :: bool
  thDetached :: bool
  thTid :: int
  thName :: string

text \<open>\<^verbatim>\<open>setDefaultName\<close>: the global count goes up in any case.\<close>

definition setDefaultName :: "int \<Rightarrow> string \<Rightarrow> string \<times> int" where
  "setDefaultName numCreated nm =
     (let num = numCreated + 1
      in (if nm = [] then snprintf 32 (''Thread'' @ decimalInt num) else nm, num))"

definition newThread :: "string \<Rightarrow> int \<Rightarrow> cthread \<times> int" where
  "newThread nm numCreated =
     (let (nm, num) = setDefaultName numCreated nm
      in (\<lparr>thStarted = False, thJoined = False, thDetached = False, thTid = 0, thName = nm\<rparr>, num))"

text \<open>\<^verbatim>\<open>start\<close> returns when the new thread, whose identifier is \<open>i\<close>, has posted the semaphore.\<close>

definition threadStart :: "int \<Rightarrow> cthread \<Rightarrow> cthread" where
  "threadStart i th = th\<lparr>thStarted := True, thTid := i\<rparr>"

text \<open>\<^verbatim>\<open>join\<close> on a thread never started goes through a null pointer.\<close>

definition threadJoin :: "cthread \<Rightarrow> fault + cthread" where
  "threadJoin th = (if thStarted th then Inr (th\<lparr>thJoined := True\<rparr>) else Inl NullDeref)"

definition destroyThread :: "cthread \<Rightarrow> cthread" where
  "destroyThread th = (if thStarted th \<and> \<not> thJoined th then th\<lparr>thDetached := True\<rparr> else th)"

section \<open>EventLoopThread\<close>

text \<open>
  What \<^verbatim>\<open>startLoop\<close> amounts to once the handshake below is over: in thread \<open>t\<close> a new event
  loop \<open>L\<close> exists, the initialisation callback has run on it, and its address is returned.
\<close>

definition threadFunc :: "kernel \<Rightarrow> bool \<Rightarrow> int \<Rightarrow> int \<Rightarrow> (nat \<Rightarrow> 'a lworld_scheme \<Rightarrow> fault + 'a lworld_scheme) option \<Rightarrow>
    nat \<Rightarrow> nat \<Rightarrow> nat \<Rightarrow> 'a lworld_scheme \<Rightarrow> fault + 'a lworld_scheme" where
  "threadFunc K muduoUsePoll epollfd wakeupFd callback t L c w =
     bind_res (newEventLoop K muduoUsePoll epollfd wakeupFd t L c w) (\<lambda>w.
     case callback of None \<Rightarrow> Inr w | Some f \<Rightarrow> f L w)"

definition startLoop :: "kernel \<Rightarrow> bool \<Rightarrow> int \<Rightarrow> int \<Rightarrow> (nat \<Rightarrow> 'a lworld_scheme \<Rightarrow> fault + 'a lworld_scheme) option \<Rightarrow>
    nat \<Rightarrow> nat \<Rightarrow> nat \<Rightarrow> 'a lworld_scheme \<Rightarrow> fault + (nat \<times> 'a lworld_scheme)" where
  "startLoop K muduoUsePoll epollfd wakeupFd callback t L c w =
     bind_res (threadFunc K muduoUsePoll epollfd wakeupFd callback t L c w) (\<lambda>w. Inr (L, w))"

section \<open>The handshake\<close>

text \<open>
  The parent runs \<^verbatim>\<open>startLoop\<close>: it creates the thread, waits for the semaphore, then takes
  the mutex and tests \<^verbatim>\<open>loop_\<close>, waiting on the condition while it is null. The child sets
  \<^verbatim>\<open>tid_\<close>, posts the semaphore, builds its loop, runs the callback, publishes the loop
  under the mutex, runs it, and clears \<^verbatim>\<open>loop_\<close> under the mutex when the loop ends. A
  waiting parent may also wake for no reason.
\<close>

datatype parent = PIdle | PSem | PTest | PWait | PDone nat

datatype child = CUnborn | CBorn | CTidSet | CPosted | CBuilt | CReady | CLooping | CGone

record hs =
  parent :: parent
  child :: child
  sem :: nat
  tidSet :: bool
  loopPtr :: "nat option"
  callbackRan :: bool
  notified :: bool

definition hs_init :: hs where
  "hs_init = \<lparr>parent = PIdle, child = CUnborn, sem = 0, tidSet = False, loopPtr = None, callbackRan = False, notified = False\<rparr>"

inductive hs_step :: "nat \<Rightarrow> hs \<Rightarrow> hs \<Rightarrow> bool" for L :: nat where
  create: "parent s = PIdle \<Longrightarrow> hs_step L s (s\<lparr>parent := PSem, child := CBorn\<rparr>)"
| set_tid: "child s = CBorn \<Longrightarrow> hs_step L s (s\<lparr>child := CTidSet, tidSet := True\<rparr>)"
| post: "child s = CTidSet \<Longrightarrow> hs_step L s (s\<lparr>child := CPosted, sem := Suc (sem s)\<rparr>)"
| sem_wait: "parent s = PSem \<Longrightarrow> 0 < sem s \<Longrightarrow> hs_step L s (s\<lparr>parent := PTest, sem := sem s - 1\<rparr>)"
| build: "child s = CPosted \<Longrightarrow> hs_step L s (s\<lparr>child := CBuilt\<rparr>)"
| callback: "child s = CBuilt \<Longrightarrow> hs_step L s (s\<lparr>child := CReady, callbackRan := True\<rparr>)"
| publish: "child s = CReady \<Longrightarrow> hs_step L s (s\<lparr>child := CLooping, loopPtr := Some L, notified := (parent s = PWait)\<rparr>)"
| see_loop: "parent s = PTest \<Longrightarrow> loopPtr s = Some L' \<Longrightarrow> hs_step L s (s\<lparr>parent := PDone L'\<rparr>)"
| see_null: "parent s = PTest \<Longrightarrow> loopPtr s = None \<Longrightarrow> hs_step L s (s\<lparr>parent := PWait, notified := False\<rparr>)"
| wake: "parent s = PWait \<Longrightarrow> notified s \<Longrightarrow> hs_step L s (s\<lparr>parent := PTest, notified := False\<rparr>)"
| spurious: "parent s = PWait \<Longrightarrow> hs_step L s (s\<lparr>parent := PTest, notified := False\<rparr>)"
| loop_ends: "child s = CLooping \<Longrightarrow> hs_step L s (s\<lparr>child := CGone, loopPtr := None\<rparr>)"

inductive hs_reachable :: "nat \<Rightarrow> hs \<Rightarrow> bool" for L :: nat where
  start: "hs_reachable L hs_init"
| step: "hs_reachable L s \<Longrightarrow> hs_step L s s' \<Longrightarrow> hs_reachable L s'"

inductive_cases hs_stepE: "hs_step L s s'"

definition hs_inv :: "nat \<Rightarrow> hs \<Rightarrow> bool" where
  "hs_inv L s \<longleftrightarrow>
     (loopPtr s = (if child s = CLooping then Some L else None)) \<and>
     (child s \<in> {CTidSet, CPosted, CBuilt, CReady, CLooping, CGone} \<longleftrightarrow> tidSet s) \<and>
     (child s \<in> {CReady, CLooping, CGone} \<longleftrightarrow> callbackRan s) \<and>
     (parent s = PIdle \<longleftrightarrow> child s = CUnborn) \<and>
     (sem s = (if parent s = PSem \<and> child s \<notin> {CBorn, CTidSet} then 1 else 0)) \<and>
     (child s \<in> {CBorn, CTidSet} \<longrightarrow> parent s = PSem) \<and>
     (parent s = PWait \<longrightarrow> child s = CLooping \<longrightarrow> notified s) \<and>
     (\<forall>L'. parent s = PDone L' \<longrightarrow> L' = L \<and> child s \<in> {CLooping, CGone})"

lemma hs_inv_step: "hs_step L s s' \<Longrightarrow> hs_inv L s \<Longrightarrow> hs_inv L s'"
  by (induction rule: hs_step.induct) (auto simp: hs_inv_def split: if_splits)

lemma hs_inv_init: "hs_inv L hs_init"
  by (simp add: hs_inv_def hs_init_def)

lemma hs_inv_reachable: "hs_reachable L s \<Longrightarrow> hs_inv L s"
  by (induction rule: hs_reachable.induct) (blast intro: hs_inv_init hs_inv_step)+

section \<open>Properties\<close>

text \<open>
  When \<^verbatim>\<open>startLoop\<close> returns, in any interleaving, it returns the loop of the new
  thread, whose identifier is set and on which the initialisation callback has already
  run.
\<close>

theorem startLoop_returns_ready_loop:
  assumes "hs_reachable L s" and "parent s = PDone L'"
  shows "L' = L \<and> tidSet s \<and> callbackRan s"
  using hs_inv_reachable [OF assms(1)] assms(2) by (auto simp: hs_inv_def)

text \<open>A run of the machine in which every step is possible.\<close>

fun hs_path :: "nat \<Rightarrow> hs list \<Rightarrow> bool" where
  "hs_path L [] \<longleftrightarrow> True"
| "hs_path L [s] \<longleftrightarrow> hs_reachable L s"
| "hs_path L (s' # s # ss) \<longleftrightarrow> hs_step L s s' \<and> hs_path L (s # ss)"

lemma hs_path_reachable: "hs_path L (s # ss) \<Longrightarrow> hs_reachable L s"
  by (induction ss arbitrary: s) (auto intro: hs_reachable.step)

definition hsAt :: "parent \<Rightarrow> child \<Rightarrow> nat \<Rightarrow> nat option \<Rightarrow> bool \<Rightarrow> hs" where
  "hsAt p c n ptr note = \<lparr>parent = p, child = c, sem = n, tidSet = (c \<notin> {CUnborn, CBorn}), loopPtr = ptr,
     callbackRan = (c \<in> {CReady, CLooping, CGone}), notified = note\<rparr>"

lemma hs_waiting_reachable: "hs_reachable L (hsAt PWait CReady 0 None False)"
proof (rule hs_path_reachable)
  show "hs_path L [hsAt PWait CReady 0 None False, hsAt PWait CBuilt 0 None False, hsAt PWait CPosted 0 None False,
      hsAt PTest CPosted 0 None False, hsAt PSem CPosted 1 None False, hsAt PSem CTidSet 0 None False,
      hsAt PSem CBorn 0 None False, hs_init]"
    by (simp add: hs_reachable.start) (simp add: hsAt_def hs_init_def hs_step.simps)
qed

theorem startLoop_returns_ready_loop_witness: "callbackRan (hsAt (PDone 7) CLooping 0 (Some 7) False)"
proof -
  have "hs_step 7 (hsAt PWait CReady 0 None False) (hsAt PWait CLooping 0 (Some 7) True)"
    "hs_step 7 (hsAt PWait CLooping 0 (Some 7) True) (hsAt PTest CLooping 0 (Some 7) False)"
    "hs_step 7 (hsAt PTest CLooping 0 (Some 7) False) (hsAt (PDone 7) CLooping 0 (Some 7) False)"
    by (auto simp: hsAt_def hs_step.simps)
  with hs_waiting_reachable [of 7] have r: "hs_reachable 7 (hsAt (PDone 7) CLooping 0 (Some 7) False)"
    by (blast intro: hs_reachable.step)
  have "parent (hsAt (PDone 7) CLooping 0 (Some 7) False) = PDone 7" by (simp add: hsAt_def)
  from startLoop_returns_ready_loop [OF r this] show ?thesis by simp
qed

text \<open>Once the loop has ended unseen, nothing the two threads can still do makes the parent return.\<close>

definition hs_missed :: "hs \<Rightarrow> bool" where
  "hs_missed s \<longleftrightarrow> parent s \<in> {PTest, PWait} \<and> child s = CGone \<and> loopPtr s = None"

lemma hs_missed_step: "hs_step L s s' \<Longrightarrow> hs_missed s \<Longrightarrow> hs_missed s'"
  by (elim hs_stepE) (auto simp: hs_missed_def)

lemma hs_missed_steps: "(hs_step L)\<^sup>*\<^sup>* s s' \<Longrightarrow> hs_missed s \<Longrightarrow> hs_missed s'"
  by (induction rule: rtranclp_induct) (auto intro: hs_missed_step)

text \<open>
  C18: The handshake does not lose the notification: whenever the parent sleeps while the
  loop is published, it has been notified. But \<^verbatim>\<open>startLoop\<close> can wait for ever: if the loop ends
  before the parent has tested \<^verbatim>\<open>loop_\<close> again, a state is reached in which the parent sleeps,
  the only step left is a spurious wakeup, and no run that follows, however many of these it
  has, makes \<^verbatim>\<open>startLoop\<close> return.
\<close>

theorem startLoop_notified_or_stuck:
  "(hs_reachable L s \<and> parent s = PWait \<and> loopPtr s \<noteq> None \<longrightarrow> notified s) \<and>
   (\<exists>s. hs_reachable L s \<and> parent s = PWait \<and>
      (\<forall>s'. hs_step L s s' \<longrightarrow> s' = s\<lparr>parent := PTest, notified := False\<rparr>) \<and>
      (\<forall>s'. (hs_step L)\<^sup>*\<^sup>* s s' \<longrightarrow> (\<forall>L'. parent s' \<noteq> PDone L')))"
proof -
  have "notified s" if "hs_reachable L s" "parent s = PWait" "loopPtr s \<noteq> None"
    using hs_inv_reachable [OF that(1)] that(2,3) by (auto simp: hs_inv_def split: if_splits)
  moreover
  let ?s = "hsAt PWait CGone 0 None False"
  have "hs_step L (hsAt PWait CReady 0 None False) (hsAt PWait CLooping 0 (Some L) True)"
    "hs_step L (hsAt PWait CLooping 0 (Some L) True) (hsAt PWait CGone 0 None True)"
    "hs_step L (hsAt PWait CGone 0 None True) (hsAt PTest CGone 0 None False)"
    "hs_step L (hsAt PTest CGone 0 None False) ?s"
    by (auto simp: hsAt_def hs_step.simps)
  then have "hs_reachable L ?s"
    using hs_waiting_reachable [of L] by (blast intro: hs_reachable.step)
  moreover have "parent ?s = PWait" "hs_missed ?s" by (simp_all add: hsAt_def hs_missed_def)
  moreover have "s' = ?s\<lparr>parent := PTest, notified := False\<rparr>" if "hs_step L ?s s'" for s'
    using that by (elim hs_stepE) (simp_all add: hsAt_def)
  moreover have "parent s' \<noteq> PDone L'" if "(hs_step L)\<^sup>*\<^sup>* ?s s'" for s' L'
    using hs_missed_steps [OF that \<open>hs_missed ?s\<close>] by (auto simp: hs_missed_def)
  ultimately show ?thesis by blast
qed

theorem startLoop_notified_or_stuck_witness:
  "\<exists>s. hs_reachable 7 s \<and> (\<forall>s'. (hs_step 7)\<^sup>*\<^sup>* s s' \<longrightarrow> parent s' \<noteq> PDone 7)"
  using startLoop_notified_or_stuck [of 7 hs_init] by blast

end
