(* ===== verification/ThreadEnd.thy ===== *)
theory ThreadEnd
  imports Threads
begin

text \<open>
  The end of an \<^verbatim>\<open>EventLoopThread\<close>: its destructor in the owner's thread against the last
  lines of \<^verbatim>\<open>threadFunc\<close> in the other, from the moment \<^verbatim>\<open>startLoop\<close> has returned. The
  destructor reads \<^verbatim>\<open>loop_\<close> twice, without the mutex; \<^verbatim>\<open>loop()\<close> sets \<^verbatim>\<open>quit_\<close> to false
  when it starts.
\<close>

section \<open>The state\<close>

text \<open>
  The owner: before the destructor, after the test of \<^verbatim>\<open>loop_\<close>, in \<^verbatim>\<open>quit()\<close> with
  \<^verbatim>\<open>quit_\<close> set and about to wake the loop, in \<^verbatim>\<open>join\<close>, or done, with the members gone.
  The thread: its loop published, running, left, \<^verbatim>\<open>loop_\<close> cleared under the mutex, the mutex
  released, or ended, and the loop on its stack with it. \<open>NullFault\<close> is a call through null,
  \<open>DeadFault\<close> one on a loop that is gone, \<open>ThreadFault\<close> the use of a member that is gone.
\<close>

datatype owner = Alive | Tested | Waking | Joining | Destroyed | NullFault | DeadFault

datatype thread_at = Published | Looping | Returned | Cleared | Released | Ended | ThreadFault

record te =
  te_owner :: owner
  te_thread :: thread_at
  te_ptr :: bool
  te_quit :: bool

definition te_init :: te where
  "te_init = \<lparr>te_owner = Alive, te_thread = Published, te_ptr = True, te_quit = False\<rparr>"

section \<open>The steps\<close>

text \<open>\<^verbatim>\<open>~EventLoopThread\<close>, with the two halves of \<^verbatim>\<open>EventLoop::quit\<close>.\<close>

inductive dtor_step :: "te \<Rightarrow> te \<Rightarrow> bool" where
  test_loop: "te_owner s = Alive \<Longrightarrow> te_ptr s \<Longrightarrow> dtor_step s (s\<lparr>te_owner := Tested\<rparr>)"
| test_null: "te_owner s = Alive \<Longrightarrow> \<not> te_ptr s \<Longrightarrow> dtor_step s (s\<lparr>te_owner := Destroyed\<rparr>)"
| quit: "te_owner s = Tested \<Longrightarrow> te_ptr s \<Longrightarrow> dtor_step s (s\<lparr>te_owner := Waking, te_quit := True\<rparr>)"
| quit_null: "te_owner s = Tested \<Longrightarrow> \<not> te_ptr s \<Longrightarrow> dtor_step s (s\<lparr>te_owner := NullFault\<rparr>)"
| wake: "te_owner s = Waking \<Longrightarrow> te_thread s \<noteq> Ended \<Longrightarrow> dtor_step s (s\<lparr>te_owner := Joining\<rparr>)"
| wake_dead: "te_owner s = Waking \<Longrightarrow> te_thread s = Ended \<Longrightarrow> dtor_step s (s\<lparr>te_owner := DeadFault\<rparr>)"
| join: "te_owner s = Joining \<Longrightarrow> te_thread s = Ended \<Longrightarrow> dtor_step s (s\<lparr>te_owner := Destroyed\<rparr>)"

text \<open>
  \<^verbatim>\<open>threadFunc\<close> from \<^verbatim>\<open>loop.loop()\<close> on: it clears \<^verbatim>\<open>loop_\<close>, a member, and the
  destructor of its lock uses the mutex, another.
\<close>

inductive func_step :: "te \<Rightarrow> te \<Rightarrow> bool" where
  enter: "te_thread s = Published \<Longrightarrow> func_step s (s\<lparr>te_thread := Looping, te_quit := False\<rparr>)"
| leave: "te_thread s = Looping \<Longrightarrow> te_quit s \<Longrightarrow> func_step s (s\<lparr>te_thread := Returned\<rparr>)"
| clear: "te_thread s = Returned \<Longrightarrow> te_owner s \<noteq> Destroyed \<Longrightarrow> func_step s (s\<lparr>te_thread := Cleared, te_ptr := False\<rparr>)"
| clear_dead: "te_thread s = Returned \<Longrightarrow> te_owner s = Destroyed \<Longrightarrow> func_step s (s\<lparr>te_thread := ThreadFault\<rparr>)"
| release: "te_thread s = Cleared \<Longrightarrow> te_owner s \<noteq> Destroyed \<Longrightarrow> func_step s (s\<lparr>te_thread := Released\<rparr>)"
| release_dead: "te_thread s = Cleared \<Longrightarrow> te_owner s = Destroyed \<Longrightarrow> func_step s (s\<lparr>te_thread := ThreadFault\<rparr>)"
| finish: "te_thread s = Released \<Longrightarrow> func_step s (s\<lparr>te_thread := Ended\<rparr>)"

text \<open>With \<open>others\<close>, somebody else may call \<^verbatim>\<open>quit()\<close> on the loop too.\<close>

inductive te_step :: "bool \<Rightarrow> te \<Rightarrow> te \<Rightarrow> bool" for others where
  dtor: "dtor_step s s' \<Longrightarrow> te_step others s s'"
| func: "func_step s s' \<Longrightarrow> te_step others s s'"
| other_quit: "others \<Longrightarrow> te_thread s = Looping \<Longrightarrow> te_step others s (s\<lparr>te_quit := True\<rparr>)"

inductive te_reaches :: "bool \<Rightarrow> te \<Rightarrow> bool" for others where
  start: "te_reaches others te_init"
| step: "te_reaches others s \<Longrightarrow> te_step others s s' \<Longrightarrow> te_reaches others s'"

inductive_simps dtor_step_simps: "dtor_step s s'"
inductive_simps func_step_simps: "func_step s s'"
inductive_simps te_step_simps: "te_step others s s'"

section \<open>The invariant\<close>

definition te_inv :: "te \<Rightarrow> bool" where
  "te_inv s \<longleftrightarrow>
     te_owner s \<noteq> NullFault \<and> te_thread s \<noteq> ThreadFault \<and>
     (te_quit s \<longrightarrow> te_owner s \<notin> {Alive, Tested}) \<and>
     (te_thread s \<in> {Returned, Cleared, Released, Ended} \<longrightarrow> te_owner s \<notin> {Alive, Tested}) \<and>
     (te_owner s = Destroyed \<longrightarrow> te_thread s = Ended) \<and>
     (te_ptr s \<longleftrightarrow> te_thread s \<in> {Published, Looping, Returned})"

lemma te_inv_step:
  assumes "te_step False s s'" "te_inv s"
  shows "te_inv s'"
proof -
  from assms(1) consider "dtor_step s s'" | "func_step s s'" by (auto simp: te_step_simps)
  then show ?thesis
  proof cases
    case 1
    then show ?thesis using assms(2) by cases (cases "te_thread s"; auto simp: te_inv_def)+
  next
    case 2
    then show ?thesis using assms(2) by cases (auto simp: te_inv_def)
  qed
qed

lemma te_inv_reaches: "te_reaches False s \<Longrightarrow> te_inv s"
proof (induction rule: te_reaches.induct)
  case start
  show ?case by (simp add: te_inv_def te_init_def)
next
  case (step s s')
  then show ?case using te_inv_step by blast
qed

text \<open>Runs, as lists of states, the last first.\<close>

fun te_path :: "bool \<Rightarrow> te list \<Rightarrow> bool" where
  "te_path others [] \<longleftrightarrow> False"
| "te_path others [s] \<longleftrightarrow> s = te_init"
| "te_path others (s' # s # ss) \<longleftrightarrow> te_step others s s' \<and> te_path others (s # ss)"

lemma te_path_reaches: "te_path others (s # ss) \<Longrightarrow> te_reaches others s"
  by (induction ss arbitrary: s) (auto intro: te_reaches.intros)

definition teAt :: "owner \<Rightarrow> thread_at \<Rightarrow> bool \<Rightarrow> bool \<Rightarrow> te" where
  "teAt ow th p q = \<lparr>te_owner = ow, te_thread = th, te_ptr = p, te_quit = q\<rparr>"

lemmas te_runs = teAt_def te_init_def te_step_simps dtor_step_simps func_step_simps

section \<open>The property\<close>

text \<open>
  C19: What destroying an \<^verbatim>\<open>EventLoopThread\<close> can go wrong in. If nobody but the destructor
  quits the loop, no interleaving calls through null or uses a dead member in the thread, and when
  the destructor is through, the thread has ended; but the loop may see \<^verbatim>\<open>quit_\<close>, end and be
  gone before \<^verbatim>\<open>quit()\<close> gets to waking it. If the loop can be quit elsewhere, it can also end
  between the destructor's two reads of \<^verbatim>\<open>loop_\<close>, which then calls \<^verbatim>\<open>quit()\<close> through
  null, or just before the first, and the thread then releases a mutex that is gone. And in either
  case a \<^verbatim>\<open>quit()\<close> that comes before the loop has started is lost, and the destructor waits
  in \<^verbatim>\<open>join\<close> for a loop that never ends.
\<close>

theorem thread_end_races:
  "(te_reaches False s \<longrightarrow> te_owner s \<noteq> NullFault \<and> te_thread s \<noteq> ThreadFault \<and> (te_owner s = Destroyed \<longrightarrow> te_thread s = Ended)) \<and>
   (\<exists>s. te_reaches False s \<and> te_owner s = DeadFault) \<and>
   (\<exists>s. te_reaches True s \<and> te_owner s = NullFault) \<and> (\<exists>s. te_reaches True s \<and> te_thread s = ThreadFault) \<and>
   (\<exists>s. te_reaches False s \<and> te_owner s = Joining \<and> (\<forall>s'. \<not> te_step False s s'))"
proof (intro conjI)
  show "te_reaches False s \<longrightarrow> te_owner s \<noteq> NullFault \<and> te_thread s \<noteq> ThreadFault \<and> (te_owner s = Destroyed \<longrightarrow> te_thread s = Ended)"
    using te_inv_reaches [of s] by (simp add: te_inv_def)
next
  have "te_path False [teAt DeadFault Ended False True, teAt Waking Ended False True, teAt Waking Released False True,
      teAt Waking Cleared False True, teAt Waking Returned True True, teAt Waking Looping True True, teAt Tested Looping True False,
      teAt Alive Looping True False, te_init]"
    by (simp add: te_runs)
  from te_path_reaches [OF this] show "\<exists>s. te_reaches False s \<and> te_owner s = DeadFault" by (auto simp: teAt_def)
next
  have "te_path True [teAt NullFault Cleared False True, teAt Tested Cleared False True, teAt Tested Returned True True,
      teAt Tested Looping True True, teAt Tested Looping True False, teAt Alive Looping True False, te_init]"
    by (simp add: te_runs)
  from te_path_reaches [OF this] show "\<exists>s. te_reaches True s \<and> te_owner s = NullFault" by (auto simp: teAt_def)
next
  have "te_path True [teAt Destroyed ThreadFault False True, teAt Destroyed Cleared False True, teAt Alive Cleared False True,
      teAt Alive Returned True True, teAt Alive Looping True True, teAt Alive Looping True False, te_init]"
    by (simp add: te_runs)
  from te_path_reaches [OF this] show "\<exists>s. te_reaches True s \<and> te_thread s = ThreadFault" by (auto simp: teAt_def)
next
  have "te_path False [teAt Joining Looping True False, teAt Joining Published True True, teAt Waking Published True True,
      teAt Tested Published True False, te_init]"
    by (simp add: te_runs)
  from te_path_reaches [OF this]
  show "\<exists>s. te_reaches False s \<and> te_owner s = Joining \<and> (\<forall>s'. \<not> te_step False s s')"
    by (intro exI [of _ "teAt Joining Looping True False"]) (simp add: te_runs)
qed

theorem thread_end_races_witness:
  "te_reaches False (teAt Destroyed Ended False True) \<and> te_thread (teAt Destroyed Ended False True) = Ended"
proof -
  have "te_path False [teAt Destroyed Ended False True, teAt Joining Ended False True, teAt Joining Released False True,
      teAt Joining Cleared False True, teAt Joining Returned True True, teAt Joining Looping True True, teAt Waking Looping True True,
      teAt Tested Looping True False, teAt Alive Looping True False, te_init]"
    by (simp add: te_runs)
  from te_path_reaches [OF this] have r: "te_reaches False (teAt Destroyed Ended False True)" .
  moreover have "te_owner (teAt Destroyed Ended False True) = Destroyed" by (simp add: teAt_def)
  ultimately show ?thesis using thread_end_races [of "teAt Destroyed Ended False True"] by blast
qed

end
