(* ===== verification/TcpServer.thy ===== *)
theory TcpServer
  imports ConnLife Acceptor Threads
begin

text \<open>
  \<^verbatim>\<open>class TcpServer\<close> of \<^verbatim>\<open>MyMuduo/TcpServer.h\<close> and \<^verbatim>\<open>MyMuduo/TcpServer.cc\<close>, and how the
  queued functors and the reported channels of its loops reach the code. The world gets the
  server and the next free address for connections, channels and loops. When the last
  owner of a connection lets go is not modelled: \<^verbatim>\<open>~TcpConnection\<close> is a step of its own.
\<close>

section \<open>State\<close>

record tcpserver =
  srvLoop :: nat
  srvIpPort :: string
  srvName :: string
  srvAcceptor :: acceptor
  srvPool :: pool
  srvConnectionSet :: bool
  srvMessageSet :: bool
  srvWriteCompleteSet :: bool
  threadInitSet :: bool
  started :: "32 word"
  nextConnId :: int
  connections :: "string \<Rightarrow> nat option"

record sworld = cworld +
  server :: tcpserver
  fresh :: nat

definition setServer :: "(tcpserver \<Rightarrow> tcpserver) \<Rightarrow> 'a sworld_scheme \<Rightarrow> 'a sworld_scheme" where
  "setServer f w = w\<lparr>server := f (server w)\<rparr>"

section \<open>The code\<close>

definition newTcpServer :: "kernel \<Rightarrow> nat option \<Rightarrow> inetaddr \<Rightarrow> string \<Rightarrow> bool \<Rightarrow> nat \<Rightarrow> 'a sworld_scheme \<Rightarrow> fault + 'a sworld_scheme" where
  "newTcpServer K loop listenAddr nameArg reusePort ch w =
     (case loop of
        None \<Rightarrow> Inl ExitFailure
      | Some L \<Rightarrow>
          bind_res (toIpPort listenAddr) (\<lambda>ipPort.
          bind_res (newAcceptor K L listenAddr reusePort ch w) (\<lambda>(a, w).
          Inr (w\<lparr>server := \<lparr>srvLoop = L, srvIpPort = ipPort, srvName = nameArg,
                   srvAcceptor = setNewConnectionCallback a, srvPool = newPool L nameArg,
                   srvConnectionSet = False, srvMessageSet = False, srvWriteCompleteSet = False,
                   threadInitSet = False, started = 0, nextConnId = 1, connections = (\<lambda>_. None)\<rparr>\<rparr>))))"

definition srvSetConnectionCallback :: "'a sworld_scheme \<Rightarrow> 'a sworld_scheme" where
  "srvSetConnectionCallback w = setServer (\<lambda>s. s\<lparr>srvConnectionSet := True\<rparr>) w"

definition srvSetMessageCallback :: "'a sworld_scheme \<Rightarrow> 'a sworld_scheme" where
  "srvSetMessageCallback w = setServer (\<lambda>s. s\<lparr>srvMessageSet := True\<rparr>) w"

definition srvSetWriteCompleteCallback :: "'a sworld_scheme \<Rightarrow> 'a sworld_scheme" where
  "srvSetWriteCompleteCallback w = setServer (\<lambda>s. s\<lparr>srvWriteCompleteSet := True\<rparr>) w"

definition srvSetThreadInitcallback :: "'a sworld_scheme \<Rightarrow> 'a sworld_scheme" where
  "srvSetThreadInitcallback w = setServer (\<lambda>s. s\<lparr>threadInitSet := True\<rparr>) w"

definition srvSetThreadNum :: "int \<Rightarrow> 'a sworld_scheme \<Rightarrow> 'a sworld_scheme" where
  "srvSetThreadNum n w = setServer (\<lambda>s. s\<lparr>srvPool := setThreadNum n (srvPool s)\<rparr>) w"

text \<open>The name of the connection with number \<open>i\<close>.\<close>

definition connName :: "tcpserver \<Rightarrow> int \<Rightarrow> string" where
  "connName s i = srvName s @ snprintf 64 (''-'' @ srvIpPort s @ ''#'' @ decimalInt i)"

text \<open>The address \<^verbatim>\<open>getsockname\<close> leaves when it fails: all zero.\<close>

definition zeroAddress :: inetaddr where
  "zeroAddress = \<lparr>sin_addr = (0, 0, 0, 0), sin_port = 0\<rparr>"

definition sockName :: "kernel \<Rightarrow> int \<Rightarrow> 'a pworld_scheme \<Rightarrow> inetaddr \<times> 'a pworld_scheme" where
  "sockName K fd w =
     (let r = k_sockname K (syslog w) fd
      in (case r of None \<Rightarrow> zeroAddress | Some a \<Rightarrow> a, logCall (SysGetSockName fd r) w))"

definition removeConnectionInLoop :: "nat \<Rightarrow> nat \<Rightarrow> 'a sworld_scheme \<Rightarrow> 'a sworld_scheme" where
  "removeConnectionInLoop t c w =
     (let w = setServer (\<lambda>s. s\<lparr>connections := (connections s)(cnName (conns w c) := None)\<rparr>) w
      in queueInLoop t (cnLoop (conns w c)) (FConnectDestroyed c) w)"

definition removeConnection :: "nat \<Rightarrow> nat \<Rightarrow> 'a sworld_scheme \<Rightarrow> fault + 'a sworld_scheme" where
  "removeConnection t c w =
     runInLoop t (srvLoop (server w)) (\<lambda>w. Inr (removeConnectionInLoop t c w)) (FRemoveConnectionInLoop c) w"

text \<open>The callbacks of a connection of the server: the user's, and the server's for closing.\<close>

definition serverUser :: "'a sworld_scheme user \<Rightarrow> 'a sworld_scheme user" where
  "serverUser U = U\<lparr>onClose := removeConnection\<rparr>"

definition newConnection :: "kernel \<Rightarrow> 'a sworld_scheme user \<Rightarrow> nat \<Rightarrow> int \<Rightarrow> inetaddr \<Rightarrow> 'a sworld_scheme \<Rightarrow> fault + 'a sworld_scheme" where
  "newConnection K U t sockfd peerAddr w =
     bind_res (getNextLoop (srvPool (server w))) (\<lambda>(ioLoop, pool).
     let w = setServer (\<lambda>s. s\<lparr>srvPool := pool\<rparr>) w;
         nm = connName (server w) (nextConnId (server w))
     in if nextConnId (server w) = 2 ^ 31 - 1 then Inl SignedOverflow
        else let w = setServer (\<lambda>s. s\<lparr>nextConnId := nextConnId s + 1\<rparr>) w in
          bind_res (toIpPort peerAddr) (\<lambda>_.
          let (localAddr, w) = sockName K sockfd w;
              c = fresh w;
              w = w\<lparr>fresh := Suc (fresh w)\<rparr>
          in bind_res (newTcpConnection (Some ioLoop) nm sockfd localAddr peerAddr c c w) (\<lambda>w.
          let w = setServer (\<lambda>s. s\<lparr>connections := (connections s)(nm := Some c)\<rparr>) w;
              w = connSetConnectionCallback c (srvConnectionSet (server w)) w;
              w = connSetMessageCallback c (srvMessageSet (server w)) w;
              w = connSetWriteCompleteCallback c (srvWriteCompleteSet (server w)) w;
              w = connSetCloseCallback c True w
          in runInLoop t ioLoop (connectEstablished K (serverUser U) t c) (FConnectEstablished c) w)))"

text \<open>A new worker loop: address, thread and wakeup channel are the next free number.\<close>

definition spawnLoop :: "kernel \<Rightarrow> bool \<Rightarrow> (nat \<Rightarrow> int) \<Rightarrow> (nat \<Rightarrow> int) \<Rightarrow>
    (nat \<Rightarrow> 'a sworld_scheme \<Rightarrow> fault + 'a sworld_scheme) option \<Rightarrow> string \<Rightarrow> 'a sworld_scheme \<Rightarrow> fault + (nat \<times> 'a sworld_scheme)" where
  "spawnLoop K muduoUsePoll epollfd wakeupFd cb nm w =
     (let n = fresh w in startLoop K muduoUsePoll (epollfd n) (wakeupFd n) cb n n n (w\<lparr>fresh := Suc n\<rparr>))"

definition listenInLoop :: "kernel \<Rightarrow> 'a sworld_scheme \<Rightarrow> fault + 'a sworld_scheme" where
  "listenInLoop K w =
     bind_res (acceptorListen K (srvAcceptor (server w)) w) (\<lambda>(a, w). Inr (setServer (\<lambda>s. s\<lparr>srvAcceptor := a\<rparr>) w))"

definition serverStart :: "kernel \<Rightarrow> bool \<Rightarrow> (nat \<Rightarrow> int) \<Rightarrow> (nat \<Rightarrow> int) \<Rightarrow> (nat \<Rightarrow> 'a sworld_scheme \<Rightarrow> fault + 'a sworld_scheme) \<Rightarrow>
    nat \<Rightarrow> 'a sworld_scheme \<Rightarrow> fault + 'a sworld_scheme" where
  "serverStart K muduoUsePoll epollfd wakeupFd initCb t w =
     (let first = (started (server w) = 0);
          w = setServer (\<lambda>s. s\<lparr>started := started s + 1\<rparr>) w;
          cb = (if threadInitSet (server w) then Some initCb else None)
      in if first
         then bind_res (poolStart (spawnLoop K muduoUsePoll epollfd wakeupFd cb) cb (srvPool (server w)) w) (\<lambda>(p, w).
              let w = setServer (\<lambda>s. s\<lparr>srvPool := p\<rparr>) w
              in runInLoop t (srvLoop (server w)) (listenInLoop K) FAcceptorListen w)
         else Inr w)"

text \<open>
  The destructor: every connection (in some \<open>order\<close> of the table) is destroyed in its loop,
  then the worker loops are told to quit and the acceptor goes.
\<close>

definition destroyTcpServer :: "kernel \<Rightarrow> 'a sworld_scheme user \<Rightarrow> nat \<Rightarrow> nat list \<Rightarrow> 'a sworld_scheme \<Rightarrow> fault + 'a sworld_scheme" where
  "destroyTcpServer K U t order w =
     bind_res (runAll (\<lambda>c w. runInLoop t (cnLoop (conns w c)) (connectDestroyed K (serverUser U) t c) (FConnectDestroyed c) w) order w)
       (\<lambda>w. let w = setServer (\<lambda>s. s\<lparr>connections := (\<lambda>_. None)\<rparr>) w;
                w = fold (quitLoop t) (poolLoops (srvPool (server w))) w
            in destroyAcceptor K (srvAcceptor (server w)) w)"

text \<open>What a queued functor does in thread \<open>t\<close>; \<open>task\<close> is what the application queues.\<close>

definition execFunctor :: "kernel \<Rightarrow> 'a sworld_scheme user \<Rightarrow> (nat \<Rightarrow> 'a sworld_scheme \<Rightarrow> fault + 'a sworld_scheme) \<Rightarrow>
    nat \<Rightarrow> Functor \<Rightarrow> 'a sworld_scheme \<Rightarrow> fault + 'a sworld_scheme" where
  "execFunctor K U task t f w =
     (case f of
        FConnectEstablished c \<Rightarrow> connectEstablished K (serverUser U) t c w
      | FConnectDestroyed c \<Rightarrow> connectDestroyed K (serverUser U) t c w
      | FSendInLoop c p n \<Rightarrow> sendFrom K t c p n w
      | FShutdownInLoop c \<Rightarrow> if connAlive w c then Inr (shutdownInLoop K c w) else Inl UseAfterFree
      | FWriteComplete c \<Rightarrow> onWriteComplete U t c w
      | FHighWaterMark c n \<Rightarrow> onHighWaterMark U t c n w
      | FRemoveConnectionInLoop c \<Rightarrow> Inr (removeConnectionInLoop t c w)
      | FAcceptorListen \<Rightarrow> listenInLoop K w
      | FUser n \<Rightarrow> task n w)"

text \<open>What a reported channel does, and the whole turn of a loop of the server.\<close>

definition acceptEvent :: "kernel \<Rightarrow> 'a sworld_scheme user \<Rightarrow> nat \<Rightarrow> 'a sworld_scheme \<Rightarrow> fault + 'a sworld_scheme" where
  "acceptEvent K U t w = acceptorHandleRead K (newConnection K U t) (srvAcceptor (server w)) w"

definition serverTurn :: "kernel \<Rightarrow> 'a sworld_scheme user \<Rightarrow> (nat \<Rightarrow> 'a sworld_scheme \<Rightarrow> fault + 'a sworld_scheme) \<Rightarrow>
    nat \<Rightarrow> nat \<Rightarrow> 'a sworld_scheme \<Rightarrow> fault + 'a sworld_scheme" where
  "serverTurn K U task t L w =
     loopTurn K (channelEvent K (serverUser U) (acceptEvent K U) t) (execFunctor K U task t) L w"

end
