(* ===== verification/ServerLife.thy ===== *)
theory ServerLife
  imports TcpServer
begin

text \<open>
  The table of connections of a server: the names are distinct, a new connection never
  displaces another, and what \<^verbatim>\<open>newConnection\<close>, \<^verbatim>\<open>removeConnection\<close> and the queued functors
  do to the table.
\<close>

section \<open>Names\<close>

lemma connName_whole:
  assumes "length (srvIpPort s) \<le> 21" and "0 \<le> i" and "i < 2 ^ 31"
  shows "connName s i = srvName s @ ''-'' @ srvIpPort s @ ''#'' @ decimal (nat i)"
proof -
  have "nat i < 10 ^ 10" using assms(3) by (simp add: nat_less_iff)
  then have "length (decimal (nat i)) \<le> 10" by (rule length_decimal) simp
  with assms(1) have "length (''-'' @ srvIpPort s @ ''#'' @ decimal (nat i)) \<le> 63" by simp
  with assms(2) show ?thesis by (simp add: connName_def snprintf_def decimalInt_def)
qed

lemma connName_inj:
  assumes "length (srvIpPort s) \<le> 21" and "0 \<le> i" "i < 2 ^ 31" "0 \<le> j" "j < 2 ^ 31"
    and "connName s i = connName s j"
  shows "i = j"
proof -
  from assms(6) have "decimal (nat i) = decimal (nat j)"
    unfolding connName_whole [OF assms(1-3)] connName_whole [OF assms(1,4,5)] by simp
  then have "nat i = nat j" by (rule decimal_inj)
  with assms(2,4) show ?thesis by simp
qed

section \<open>The invariant of the table\<close>

definition server_ok :: "'a sworld_scheme \<Rightarrow> bool" where
  "server_ok w \<longleftrightarrow> pool_ok (srvPool (server w)) \<and> length (srvIpPort (server w)) \<le> 21 \<and>
     0 < nextConnId (server w) \<and> nextConnId (server w) < 2 ^ 31 \<and>
     (\<forall>nm c. connections (server w) nm = Some c \<longrightarrow> cnName (conns w c) = nm \<and> c < fresh w \<and>
        (\<exists>i. 0 < i \<and> i < nextConnId (server w) \<and> nm = connName (server w) i))"

lemma server_okD:
  assumes "server_ok w"
  shows "pool_ok (srvPool (server w))" "length (srvIpPort (server w)) \<le> 21"
    "0 < nextConnId (server w)" "nextConnId (server w) < 2 ^ 31"
    "connections (server w) nm = Some c \<Longrightarrow> cnName (conns w c) = nm"
    "connections (server w) nm = Some c \<Longrightarrow> c < fresh w"
    "connections (server w) nm = Some c \<Longrightarrow> \<exists>i. 0 < i \<and> i < nextConnId (server w) \<and> nm = connName (server w) i"
  using assms by (simp_all add: server_ok_def)

lemma new_name_unused:
  assumes "server_ok w"
  shows "connections (server w) (connName (server w) (nextConnId (server w))) = None"
proof (rule ccontr)
  let ?n = "nextConnId (server w)"
  assume "connections (server w) (connName (server w) ?n) \<noteq> None"
  then obtain c where "connections (server w) (connName (server w) ?n) = Some c" by blast
  from server_okD(7) [OF assms this] obtain i where i: "0 < i" "i < ?n"
    "connName (server w) ?n = connName (server w) i" by blast
  from connName_inj [OF server_okD(2) [OF assms] _ _ _ _ i(3)] i server_okD(3,4) [OF assms] show False by simp
qed

text \<open>Every connection is in the table under one name only.\<close>

lemma server_ok_inj:
  "server_ok w \<Longrightarrow> connections (server w) nm = Some c \<Longrightarrow> connections (server w) nm' = Some c \<Longrightarrow> nm = nm'"
  using server_okD(5) by metis

section \<open>Adding\<close>

lemma sworld_frame [simp]:
  "server (setConn c f w) = server w" "fresh (setConn c f w) = fresh w"
  "server (setState c st w) = server w" "fresh (setState c st w) = fresh w"
  "server (logCall call w) = server w" "fresh (logCall call w) = fresh w"
  "server (queueInLoop t L f' w) = server w" "fresh (queueInLoop t L f' w) = fresh w"
  "server (interestWorld op c w) = server w" "fresh (interestWorld op c w) = fresh w"
  "server (removedWorld L ch w) = server w" "fresh (removedWorld L ch w) = fresh w"
  by (simp_all add: setConn_def setState_def logCall_def loop_defs Let_def interestWorld_def updatedWorld_def removedWorld_def)

lemma setServer_frame [simp]:
  "syslog (setServer f w) = syslog w" "chans (setServer f w) = chans w" "pollers (setServer f w) = pollers w"
  "loops (setServer f w) = loops w" "conns (setServer f w) = conns w" "connAlive (setServer f w) = connAlive w"
  "mem (setServer f w) = mem w" "fresh (setServer f w) = fresh w" "server (setServer f w) = f (server w)"
  by (simp_all add: setServer_def)

text \<open>The new connection, as the server leaves it to its loop.\<close>

definition acceptedConn :: "tcpserver \<Rightarrow> nat \<Rightarrow> string \<Rightarrow> int \<Rightarrow> inetaddr \<Rightarrow> inetaddr \<Rightarrow> nat \<Rightarrow> buffer \<Rightarrow> tcpconn" where
  "acceptedConn s L nm fd lo peer c b = \<lparr>cnLoop = L, cnName = nm, cnState = KConnecting, cnReading = True,
     cnSocket = fd, cnChannel = c, cnLocalAddr = lo, cnPeerAddr = peer, connectionSet = srvConnectionSet s,
     messageSet = srvMessageSet s, writeCompleteSet = srvWriteCompleteSet s, highWaterMarkSet = False, closeSet = True,
     cnHighWaterMark = initialHighWaterMark, cnInput = b, cnOutput = b\<rparr>"

definition acceptedChan :: "nat \<Rightarrow> int \<Rightarrow> nat \<Rightarrow> channel" where
  "acceptedChan L fd c = setErrorCallback (ConnError c) (setCloseCallback (ConnClose c)
     (setWriteCallback (ConnWrite c) (setReadCallback (ConnRead c) (newChannel L fd))))"

lemma newTcpConnection_Inr:
  assumes "newBuffer kInitialSize = Inr b"
  shows "newTcpConnection (Some L) nm fd lo peer c ch w =
    Inr (setKeepAlive fd True (w\<lparr>chans := (chans w)(ch := acceptedChan L fd c), connAlive := (connAlive w)(c := True),
      conns := (conns w)(c := \<lparr>cnLoop = L, cnName = nm, cnState = KConnecting, cnReading = True, cnSocket = fd,
        cnChannel = ch, cnLocalAddr = lo, cnPeerAddr = peer, connectionSet = False, messageSet = False,
        writeCompleteSet = False, highWaterMarkSet = False, closeSet = False, cnHighWaterMark = initialHighWaterMark,
        cnInput = b, cnOutput = b\<rparr>)\<rparr>))"
  using assms by (simp add: newTcpConnection_def acceptedChan_def Let_def)

text \<open>Nothing else uses the address of the new connection or its descriptor.\<close>

definition unused :: "nat \<Rightarrow> int \<Rightarrow> 'a pworld_scheme \<Rightarrow> bool" where
  "unused c fd w \<longleftrightarrow> (\<forall>L p. pollers w L = Some p \<longrightarrow> channels p fd = None \<and> (\<forall>fd'. channels p fd' \<noteq> Some c))"

lemma poll_ok_newChannel:
  assumes ok: "poll_ok L w" and un: "unused c fd w" and fresh: "chIndex ch = kNew"
    and w': "pollers w' = pollers w" "chans w' = (chans w)(c := ch)" "interest L (syslog w') = interest L (syslog w)"
  shows "poll_ok L w'"
proof -
  from ok obtain p where p: "pollers w L = Some p"
    and idx: "\<And>c. chLoop (chans w c) = L \<Longrightarrow> chIndex (chans w c) \<in> {kNew, kAdded, kDeleted}"
    and reg: "\<And>c. chLoop (chans w c) = L \<Longrightarrow> chIndex (chans w c) \<noteq> kNew \<Longrightarrow> channels p (chFd (chans w c)) = Some c"
    and inv: "\<And>fd c. channels p fd = Some c \<Longrightarrow> chLoop (chans w c) = L \<and> chFd (chans w c) = fd \<and> chIndex (chans w c) \<noteq> kNew"
    and int: "interest L (syslog w) = watched p (chans w)"
    by (rule poll_okE) blast
  from un p have no: "channels p fd' \<noteq> Some c" for fd' by (auto simp: unused_def)
  have "watched p (chans w') fd' = watched p (chans w) fd'" for fd'
    using no [of fd'] w'(2) by (auto simp: watched_def split: option.splits)
  then have "interest L (syslog w') = watched p (chans w')" using int w'(3) by (simp add: fun_eq_iff)
  moreover have "chIndex (chans w' c') \<in> {kNew, kAdded, kDeleted}" if "chLoop (chans w' c') = L" for c'
    using that idx [of c'] fresh w'(2) by (cases "c' = c") auto
  moreover have "channels p (chFd (chans w' c')) = Some c'" if "chLoop (chans w' c') = L" "chIndex (chans w' c') \<noteq> kNew" for c'
    using that reg [of c'] fresh w'(2) by (cases "c' = c") auto
  moreover have "chLoop (chans w' c') = L \<and> chFd (chans w' c') = fd' \<and> chIndex (chans w' c') \<noteq> kNew" if "channels p fd' = Some c'" for fd' c'
    using that inv [of fd' c'] no [of fd'] w'(2) by auto
  ultimately show ?thesis unfolding poll_ok_def using p w'(1) by auto
qed

lemma acceptedChan_simps [simp]:
  "chIndex (acceptedChan L fd c) = kNew" "chLoop (acceptedChan L fd c) = L" "chFd (acceptedChan L fd c) = fd"
  "chEvents (acceptedChan L fd c) = kNoneEvent"
  by (simp_all add: acceptedChan_def setErrorCallback_def setCloseCallback_def setWriteCallback_def
      setReadCallback_def newChannel_def kNew_def kNoneEvent_def)

text \<open>The world in which the new connection is given to its loop.\<close>

definition countedWorld :: "kernel \<Rightarrow> int \<Rightarrow> pool \<Rightarrow> 'a sworld_scheme \<Rightarrow> 'a sworld_scheme" where
  "countedWorld K fd p w =
     (let w = setServer (\<lambda>s. s\<lparr>nextConnId := nextConnId s + 1\<rparr>) (setServer (\<lambda>s. s\<lparr>srvPool := p\<rparr>) w);
          w = logCall (SysGetSockName fd (k_sockname K (syslog w) fd)) w
      in w\<lparr>fresh := Suc (fresh w)\<rparr>)"

definition builtWorld :: "int \<Rightarrow> nat \<Rightarrow> string \<Rightarrow> inetaddr \<Rightarrow> inetaddr \<Rightarrow> nat \<Rightarrow> buffer \<Rightarrow> 'a cworld_scheme \<Rightarrow> 'a cworld_scheme" where
  "builtWorld fd L nm lo peer c b w =
     setKeepAlive fd True (w\<lparr>chans := (chans w)(c := acceptedChan L fd c), connAlive := (connAlive w)(c := True),
      conns := (conns w)(c := \<lparr>cnLoop = L, cnName = nm, cnState = KConnecting, cnReading = True, cnSocket = fd,
        cnChannel = c, cnLocalAddr = lo, cnPeerAddr = peer, connectionSet = False, messageSet = False,
        writeCompleteSet = False, highWaterMarkSet = False, closeSet = False, cnHighWaterMark = initialHighWaterMark,
        cnInput = b, cnOutput = b\<rparr>)\<rparr>)"

definition acceptedWorld :: "kernel \<Rightarrow> int \<Rightarrow> inetaddr \<Rightarrow> nat \<Rightarrow> pool \<Rightarrow> buffer \<Rightarrow> 'a sworld_scheme \<Rightarrow> 'a sworld_scheme" where
  "acceptedWorld K fd peer L p b w =
     (let c = fresh w; nm = connName (server w) (nextConnId (server w));
          lo = (case k_sockname K (syslog w) fd of None \<Rightarrow> zeroAddress | Some a \<Rightarrow> a);
          w = setServer (\<lambda>s. s\<lparr>connections := (connections s)(nm := Some c)\<rparr>)
                (builtWorld fd L nm lo peer c b (countedWorld K fd p w))
      in setConn c (\<lambda>cn. cn\<lparr>connectionSet := srvConnectionSet (server w), messageSet := srvMessageSet (server w),
                     writeCompleteSet := srvWriteCompleteSet (server w), closeSet := True\<rparr>) w)"

lemma countedWorld_simps [simp]:
  "syslog (countedWorld K fd p w) = SysGetSockName fd (k_sockname K (syslog w) fd) # syslog w"
  "chans (countedWorld K fd p w) = chans w" "pollers (countedWorld K fd p w) = pollers w"
  "loops (countedWorld K fd p w) = loops w" "conns (countedWorld K fd p w) = conns w"
  "connAlive (countedWorld K fd p w) = connAlive w" "mem (countedWorld K fd p w) = mem w"
  "server (countedWorld K fd p w) = (server w)\<lparr>srvPool := p, nextConnId := nextConnId (server w) + 1\<rparr>"
  "fresh (countedWorld K fd p w) = Suc (fresh w)"
  by (simp_all add: countedWorld_def Let_def)

lemma builtWorld_simps [simp]:
  "syslog (builtWorld fd L nm lo peer c b w) = SysSetOpt fd SO_KEEPALIVE True # syslog w"
  "chans (builtWorld fd L nm lo peer c b w) = (chans w)(c := acceptedChan L fd c)"
  "pollers (builtWorld fd L nm lo peer c b w) = pollers w" "loops (builtWorld fd L nm lo peer c b w) = loops w"
  "connAlive (builtWorld fd L nm lo peer c b w) = (connAlive w)(c := True)" "mem (builtWorld fd L nm lo peer c b w) = mem w"
  by (simp_all add: builtWorld_def setKeepAlive_def)

lemma builtWorld_server [simp]:
  "server (builtWorld fd L nm lo peer c b w) = server w" "fresh (builtWorld fd L nm lo peer c b w) = fresh w"
  by (simp_all add: builtWorld_def setKeepAlive_def)

lemma acceptedWorld_simps [simp]:
  "syslog (acceptedWorld K fd peer L p b w) = SysSetOpt fd SO_KEEPALIVE True # SysGetSockName fd (k_sockname K (syslog w) fd) # syslog w"
  "chans (acceptedWorld K fd peer L p b w) = (chans w)(fresh w := acceptedChan L fd (fresh w))"
  "pollers (acceptedWorld K fd peer L p b w) = pollers w" "loops (acceptedWorld K fd peer L p b w) = loops w"
  "connAlive (acceptedWorld K fd peer L p b w) = (connAlive w)(fresh w := True)" "mem (acceptedWorld K fd peer L p b w) = mem w"
  "fresh (acceptedWorld K fd peer L p b w) = Suc (fresh w)"
  "server (acceptedWorld K fd peer L p b w) = (server w)\<lparr>srvPool := p, nextConnId := nextConnId (server w) + 1,
     connections := (connections (server w))(connName (server w) (nextConnId (server w)) := Some (fresh w))\<rparr>"
  "conns (acceptedWorld K fd peer L p b w) = (conns w)(fresh w := acceptedConn (server w) L
     (connName (server w) (nextConnId (server w))) fd
     (case k_sockname K (syslog w) fd of None \<Rightarrow> zeroAddress | Some a \<Rightarrow> a) peer (fresh w) b)"
  by (simp_all add: acceptedWorld_def Let_def) (simp_all add: builtWorld_def setKeepAlive_def acceptedConn_def)

lemma newConnection_run:
  assumes pool: "getNextLoop (srvPool (server w)) = Inr (L, p)" and b: "newBuffer kInitialSize = Inr b"
    and lt: "nextConnId (server w) < 2 ^ 31 - 1"
  shows "newConnection K U t fd peer w =
    runInLoop t L (connectEstablished K (serverUser U) t (fresh w)) (FConnectEstablished (fresh w))
      (acceptedWorld K fd peer L p b w)"
proof -
  let ?w1 = "setServer (\<lambda>s. s\<lparr>srvPool := p\<rparr>) w"
  have nm: "connName (server ?w1) (nextConnId (server ?w1)) = connName (server w) (nextConnId (server w))"
    by (simp add: connName_def)
  have ne: "nextConnId (server ?w1) \<noteq> 2 ^ 31 - 1" using lt by simp
  have sn: "sockName K fd (setServer f ?w1) = (case k_sockname K (syslog w) fd of None \<Rightarrow> zeroAddress | Some a \<Rightarrow> a,
      logCall (SysGetSockName fd (k_sockname K (syslog w) fd)) (setServer f ?w1))" for f
    by (simp add: sockName_def Let_def)
  show ?thesis
    unfolding newConnection_def pool bind_res_simps prod.case Let_def nm if_not_P [OF ne] toIpPort_Inr(1) sn
      newTcpConnection_Inr [OF b]
    by (simp add: acceptedWorld_def builtWorld_def countedWorld_def Let_def conn_setters setConn_def)
qed

lemma connName_cong: "srvName s' = srvName s \<Longrightarrow> srvIpPort s' = srvIpPort s \<Longrightarrow> connName s' i = connName s i"
  by (simp add: connName_def)

lemma acceptedWorld_ok:
  assumes ok: "server_ok w" and lt: "nextConnId (server w) < 2 ^ 31 - 1" and p: "pool_ok p"
  shows "server_ok (acceptedWorld K fd peer L p b w)"
proof -
  let ?s = "server w" and ?w' = "acceptedWorld K fd peer L p b w" and ?n = "nextConnId (server w)"
  note D = server_okD [OF ok]
  have nm: "connName (server ?w') i = connName ?s i" for i by (simp add: connName_def)
  have "cnName (conns ?w' c) = nm \<and> c < fresh ?w' \<and> (\<exists>i. 0 < i \<and> i < nextConnId (server ?w') \<and> nm = connName (server ?w') i)"
    if "connections (server ?w') nm = Some c" for nm c
  proof (cases "nm = connName ?s ?n")
    case True
    with that have "c = fresh w" by simp
    moreover have "0 < ?n \<and> ?n < nextConnId (server ?w') \<and> connName ?s ?n = connName (server ?w') ?n"
      using D(3) nm by simp
    ultimately show ?thesis using True by (auto simp: acceptedConn_def)
  next
    case False
    with that have c: "connections ?s nm = Some c" by simp
    from D(6) [OF c] D(5) [OF c] have "c < fresh w" "cnName (conns w c) = nm" by auto
    moreover from D(7) [OF c] obtain i where "0 < i" "i < ?n" "nm = connName ?s i" by blast
    then have "0 < i \<and> i < nextConnId (server ?w') \<and> nm = connName (server ?w') i" using nm [of i] by simp
    ultimately show ?thesis by auto
  qed
  with D p lt show ?thesis unfolding server_ok_def by simp
qed

lemma kInitialSize_buffer:
  obtains b where "newBuffer kInitialSize = Inr b" "buf_ok b" "content b = []" "length (bytes b) = kCheapPrepend + kInitialSize"
  by (rule newBuffer_ok [of kInitialSize]) (simp_all add: kCheapPrepend_def kInitialSize_def vec_max_size_def)

lemma acceptedWorld_conn:
  assumes ok: "poll_ok L w" and un: "unused (fresh w) fd w" and b: "buf_ok b" "content b = []"
  shows "conn_ok (fresh w) (acceptedWorld K fd peer L p b w)"
proof -
  let ?w' = "acceptedWorld K fd peer L p b w"
  have "poll_ok L ?w'"
    by (rule poll_ok_newChannel [OF ok un, of "acceptedChan L fd (fresh w)"]) simp_all
  moreover have "fd_free L (fresh w) ?w'" using un by (auto simp: fd_free_def unused_def)
  ultimately show ?thesis
    using b by (simp add: conn_ok_def conn_wired_def connChan_def acceptedConn_def isWriting_def kNoneEvent_def)
qed

section \<open>Removing\<close>

lemma removeConnectionInLoop_simps [simp]:
  "conns (removeConnectionInLoop t c w) = conns w" "chans (removeConnectionInLoop t c w) = chans w"
  "pollers (removeConnectionInLoop t c w) = pollers w" "fresh (removeConnectionInLoop t c w) = fresh w"
  "interest L (syslog (removeConnectionInLoop t c w)) = interest L (syslog w)"
  "server (removeConnectionInLoop t c w) = (server w)\<lparr>connections := (connections (server w))(cnName (conns w c) := None)\<rparr>"
  by (simp_all add: removeConnectionInLoop_def Let_def)

lemma removeConnectionInLoop_pending:
  "pendingFunctors (loops (removeConnectionInLoop t c w) L) =
     pendingFunctors (loops w L) @ (if L = cnLoop (conns w c) then [FConnectDestroyed c] else [])"
  by (simp add: removeConnectionInLoop_def Let_def)

lemma removeConnectionInLoop_ok: "server_ok w \<Longrightarrow> server_ok (removeConnectionInLoop t c w)"
  using connName_cong [of "(server w)\<lparr>connections := m\<rparr>" "server w" for m] by (simp add: server_ok_def)

section \<open>An example\<close>

definition sampleServer :: tcpserver where
  "sampleServer = \<lparr>srvLoop = 0, srvIpPort = ''127.0.0.1:8000'', srvName = ''echo'',
     srvAcceptor = \<lparr>acLoop = 0, acSocket = 4, acChannel = 4, newConnectionSet = True, listenning = True\<rparr>,
     srvPool = newPool 0 ''echo'', srvConnectionSet = True, srvMessageSet = True, srvWriteCompleteSet = False,
     threadInitSet = False, started = 1, nextConnId = 2, connections = (\<lambda>_. None)\<rparr>"

text \<open>The world of the earlier example, its connection 5 being the first of the server.\<close>

definition sampleSWorld :: sworld where
  "sampleSWorld = cworld.extend
     (sampleCWorld\<lparr>conns := (\<lambda>_. sampleConn\<lparr>cnName := connName sampleServer 1\<rparr>)\<rparr>)
     \<lparr>server = sampleServer\<lparr>connections := [connName sampleServer 1 \<mapsto> 5]\<rparr>, fresh = 6\<rparr>"

lemma sampleSWorld_simps [simp]:
  "server sampleSWorld = sampleServer\<lparr>connections := [connName sampleServer 1 \<mapsto> 5]\<rparr>" "fresh sampleSWorld = 6"
  "syslog sampleSWorld = []" "chans sampleSWorld = (\<lambda>c. newChannel 0 (int c))"
  "pollers sampleSWorld = (\<lambda>L. if L = 0 then Some \<lparr>channels = (\<lambda>_. None), eventsSize = 16\<rparr> else None)"
  "conns sampleSWorld = (\<lambda>_. sampleConn\<lparr>cnName := connName sampleServer 1\<rparr>)"
  "threadId (loops sampleSWorld L) = 1" "pendingFunctors (loops sampleSWorld L) = []"
  by (simp_all add: sampleSWorld_def cworld.defs sampleCWorld_def)

lemma sampleSWorld_ok: "server_ok sampleSWorld" "unused 6 7 sampleSWorld" "poll_ok 0 sampleSWorld"
proof -
  have nm: "connName (sampleServer\<lparr>connections := m\<rparr>) i = connName sampleServer i" for m i by (simp add: connName_def)
  have "0 < (1 :: int) \<and> (1 :: int) < nextConnId (server sampleSWorld) \<and>
      connName sampleServer 1 = connName (server sampleSWorld) 1"
    unfolding sampleSWorld_simps nm by (simp add: sampleServer_def)
  then have "\<exists>i. 0 < i \<and> i < nextConnId (server sampleSWorld) \<and> connName sampleServer 1 = connName (server sampleSWorld) i"
    by blast
  moreover have "pool_ok (srvPool (server sampleSWorld))" "length (srvIpPort (server sampleSWorld)) \<le> 21"
    "0 < nextConnId (server sampleSWorld)" "nextConnId (server sampleSWorld) < 2 ^ 31"
    by (simp_all add: sampleServer_def pool_ok_def newPool_def getAllLoops_def)
  ultimately show "server_ok sampleSWorld" unfolding server_ok_def by (auto split: if_splits)
  show "unused 6 7 sampleSWorld" by (simp add: unused_def)
  show "poll_ok 0 sampleSWorld" by (auto simp: poll_ok_def watched_def)
qed

section \<open>Properties\<close>

text \<open>
  C21: The names a server gives its connections are distinct as long as their numbers are, up
  to the largest number an \<^verbatim>\<open>int\<close> holds: the buffer of 64 bytes never cuts them off.
\<close>

theorem connection_names_distinct:
  assumes "toIpPort addr = Inr (srvIpPort s)" and "0 \<le> i" and "i < 2 ^ 31" and "0 \<le> j" and "j < 2 ^ 31"
  shows "connName s i = connName s j \<longleftrightarrow> i = j"
  using connName_inj [of s i j] toIpPort_Inr [of addr] assms by auto

theorem connection_names_distinct_witness:
  "connName (sampleServer\<lparr>srvIpPort := toIp localhost @ '':'' @ decimal 8000\<rparr>) 1 \<noteq>
   connName (sampleServer\<lparr>srvIpPort := toIp localhost @ '':'' @ decimal 8000\<rparr>) 12"
proof -
  let ?s = "sampleServer\<lparr>srvIpPort := toIp localhost @ '':'' @ decimal 8000\<rparr>"
  have "toIpPort localhost = Inr (srvIpPort ?s)"
    using toIpPort_Inr(1) [of localhost] by (simp add: toIp_def localhost_def ntohs_htons)
  from connection_names_distinct [OF this, of 1 12] show ?thesis by simp
qed

text \<open>
  \<^verbatim>\<open>newConnection\<close> with a new descriptor never fails (before the counter of connections
  is used up): it takes one of the pool's loops, builds a well-formed connection in state
  \<^verbatim>\<open>kConnecting\<close> with empty buffers, enters it in the table under a name that was not in it,
  touches no other connection, keeps the table consistent, and leaves exactly
  \<^verbatim>\<open>connectEstablished\<close> to be run by that loop.
\<close>

theorem newConnection_effect:
  assumes "server_ok w" and "nextConnId (server w) < 2 ^ 31 - 1" and "unused (fresh w) fd w"
    and "\<forall>L \<in> set (getAllLoops (srvPool (server w))). poll_ok L w"
  shows "\<exists>L w1. L \<in> set (getAllLoops (srvPool (server w))) \<and>
    newConnection K U t fd peer w = runInLoop t L (connectEstablished K (serverUser U) t (fresh w))
      (FConnectEstablished (fresh w)) w1 \<and>
    server_ok w1 \<and> conn_ok (fresh w) w1 \<and> cnState (conns w1 (fresh w)) = KConnecting \<and> cnLoop (conns w1 (fresh w)) = L \<and>
    waiting (fresh w) w1 = [] \<and> unread (fresh w) w1 = [] \<and>
    connections (server w) (connName (server w) (nextConnId (server w))) = None \<and>
    connections (server w1) = (connections (server w))(connName (server w) (nextConnId (server w)) := Some (fresh w)) \<and>
    (\<forall>c. c \<noteq> fresh w \<longrightarrow> conns w1 c = conns w c)"
proof -
  let ?P = "srvPool (server w)"
  note D = server_okD [OF assms(1)]
  from poolc.pick_law [OF D(1)] obtain p where p: "getNextLoop ?P = Inr (getAllLoops ?P ! nat (nextIdx ?P), p)" "pool_ok p" by blast
  let ?L = "getAllLoops ?P ! nat (nextIdx ?P)"
  have L: "?L \<in> set (getAllLoops ?P)" using poolc.pick_member [OF D(1) p(1)] by simp
  obtain b where b: "newBuffer kInitialSize = Inr b" "buf_ok b" "content b = []" by (rule kInitialSize_buffer)
  let ?w1 = "acceptedWorld K fd peer ?L p b w"
  have "conn_ok (fresh w) ?w1" using acceptedWorld_conn [OF _ assms(3) b(2,3)] assms(4) L by blast
  moreover have "server_ok ?w1" by (rule acceptedWorld_ok [OF assms(1,2) p(2)])
  ultimately show ?thesis
    using L newConnection_run [OF p(1) b(1) assms(2)] new_name_unused [OF assms(1)] b(3)
    by (intro exI [of _ ?L] exI [of _ ?w1]) (simp add: acceptedConn_def)
qed

theorem newConnection_effect_witness:
  "\<exists>L w1. newConnection sampleKernel sampleUser 1 7 localhost sampleSWorld =
      runInLoop 1 L (connectEstablished sampleKernel (serverUser sampleUser) 1 6) (FConnectEstablished 6) w1 \<and>
    server_ok w1 \<and> conn_ok 6 w1"
proof -
  have "nextConnId (server sampleSWorld) < 2 ^ 31 - 1" by (simp add: sampleServer_def)
  moreover have "\<forall>L \<in> set (getAllLoops (srvPool (server sampleSWorld))). poll_ok L sampleSWorld"
    using sampleSWorld_ok(3) by (simp add: sampleServer_def getAllLoops_def newPool_def)
  ultimately show ?thesis
    using newConnection_effect [OF sampleSWorld_ok(1), of 7 sampleKernel sampleUser 1 localhost] sampleSWorld_ok(2)
    by auto
qed

text \<open>
  Removing a connection of the table, in the base loop, takes out its entry and no other,
  keeps the table consistent, and queues its destruction in the connection's own loop.
\<close>

theorem removeConnection_effect:
  assumes "server_ok w" and "connections (server w) nm = Some c" and "isInLoopThread t (srvLoop (server w)) w"
  shows "\<exists>w'. removeConnection t c w = Inr w' \<and> server_ok w' \<and>
    connections (server w') = (connections (server w))(nm := None) \<and> (\<forall>nm'. connections (server w') nm' \<noteq> Some c) \<and>
    pendingFunctors (loops w' (cnLoop (conns w c))) = pendingFunctors (loops w (cnLoop (conns w c))) @ [FConnectDestroyed c]"
proof -
  let ?w' = "removeConnectionInLoop t c w"
  have nm: "cnName (conns w c) = nm" using server_okD(5) [OF assms(1,2)] .
  have "connections (server ?w') nm' \<noteq> Some c" for nm'
    using server_ok_inj [OF assms(1,2), of nm'] nm by auto
  with nm assms(3) removeConnectionInLoop_ok [OF assms(1)] show ?thesis
    by (intro exI [of _ ?w']) (simp add: removeConnection_def runInLoop_def removeConnectionInLoop_pending)
qed

theorem removeConnection_effect_witness:
  "\<exists>w'. removeConnection 1 5 sampleSWorld = Inr w' \<and> (\<forall>nm. connections (server w') nm \<noteq> Some 5)"
proof -
  have "connections (server sampleSWorld) (connName sampleServer 1) = Some 5" by simp
  moreover have "isInLoopThread 1 (srvLoop (server sampleSWorld)) sampleSWorld" by (simp add: isInLoopThread_def)
  ultimately show ?thesis using removeConnection_effect [OF sampleSWorld_ok(1)] by blast
qed

end
