(* ===== verification/EchoServer.thy ===== *)
theory EchoServer
  imports ServerLife
begin

text \<open>
  The application \<^verbatim>\<open>testmymuduo/testmuduo.cc\<close>: an echo server that answers the first
  message of a connection and closes it. What it relies on of a connection is stated as
  a locale, interpreted on \<^verbatim>\<open>TcpConnection\<close>.
\<close>

section \<open>The code\<close>

text \<open>\<^verbatim>\<open>onConnection\<close> only logs the peer.\<close>

definition echoOnConnection :: "nat \<Rightarrow> nat \<Rightarrow> 'a cworld_scheme \<Rightarrow> fault + 'a cworld_scheme" where
  "echoOnConnection t c w = bind_res (toIpPort (cnPeerAddr (conns w c))) (\<lambda>_. Inr w)"

text \<open>\<^verbatim>\<open>onMessage\<close>: its local string \<^verbatim>\<open>msg\<close> is at address \<open>p\<close> while it runs.\<close>

definition holdString :: "nat \<Rightarrow> char list \<Rightarrow> 'a cworld_scheme \<Rightarrow> 'a cworld_scheme" where
  "holdString p s w = w\<lparr>mem := (mem w)(p := Some s)\<rparr>"

definition dropString :: "nat \<Rightarrow> 'a cworld_scheme \<Rightarrow> 'a cworld_scheme" where
  "dropString p w = w\<lparr>mem := (mem w)(p := None)\<rparr>"

definition echoOnMessage :: "kernel \<Rightarrow> nat \<Rightarrow> nat \<Rightarrow> nat \<Rightarrow> 'a cworld_scheme \<Rightarrow> fault + 'a cworld_scheme" where
  "echoOnMessage K p t c w =
     bind_res (retrieveAllAsString (cnInput (conns w c))) (\<lambda>(msg, b).
     let w = setConn c (\<lambda>cn. cn\<lparr>cnInput := b\<rparr>) w
     in bind_res (connSend K t c p (holdString p msg w)) (\<lambda>w.
        bind_res (connShutdown K t c w) (\<lambda>w. Inr (dropString p w))))"

definition echoUser :: "kernel \<Rightarrow> nat \<Rightarrow> 'a cworld_scheme user" where
  "echoUser K p = \<lparr>onConnection = echoOnConnection, onMessage = echoOnMessage K p,
     onWriteComplete = (\<lambda>t c w. Inl BadFunctionCall), onHighWaterMark = (\<lambda>t c n w. Inl BadFunctionCall),
     onClose = (\<lambda>t c w. Inl BadFunctionCall)\<rparr>"

definition newEchoServer :: "kernel \<Rightarrow> nat \<Rightarrow> inetaddr \<Rightarrow> string \<Rightarrow> nat \<Rightarrow> 'a sworld_scheme \<Rightarrow> fault + 'a sworld_scheme" where
  "newEchoServer K loop addr nm ch w =
     bind_res (newTcpServer K (Some loop) addr nm False ch w)
       (\<lambda>w. Inr (srvSetThreadNum 3 (srvSetMessageCallback (srvSetConnectionCallback w))))"

text \<open>\<^verbatim>\<open>main\<close>: the loop at address 0, its wakeup channel at 0 and the acceptor's at 1.\<close>

definition echoMain :: "kernel \<Rightarrow> (string \<Rightarrow> 8 word \<times> 8 word \<times> 8 word \<times> 8 word) \<Rightarrow> bool \<Rightarrow> (nat \<Rightarrow> int) \<Rightarrow> (nat \<Rightarrow> int) \<Rightarrow>
    nat \<Rightarrow> nat \<Rightarrow> 'a sworld_scheme \<Rightarrow> (fault + 'a sworld_scheme) option" where
  "echoMain K inet_addr muduoUsePoll epollfd wakeupFd p t w =
     (case bind_res (newEventLoop K muduoUsePoll (epollfd 0) (wakeupFd 0) t 0 0 w) (\<lambda>w.
           bind_res (newEchoServer K 0 (newInetAddress inet_addr 8000 defaultIp) ''EchoServer01'' 1 w) (\<lambda>w.
           serverStart K muduoUsePoll epollfd wakeupFd (\<lambda>L w. Inr w) t w)) of
        Inl e \<Rightarrow> Some (Inl e)
      | Inr w \<Rightarrow> loopRun (serverTurn K (echoUser K p) (\<lambda>n w. Inr w) t 0) 0 w)"

section \<open>The interface\<close>

text \<open>
  One connection as an application sees it in the loop's thread: open or closing, with the
  stream of bytes sent so far. \<open>hold\<close> and \<open>dispose\<close> are the scope of a local string.
\<close>

locale tcp_stream =
  fixes ready :: "'w \<Rightarrow> bool"
    and closing :: "'w \<Rightarrow> bool"
    and room :: "nat \<Rightarrow> 'w \<Rightarrow> bool"
    and sentBytes :: "'w \<Rightarrow> char list"
    and hold :: "char list \<Rightarrow> 'w \<Rightarrow> 'w"
    and dispose :: "'w \<Rightarrow> 'w"
    and send :: "'w \<Rightarrow> fault + 'w"
    and close :: "'w \<Rightarrow> fault + 'w"
  assumes send_law: "ready w \<Longrightarrow> room (length s) w \<Longrightarrow>
      \<exists>w'. send (hold s w) = Inr w' \<and> ready w' \<and> sentBytes w' = sentBytes w @ s"
    and close_law: "ready w \<Longrightarrow> \<exists>w'. close w = Inr w' \<and> closing w' \<and> sentBytes w' = sentBytes w"
    and closing_law: "closing w \<Longrightarrow> closing (hold s w) \<and> sentBytes (hold s w) = sentBytes w \<and>
      send (hold s w) = Inr (hold s w) \<and> close (hold s w) = Inr (hold s w)"
    and dispose_law: "closing w \<Longrightarrow> closing (dispose w) \<and> sentBytes (dispose w) = sentBytes w"
begin

definition reply :: "char list \<Rightarrow> 'w \<Rightarrow> fault + 'w" where
  "reply s w = bind_res (send (hold s w)) (\<lambda>w. bind_res (close w) (\<lambda>w. Inr (dispose w)))"

lemma reply_ready:
  assumes "ready w" and "room (length s) w"
  shows "\<exists>w'. reply s w = Inr w' \<and> closing w' \<and> sentBytes w' = sentBytes w @ s"
proof -
  from send_law [OF assms] obtain w1 where w1: "send (hold s w) = Inr w1" "ready w1" "sentBytes w1 = sentBytes w @ s" by blast
  from close_law [OF w1(2)] obtain w2 where w2: "close w1 = Inr w2" "closing w2" "sentBytes w2 = sentBytes w1" by blast
  with w1 dispose_law [OF w2(2)] show ?thesis by (simp add: reply_def)
qed

lemma reply_closing:
  "closing w \<Longrightarrow> \<exists>w'. reply s w = Inr w' \<and> closing w' \<and> sentBytes w' = sentBytes w"
  using closing_law [of w s] dispose_law [of "hold s w"] by (simp add: reply_def)

end

section \<open>TcpConnection provides it\<close>

lemma string_frame [simp]:
  "syslog (holdString p s w) = syslog w" "chans (holdString p s w) = chans w" "pollers (holdString p s w) = pollers w"
  "loops (holdString p s w) = loops w" "conns (holdString p s w) = conns w" "mem (holdString p s w) = (mem w)(p := Some s)"
  "syslog (dropString p w) = syslog w" "chans (dropString p w) = chans w" "pollers (dropString p w) = pollers w"
  "loops (dropString p w) = loops w" "conns (dropString p w) = conns w"
  by (simp_all add: holdString_def dropString_def)

lemma session_ok_cong:
  assumes "pollers w' = pollers w" "chans w' = chans w" "conns w' c = conns w c" "loops w' = loops w" "syslog w' = syslog w"
  shows "session_ok t c w' = session_ok t c w"
proof -
  have "conn_wired c w' = conn_wired c w" by (rule conn_wired_cong) (use assms in simp_all)
  with assms show ?thesis
    by (simp add: session_ok_def conn_ok_def closing_ok_def connChan_def isInLoopThread_def)
qed

lemma string_session [simp]:
  "session_ok t c (holdString p s w) = session_ok t c w" "session_ok t c (dropString p w) = session_ok t c w"
  by (rule session_ok_cong; simp)+

lemma string_connChan [simp]: "connChan c (holdString p s w) = connChan c w" "connChan c (dropString p w) = connChan c w"
  by (simp_all add: connChan_def)

definition kernel_ok :: "kernel \<Rightarrow> bool" where
  "kernel_ok K \<longleftrightarrow> ctl_documented K \<and> write_documented K \<and> peer_stays K"

definition streamReady :: "kernel \<Rightarrow> nat \<Rightarrow> nat \<Rightarrow> int \<Rightarrow> 'a cworld_scheme \<Rightarrow> bool" where
  "streamReady K t c fd w \<longleftrightarrow> kernel_ok K \<and> session_ok t c w \<and> cnState (conns w c) = KConnected \<and> connFd c w = fd"

definition streamClosing :: "nat \<Rightarrow> nat \<Rightarrow> int \<Rightarrow> 'a cworld_scheme \<Rightarrow> bool" where
  "streamClosing t c fd w \<longleftrightarrow> session_ok t c w \<and> cnState (conns w c) = KDisconnecting \<and> connFd c w = fd"

definition outStream :: "nat \<Rightarrow> 'a cworld_scheme \<Rightarrow> char list" where
  "outStream c w = written (connFd c w) (syslog w) @ waiting c w"

interpretation tcps: tcp_stream "streamReady K t c fd" "streamClosing t c fd" "\<lambda>n w. fits n (cnOutput (conns w c))" "outStream c"
    "holdString p" "dropString p" "connSend K t c p" "connShutdown K t c" for K t c p fd
proof unfold_locales
  fix w :: "'a cworld_scheme" and s :: "char list"
  assume ready: "streamReady K t c fd w" and fit: "fits (length s) (cnOutput (conns w c))"
  let ?w = "holdString p s w"
  from ready have ok: "session_ok t c ?w" and st: "cnState (conns ?w c) = KConnected" and K: "kernel_ok K" and fd: "connFd c w = fd"
    by (simp_all add: streamReady_def)
  note D = session_okD [OF ok]
  from K have K': "ctl_documented K" "write_documented K" "peer_stays K" by (simp_all add: kernel_ok_def)
  have "fits (length s) (cnOutput (conns ?w c))" using fit by simp
  from sendInLoop_sent [OF D(1,4) K'(1,2) this] obtain w' where w': "sendInLoop K t c s ?w = Inr w'" "sent K c s ?w w'" by blast
  have run: "connSend K t c p ?w = Inr w'" using connSend_inLoop [OF st D(3), of p s] w'(1) by simp
  note no = peer_staysD [OF K'(3), of c s ?w]
  have frame: "connFrame c ?w w'" using w'(2) by (simp add: sent_def)
  have "outStream c w' = outStream c w @ s"
    using w'(2) no connFrameD(2) [OF frame] by (simp add: sent_def outStream_def)
  moreover have "streamReady K t c fd w'"
    using K st sent_session [OF ok w'(2) no st] w'(2) connFrameD(2) [OF frame] fd by (simp add: streamReady_def sent_def)
  ultimately show "\<exists>w'. connSend K t c p ?w = Inr w' \<and> streamReady K t c fd w' \<and> outStream c w' = outStream c w @ s"
    using run by blast
next
  fix w :: "'a cworld_scheme"
  assume "streamReady K t c fd w"
  then have ok: "session_ok t c w" and st: "cnState (conns w c) = KConnected" and fd: "connFd c w = fd"
    by (simp_all add: streamReady_def)
  from connShutdown_inLoop [OF ok st, of K] obtain w' where w': "connShutdown K t c w = Inr w'" "session_ok t c w'"
      "cnState (conns w' c) = KDisconnecting" "connFrame c w w'" "cnOutput (conns w' c) = cnOutput (conns w c)"
      "\<forall>fd. written fd (syslog w') = written fd (syslog w)" by blast
  then show "\<exists>w'. connShutdown K t c w = Inr w' \<and> streamClosing t c fd w' \<and> outStream c w' = outStream c w"
    using connFrameD(2) [OF w'(4)] fd by (simp add: streamClosing_def outStream_def)
qed (auto simp: streamClosing_def outStream_def connSend_def connShutdown_def)

lemma echoOnMessage_reply:
  assumes "retrieveAllAsString (cnInput (conns w c)) = Inr (msg, b)"
  shows "echoOnMessage K p t c w = tcps.reply p K t c msg (setConn c (\<lambda>cn. cn\<lparr>cnInput := b\<rparr>) w)"
  using assms by (simp add: echoOnMessage_def tcps.reply_def)

section \<open>Reading and answering\<close>

lemma callSet_True [simp]: "callSet True f w = f w"
  by (simp add: callSet_def)

text \<open>A read that brings bytes, up to the callback, in terms of the interface.\<close>

lemma echo_read:
  assumes ok: "session_ok t c w" and set: "messageSet (conns w c)"
    and rv: "k_readv K (syslog w) (connFd c w) (readvRoom (cnInput (conns w c))) = Inr got" and some: "got \<noteq> []"
    and fit: "fits (length got) (cnInput (conns w c))"
  shows "\<exists>w2. handleRead K (echoUser K p) t c w = tcps.reply p K t c (unread c w @ got) w2 \<and> session_ok t c w2 \<and>
    cnState (conns w2 c) = cnState (conns w c) \<and> cnOutput (conns w2 c) = cnOutput (conns w c) \<and>
    outStream c w2 = outStream c w \<and> connFd c w2 = connFd c w \<and> unread c w2 = []"
proof -
  have "\<forall>got'. k_readv K (syslog w) (connFd c w) (readvRoom (cnInput (conns w c))) = Inr got' \<longrightarrow>
      fits (length got') (cnInput (conns w c))" using rv fit by simp
  from handleRead_delivered [OF session_okD(1) [OF ok] this, of "echoUser K p" t] rv some set
  obtain w1 where w1: "conn_ok c w1" "connFrame c w w1" "cnState (conns w1 c) = cnState (conns w c)"
      "cnOutput (conns w1 c) = cnOutput (conns w c)"
      "\<forall>fd. written fd (syslog w1) = written fd (syslog w) \<and> shutdowns fd (syslog w1) = shutdowns fd (syslog w)"
      "unread c w1 = unread c w @ got" "handleRead K (echoUser K p) t c w = echoOnMessage K p t c w1"
    by (auto simp: echoUser_def)
  note fr = connFrameD(1,2,7) [OF w1(2)]
  from conn_okD(2) [OF w1(1)] have take: "retrieveAllAsString (cnInput (conns w1 c)) =
      Inr (unread c w @ got, retrieveAll (cnInput (conns w1 c)))"
    using w1(6) by (simp add: retrieveAllAsString_content)
  let ?b = "retrieveAll (cnInput (conns w1 c))"
  let ?w2 = "setConn c (\<lambda>cn. cn\<lparr>cnInput := ?b\<rparr>) w1"
  have chan: "connChan c ?w2 = connChan c w1" by (simp add: connChan_def)
  have "conn_wired c ?w2" using conn_okD(1) [OF w1(1)] by (subst conn_wired_cong [of _ w1]) simp_all
  then have "conn_ok c ?w2"
    using w1(1) chan retrieveAll_ok [OF conn_okD(2) [OF w1(1)]] by (simp add: conn_ok_def)
  moreover have "closing_ok c ?w2"
    using session_okD(2) [OF ok] w1(3,4,5) fr(2) chan by (simp add: closing_ok_def)
  moreover have "isInLoopThread t (connLoop c ?w2) ?w2"
    using session_okD(3) [OF ok] fr by (simp add: isInLoopThread_def)
  ultimately have "session_ok t c ?w2" by (simp add: session_ok_def)
  moreover have "handleRead K (echoUser K p) t c w = tcps.reply p K t c (unread c w @ got) ?w2"
    using w1(7) echoOnMessage_reply [OF take, of K p t] by simp
  ultimately show ?thesis
    using w1(3,4,5) fr chan by (intro exI [of _ ?w2]) (simp add: outStream_def retrieveAll_content)
qed

section \<open>Properties\<close>

text \<open>
  The echo server echoes. When bytes arrive on an open connection (with a kernel that
  behaves as documented, and memory for them), the whole handling of the event succeeds;
  everything unread, followed by the new bytes, is added to what is sent, nothing else; the
  connection is then closing, and its write side is shut down at once if all of it was
  written, otherwise not yet.
\<close>

theorem echo_answers_and_closes:
  assumes "session_ok t c w" and "cnState (conns w c) = KConnected" and "messageSet (conns w c)"
    and "ctl_documented K" and "write_documented K" and "peer_stays K"
    and "k_readv K (syslog w) (connFd c w) (readvRoom (cnInput (conns w c))) = Inr got" and "got \<noteq> []"
    and "fits (length got) (cnInput (conns w c))" and "fits (length (unread c w @ got)) (cnOutput (conns w c))"
  shows "\<exists>w'. handleRead K (echoUser K p) t c w = Inr w' \<and> session_ok t c w' \<and>
    cnState (conns w' c) = KDisconnecting \<and> connFd c w' = connFd c w \<and>
    written (connFd c w') (syslog w') @ waiting c w' =
      written (connFd c w) (syslog w) @ waiting c w @ unread c w @ got \<and>
    shutdowns (connFd c w') (syslog w') = (if waiting c w' = [] then 1 else 0)"
proof -
  obtain w2 where w2: "handleRead K (echoUser K p) t c w = tcps.reply p K t c (unread c w @ got) w2"
      "session_ok t c w2" "cnState (conns w2 c) = cnState (conns w c)" "cnOutput (conns w2 c) = cnOutput (conns w c)"
      "outStream c w2 = outStream c w" "connFd c w2 = connFd c w"
    using echo_read [OF assms(1,3,7,8,9), of p] by blast
  have "streamReady K t c (connFd c w) w2" using w2(2,3,6) assms(2,4-6) by (simp add: streamReady_def kernel_ok_def)
  moreover have "fits (length (unread c w @ got)) (cnOutput (conns w2 c))" using assms(10) w2(4) by simp
  ultimately obtain w' where w': "tcps.reply p K t c (unread c w @ got) w2 = Inr w'" "streamClosing t c (connFd c w) w'"
      "outStream c w' = outStream c w2 @ unread c w @ got"
    using tcps.reply_ready by blast
  with w2(1,5) session_okD(2) [of t c w'] show ?thesis
    by (auto simp: streamClosing_def outStream_def closing_ok_def)
qed

theorem echo_answers_and_closes_witness:
  "\<exists>w'. handleRead sampleKernel (echoUser sampleKernel 9) 1 5 sampleCWorld = Inr w' \<and>
    written (connFd 5 w') (syslog w') @ waiting 5 w' = ''cdeping'' \<and> cnState (conns w' 5) = KDisconnecting"
proof -
  have room: "4 \<le> readvRoom sampleBuffer"
    by (simp add: readvRoom_def writeableBytes_ok [OF sampleBuffer_ok]) (simp add: sampleBuffer_def extrabufSize_def)
  then have rv: "k_readv sampleKernel (syslog sampleCWorld) (connFd 5 sampleCWorld)
      (readvRoom (cnInput (conns sampleCWorld 5))) = Inr ''ping''"
    by (simp add: sampleKernel_def sampleConn_buffers)
  have u: "unread 5 sampleCWorld @ ''ping'' = ''cdeping''"
    by (simp add: sampleConn_buffers content_def sampleBuffer_def Prelude.slice_def)
  have "fits (length ''ping'') (cnInput (conns sampleCWorld 5))"
    by (rule fits_mono [of 100]) (simp_all add: sampleConn_buffers)
  moreover have "fits (length (unread 5 sampleCWorld @ ''ping'')) (cnOutput (conns sampleCWorld 5))"
    unfolding u by (rule fits_mono [of 100]) (simp_all add: sampleConn_buffers)
  moreover have "cnState (conns sampleCWorld 5) = KConnected" "messageSet (conns sampleCWorld 5)" by simp_all
  ultimately obtain w' where w': "handleRead sampleKernel (echoUser sampleKernel 9) 1 5 sampleCWorld = Inr w'"
      "session_ok 1 5 w'" "cnState (conns w' 5) = KDisconnecting"
      "written (connFd 5 w') (syslog w') @ waiting 5 w' =
        written (connFd 5 sampleCWorld) (syslog sampleCWorld) @ waiting 5 sampleCWorld @ unread 5 sampleCWorld @ ''ping''"
    using echo_answers_and_closes [OF sampleCWorld_ok _ _ sampleKernel_documented(1,2) sampleKernel_stays(1) rv, of 9] by auto
  with u show ?thesis by (auto simp: sampleConn_buffers)
qed

text \<open>
  After the first answer the echo server still takes what arrives but answers nothing:
  the bytes are removed from the input buffer and dropped.
\<close>

theorem echo_ignores_after_close:
  assumes "session_ok t c w" and "cnState (conns w c) = KDisconnecting" and "messageSet (conns w c)"
    and "k_readv K (syslog w) (connFd c w) (readvRoom (cnInput (conns w c))) = Inr got" and "got \<noteq> []"
    and "fits (length got) (cnInput (conns w c))"
  shows "\<exists>w'. handleRead K (echoUser K p) t c w = Inr w' \<and> session_ok t c w' \<and>
    cnState (conns w' c) = KDisconnecting \<and> connFd c w' = connFd c w \<and>
    written (connFd c w') (syslog w') @ waiting c w' = written (connFd c w) (syslog w) @ waiting c w"
proof -
  obtain w2 where w2: "handleRead K (echoUser K p) t c w = tcps.reply p K t c (unread c w @ got) w2"
      "session_ok t c w2" "cnState (conns w2 c) = cnState (conns w c)" "outStream c w2 = outStream c w"
      "connFd c w2 = connFd c w"
    using echo_read [OF assms(1,3-6), of p] by blast
  then have "streamClosing t c (connFd c w2) w2" using assms(2) by (simp add: streamClosing_def)
  from tcps.reply_closing [OF this, of p K "unread c w @ got"] w2 show ?thesis
    by (auto simp: streamClosing_def outStream_def)
qed

definition closingCWorld :: cworld where
  "closingCWorld = setState 5 KDisconnecting (logCall (SysShutdownWr 3 True) sampleCWorld)"

lemma closingCWorld_ok: "session_ok 1 5 closingCWorld" "cnState (conns closingCWorld 5) = KDisconnecting"
proof -
  have "conn_wired 5 closingCWorld"
    using conn_okD(1) [OF session_okD(1) [OF sampleCWorld_ok]] unfolding closingCWorld_def
    by (subst conn_wired_cong [of _ sampleCWorld]) simp_all
  then show "session_ok 1 5 closingCWorld"
    using sampleConn_buffers sampleBuffer_ok session_okD(3) [OF sampleCWorld_ok]
    by (simp add: session_ok_def conn_ok_def closing_ok_def closingCWorld_def isInLoopThread_def connChan_def)
      (simp add: sampleCWorld_def)
  show "cnState (conns closingCWorld 5) = KDisconnecting" by (simp add: closingCWorld_def)
qed

theorem echo_ignores_after_close_witness:
  "\<exists>w'. handleRead sampleKernel (echoUser sampleKernel 9) 1 5 closingCWorld = Inr w' \<and>
    written (connFd 5 w') (syslog w') @ waiting 5 w' = []"
proof -
  have same: "cnInput (conns closingCWorld 5) = sampleBuffer" "messageSet (conns closingCWorld 5)"
    "waiting 5 closingCWorld = []" "written (connFd 5 closingCWorld) (syslog closingCWorld) = []"
    by (simp_all add: closingCWorld_def sampleConn_buffers)
  have "4 \<le> readvRoom sampleBuffer"
    by (simp add: readvRoom_def writeableBytes_ok [OF sampleBuffer_ok]) (simp add: sampleBuffer_def extrabufSize_def)
  then have rv: "k_readv sampleKernel (syslog closingCWorld) (connFd 5 closingCWorld)
      (readvRoom (cnInput (conns closingCWorld 5))) = Inr ''ping''"
    by (simp add: sampleKernel_def same)
  have "fits (length ''ping'') (cnInput (conns closingCWorld 5))"
    by (rule fits_mono [of 100]) (simp_all add: sampleConn_buffers same)
  from echo_ignores_after_close [OF closingCWorld_ok same(2) rv _ this, of 9] same show ?thesis by auto
qed

text \<open>
  C16: When the peer of an echo connection goes, the connection is cleaned up by three steps
  in two threads: the connection's loop closes it and asks the base loop to remove it; the
  base loop takes it out of the table and asks the connection's loop to destroy it; that
  loop then removes the channel. None of the steps fails, and at the end neither the
  kernel, nor the poller, nor the table knows the connection.
\<close>

theorem echo_close_cleans_up:
  assumes "conn_wired c w" and "ctl_documented K" and "server_ok w" and "connections (server w) nm = Some c"
    and "connectionSet (conns w c)" and "closeSet (conns w c)" and "\<not> isInLoopThread t (srvLoop (server w)) w"
  shows "\<exists>w1 w2 w3. handleClose K (serverUser (echoUser K p)) t c w = Inr w1 \<and>
    pendingFunctors (loops w1 (srvLoop (server w))) =
      pendingFunctors (loops w (srvLoop (server w))) @ [FRemoveConnectionInLoop c] \<and>
    execFunctor K (echoUser K p) task t' (FRemoveConnectionInLoop c) w1 = Inr w2 \<and>
    pendingFunctors (loops w2 (connLoop c w)) = pendingFunctors (loops w1 (connLoop c w)) @ [FConnectDestroyed c] \<and>
    execFunctor K (echoUser K p) task t (FConnectDestroyed c) w2 = Inr w3 \<and>
    unregistered (connLoop c w) (cnChannel (conns w c)) (connFd c w) w3 \<and>
    connections (server w3) = (connections (server w))(nm := None) \<and> cnState (conns w3 c) = KDisconnected"
proof -
  let ?U = "serverUser (echoUser K p)" and ?d = "downWorld c w" and ?B = "srvLoop (server w)"
  have nm: "cnName (conns w c) = nm" by (rule server_okD(5) [OF assms(3,4)])
  have srv: "server ?d = server w" by (simp add: downWorld_def)
  have "onConnection ?U t c ?d = Inr ?d"
    by (simp add: serverUser_def echoUser_def echoOnConnection_def toIpPort_Inr(1))
  moreover have "onClose ?U t c ?d = Inr (queueInLoop t ?B (FRemoveConnectionInLoop c) ?d)"
    using assms(7) srv by (simp add: serverUser_def removeConnection_def runInLoop_def isInLoopThread_def)
  ultimately have 1: "handleClose K ?U t c w = Inr (queueInLoop t ?B (FRemoveConnectionInLoop c) ?d)"
    using handleClose_run [OF assms(1,2), of ?U t] assms(5,6) by simp
  let ?w1 = "queueInLoop t ?B (FRemoveConnectionInLoop c) ?d"
  let ?w2 = "removeConnectionInLoop t' c ?w1"
  have conns2: "conns ?w2 = conns ?d" by simp
  have "conn_wired c ?w2"
    using downWorld_ok(1) [OF assms(1)] by (subst conn_wired_cong [of _ ?d]) simp_all
  from conn_removed [OF this assms(2)] obtain w3 where w3: "channelRemove K (cnChannel (conns ?w2 c)) ?w2 = Inr w3"
      "conns w3 = conns ?w2" "unregistered (connLoop c ?w2) (cnChannel (conns ?w2 c)) (connFd c ?w2) w3" by blast
  have fd2: "connFd c ?w2 = connFd c w" by (simp add: connChan_def downWorld_def interestWorld_def)
  have "channelRemove K (cnChannel (conns ?w2 c)) ?w2 =
      Inr (removedWorld (connLoop c ?w2) (cnChannel (conns ?w2 c)) ?w2)"
    by (rule conn_remove(1) [OF \<open>conn_wired c ?w2\<close> assms(2)])
  with w3(1) have "server w3 = server ?w2" by auto
  moreover have "server ?w2 = (server w)\<lparr>connections := (connections (server w))(nm := None)\<rparr>"
    using srv nm by simp
  ultimately have tab: "connections (server w3) = (connections (server w))(nm := None)" by simp
  have 2: "execFunctor K (echoUser K p) task t' (FRemoveConnectionInLoop c) ?w1 = Inr ?w2"
    by (simp add: execFunctor_def)
  have 3: "execFunctor K (echoUser K p) task t (FConnectDestroyed c) ?w2 = Inr w3"
    using w3(1) by (simp add: execFunctor_def connectDestroyed_def)
  have "pendingFunctors (loops ?w1 ?B) = pendingFunctors (loops w ?B) @ [FRemoveConnectionInLoop c]"
    by simp
  moreover have "pendingFunctors (loops ?w2 (connLoop c w)) = pendingFunctors (loops ?w1 (connLoop c w)) @ [FConnectDestroyed c]"
    by (simp add: removeConnectionInLoop_pending)
  moreover have "cnState (conns w3 c) = KDisconnected" using w3(2) by simp
  moreover have "unregistered (connLoop c w) (cnChannel (conns w c)) (connFd c w) w3"
    using w3(3) fd2 by simp
  ultimately show ?thesis using 1 2 3 tab by blast
qed

theorem echo_close_cleans_up_witness:
  "\<exists>w1 w2 w3. handleClose sampleKernel (serverUser (echoUser sampleKernel 9)) 2 5 sampleSWorld = Inr w1 \<and>
    execFunctor sampleKernel (echoUser sampleKernel 9) (\<lambda>n w. Inr w) 1 (FRemoveConnectionInLoop 5) w1 = Inr w2 \<and>
    execFunctor sampleKernel (echoUser sampleKernel 9) (\<lambda>n w. Inr w) 2 (FConnectDestroyed 5) w2 = Inr w3 \<and>
    unregistered 0 3 3 w3"
proof -
  have chan: "connChan 5 sampleSWorld = newChannel 0 3" by (simp add: connChan_def)
  have "conn_wired 5 sampleSWorld"
    using sampleSWorld_ok(3) by (simp add: conn_wired_def chan fd_free_def)
  moreover have "connections (server sampleSWorld) (connName sampleServer 1) = Some 5" by simp
  moreover have "connectionSet (conns sampleSWorld 5)" "closeSet (conns sampleSWorld 5)" by (simp_all add: sampleConn_def)
  moreover have "\<not> isInLoopThread 2 (srvLoop (server sampleSWorld)) sampleSWorld" by (simp add: isInLoopThread_def)
  ultimately show ?thesis
    using echo_close_cleans_up [OF _ sampleKernel_documented(1) sampleSWorld_ok(1),
        of 5 "connName sampleServer 1" 2 9 "\<lambda>n w. Inr w" 1] chan
    by auto
qed

end
