(* ===== verification/EchoSession.thy ===== *)
theory EchoSession
  imports EchoServer
begin

text \<open>
  A connection of the echo server from its descriptor to its last byte: accepted in the base
  loop, established in a loop of the pool, read, answered and shut down.
\<close>

section \<open>From the descriptor to an open connection\<close>

definition handedWorld :: "kernel \<Rightarrow> nat \<Rightarrow> int \<Rightarrow> inetaddr \<Rightarrow> nat \<Rightarrow> pool \<Rightarrow> buffer \<Rightarrow> 'a sworld_scheme \<Rightarrow> 'a sworld_scheme" where
  "handedWorld K t fd peer L p b w = queueInLoop t L (FConnectEstablished (fresh w)) (acceptedWorld K fd peer L p b w)"

lemma handed_conn:
  assumes "poll_ok L w" "unused (fresh w) fd w" "buf_ok b" "content b = []"
  shows "conn_ok (fresh w) (handedWorld K t fd peer L p b w)"
proof -
  let ?A = "acceptedWorld K fd peer L p b w" and ?w = "handedWorld K t fd peer L p b w"
  have ok: "conn_ok (fresh w) ?A" by (rule acceptedWorld_conn [OF assms])
  have "conn_wired (fresh w) ?w"
    using conn_okD(1) [OF ok] by (subst conn_wired_cong [of _ ?A]) (simp_all add: handedWorld_def)
  with ok show ?thesis by (simp add: conn_ok_def handedWorld_def connChan_def)
qed

lemma handed_simps:
  "connLoop (fresh w) (handedWorld K t fd peer L p b w) = L"
  "connFd (fresh w) (handedWorld K t fd peer L p b w) = fd"
  "chEvents (connChan (fresh w) (handedWorld K t fd peer L p b w)) = kNoneEvent"
  "cnChannel (conns (handedWorld K t fd peer L p b w) (fresh w)) = fresh w"
  "connectionSet (conns (handedWorld K t fd peer L p b w) (fresh w)) = srvConnectionSet (server w)"
  "messageSet (conns (handedWorld K t fd peer L p b w) (fresh w)) = srvMessageSet (server w)"
  "cnInput (conns (handedWorld K t fd peer L p b w) (fresh w)) = b"
  "cnOutput (conns (handedWorld K t fd peer L p b w) (fresh w)) = b"
  "written fd (syslog (handedWorld K t fd peer L p b w)) = written fd (syslog w)"
  "shutdowns fd (syslog (handedWorld K t fd peer L p b w)) = shutdowns fd (syslog w)"
  "isInLoopThread i L (handedWorld K t fd peer L p b w) = isInLoopThread i L w"
  by (simp_all add: handedWorld_def acceptedConn_def connChan_def isInLoopThread_def)

lemma established_session:
  assumes "conn_ok c w" "ctl_documented K" "waiting c w = []" "shutdowns (connFd c w) (syslog w) = 0"
    and "isInLoopThread t (connLoop c w) w" "\<not> isWriting (connChan c w)"
  shows "session_ok t c (establishedWorld c w)"
proof -
  note wired = connectEstablished_run(2) [OF conn_okD(1) [OF assms(1)] assms(2)]
  have "conn_ok c (establishedWorld c w)"
    using wired conn_okD(2,3) [OF assms(1)] assms(3,6) by (simp add: conn_ok_def)
  moreover have "closing_ok c (establishedWorld c w)" using assms(4) by (simp add: closing_ok_def)
  moreover have "isInLoopThread t (connLoop c (establishedWorld c w)) (establishedWorld c w)"
    using assms(5) by (simp add: isInLoopThread_def)
  ultimately show ?thesis by (simp add: session_ok_def)
qed

text \<open>A fresh buffer has room for its size and what \<^verbatim>\<open>readFd\<close> adds on the stack.\<close>

lemma newBuffer_room: "newBuffer kInitialSize = Inr b \<Longrightarrow> readvRoom b = kInitialSize + extrabufSize"
  by (auto simp: newBuffer_def bind_res_Inr_iff vec_resize_def readvRoom_def writeableBytes_def size_sub_def size_add_def
      size_mod_def kCheapPrepend_def kInitialSize_def extrabufSize_def vec_max_size_def split: if_splits)

text \<open>One round: what was read is written, and the write side is shut down.\<close>

lemma echo_round:
  assumes "session_ok t c w" "cnState (conns w c) = KConnected" "messageSet (conns w c)"
    and K: "ctl_documented K" "write_documented K" "peer_stays K" "makes_progress K"
    and rv: "k_readv K (syslog w) (connFd c w) (readvRoom (cnInput (conns w c))) = Inr got" "got \<noteq> []"
    and fit: "fits (length got) (cnInput (conns w c))" "fits (length (unread c w @ got)) (cnOutput (conns w c))"
    and fd: "connFd c w = fd" and out: "outStream c w = before" and un: "unread c w = []"
  shows "\<exists>w3 w4. handleRead K (echoUser K p) t c w = Inr w3 \<and>
    runAll (connStep K t c) (replicate (length (waiting c w3)) OpWritable) w3 = Inr w4 \<and>
    written fd (syslog w4) = before @ got \<and> shutdowns fd (syslog w4) = 1"
proof -
  from echo_answers_and_closes [OF assms(1-3) K(1-3) rv fit, of p] obtain w3 where w3:
      "handleRead K (echoUser K p) t c w = Inr w3" "session_ok t c w3" "cnState (conns w3 c) = KDisconnecting" "connFd c w3 = fd"
      "written fd (syslog w3) @ waiting c w3 = written fd (syslog w) @ waiting c w @ unread c w @ got"
    using fd by auto
  from drain_run [OF w3(2) K(1,2,4) order_refl] obtain w4 where w4:
      "runAll (connStep K t c) (replicate (length (waiting c w3)) OpWritable) w3 = Inr w4" "session_ok t c w4" "waiting c w4 = []"
      "cnState (conns w4 c) = cnState (conns w3 c)" "connFd c w4 = connFd c w3"
      "written (connFd c w3) (syslog w4) = written (connFd c w3) (syslog w3) @ waiting c w3" by blast
  from session_okD(2) [OF w4(2)] w4(3-5) w3(3,4) have "shutdowns fd (syslog w4) = 1" by (simp add: closing_ok_def)
  moreover have "written fd (syslog w4) = before @ got" using w4(6) w3(4,5) fd out un by (simp add: outStream_def)
  ultimately show ?thesis using w3(1) w4(1) by blast
qed

section \<open>The property\<close>

text \<open>
  C7: The echo server serves a connection from beginning to end. A new descriptor is given, in
  the base loop, to a loop of the pool; when that loop has run the queued functor, the kernel
  watches the descriptor for reading. Whatever a read then brings is answered: after as many
  writable events as bytes are left waiting, exactly the bytes read have been written to the
  descriptor, in order, and its write side has been shut down, once. None of the steps fails.
\<close>

theorem accepted_connection_echoes:
  assumes "server_ok w" and "nextConnId (server w) < 2 ^ 31 - 1" and "unused (fresh w) fd w" and "shutdowns fd (syslog w) = 0"
    and "\<forall>L \<in> set (getAllLoops (srvPool (server w))). poll_ok L w \<and> \<not> isInLoopThread t L w"
    and "srvConnectionSet (server w)" and "srvMessageSet (server w)"
    and "ctl_documented K" and "write_documented K" and "peer_stays K" and "makes_progress K"
    and "readv_documented K"
  shows "\<exists>L w1 w2. L \<in> set (getAllLoops (srvPool (server w))) \<and>
    newConnection K (echoUser K p) t fd peer w = Inr w1 \<and>
    pendingFunctors (loops w1 L) = pendingFunctors (loops w L) @ [FConnectEstablished (fresh w)] \<and>
    execFunctor K (echoUser K p) task (threadId (loops w L)) (FConnectEstablished (fresh w)) w1 = Inr w2 \<and>
    interest L (syslog w2) fd = Some (kReadEvent, fresh w) \<and>
    (\<forall>got. k_readv K (syslog w2) fd (kInitialSize + extrabufSize) = Inr got \<and> got \<noteq> [] \<longrightarrow>
      (\<exists>w3 w4. handleRead K (echoUser K p) (threadId (loops w L)) (fresh w) w2 = Inr w3 \<and>
        runAll (connStep K (threadId (loops w L)) (fresh w)) (replicate (length (waiting (fresh w) w3)) OpWritable) w3 = Inr w4 \<and>
        written fd (syslog w4) = written fd (syslog w) @ got \<and> shutdowns fd (syslog w4) = 1))"
proof -
  let ?P = "srvPool (server w)" and ?c = "fresh w"
  note D = server_okD [OF assms(1)]
  from poolc.pick_law [OF D(1)] obtain q where q: "getNextLoop ?P = Inr (getAllLoops ?P ! nat (nextIdx ?P), q)" "pool_ok q" by blast
  define L where "L = getAllLoops ?P ! nat (nextIdx ?P)"
  have L: "L \<in> set (getAllLoops ?P)" unfolding L_def using poolc.pick_member [OF D(1) q(1)] by simp
  with assms(5) have poll: "poll_ok L w" and away: "\<not> isInLoopThread t L w" by auto
  obtain b where b: "newBuffer kInitialSize = Inr b" "buf_ok b" "content b = []" "length (bytes b) = kCheapPrepend + kInitialSize"
    by (rule kInitialSize_buffer)
  let ?w1 = "handedWorld K t fd peer L q b w" and ?t = "threadId (loops w L)"
  let ?w2 = "establishedWorld ?c ?w1"
  have run1: "newConnection K (echoUser K p) t fd peer w = Inr ?w1"
    using newConnection_run [OF q(1) [folded L_def] b(1) assms(2)] away
    by (simp add: runInLoop_def isInLoopThread_def handedWorld_def)
  have pend: "pendingFunctors (loops ?w1 L) = pendingFunctors (loops w L) @ [FConnectEstablished ?c]"
    by (simp add: handedWorld_def)
  have ok1: "conn_ok ?c ?w1" by (rule handed_conn [OF poll assms(3) b(2,3)])
  have run2: "execFunctor K (echoUser K p) task ?t (FConnectEstablished ?c) ?w1 = Inr ?w2"
    using connectEstablished_run(1) [OF conn_okD(1) [OF ok1] assms(8)] assms(6)
    by (simp add: execFunctor_def serverUser_def echoUser_def echoOnConnection_def toIpPort_Inr(1) handed_simps)
  have watched: "interest L (syslog ?w2) fd = Some (kReadEvent, ?c)"
    using establishedWorld_watched [of ?c ?w1] by (simp add: handed_simps)
  have quietChan: "\<not> isWriting (connChan ?c ?w1)" by (simp add: isWriting_def handed_simps kNoneEvent_def)
  have s2: "session_ok ?t ?c ?w2"
    by (rule established_session [OF ok1 assms(8) _ _ _ quietChan]) (simp_all add: handed_simps b(3) assms(4), simp add: isInLoopThread_def handedWorld_def)
  have same: "connFd ?c ?w2 = fd" "messageSet (conns ?w2 ?c)" "cnInput (conns ?w2 ?c) = b" "cnOutput (conns ?w2 ?c) = b"
      "cnState (conns ?w2 ?c) = KConnected" "outStream ?c ?w2 = written fd (syslog w)"
    using assms(7) b(3) by (simp_all add: handed_simps outStream_def)
  have room: "readvRoom b = kInitialSize + extrabufSize" and fit: "n \<le> kInitialSize + extrabufSize \<Longrightarrow> fits n b" for n
    using newBuffer_room [OF b(1)] b(4) by (simp_all add: fits_def vec_max_size_def kCheapPrepend_def kInitialSize_def extrabufSize_def)
  have "\<exists>w3 w4. handleRead K (echoUser K p) ?t ?c ?w2 = Inr w3 \<and>
      runAll (connStep K ?t ?c) (replicate (length (waiting ?c w3)) OpWritable) w3 = Inr w4 \<and>
      written fd (syslog w4) = written fd (syslog w) @ got \<and> shutdowns fd (syslog w4) = 1"
    if got: "k_readv K (syslog ?w2) fd (kInitialSize + extrabufSize) = Inr got" "got \<noteq> []" for got
  proof -
    have "length got \<le> kInitialSize + extrabufSize" using assms(12) got(1) by (auto simp: readv_documented_def)
    with got same room fit b(3) show ?thesis by (intro echo_round [OF s2 same(5,2) assms(8-11)]) simp_all
  qed
  with L run1 pend run2 watched show ?thesis by blast
qed

text \<open>Descriptor 7 on the sample server, whose one loop belongs to another thread: the client says ping.\<close>

theorem accepted_connection_echoes_witness:
  "\<exists>w1 w2 w3 w4. newConnection sampleKernel (echoUser sampleKernel 9) 2 7 localhost sampleSWorld = Inr w1 \<and>
    execFunctor sampleKernel (echoUser sampleKernel 9) (\<lambda>n w. Inr w) 1 (FConnectEstablished 6) w1 = Inr w2 \<and>
    handleRead sampleKernel (echoUser sampleKernel 9) 1 6 w2 = Inr w3 \<and>
    runAll (connStep sampleKernel 1 6) (replicate (length (waiting 6 w3)) OpWritable) w3 = Inr w4 \<and>
    written 7 (syslog w4) = ''ping'' \<and> shutdowns 7 (syslog w4) = 1"
proof -
  have "nextConnId (server sampleSWorld) < 2 ^ 31 - 1" "srvConnectionSet (server sampleSWorld)" "srvMessageSet (server sampleSWorld)"
    by (simp_all add: sampleServer_def)
  moreover have "\<forall>L \<in> set (getAllLoops (srvPool (server sampleSWorld))). poll_ok L sampleSWorld \<and> \<not> isInLoopThread 2 L sampleSWorld"
    using sampleSWorld_ok(3) by (simp add: sampleServer_def getAllLoops_def newPool_def isInLoopThread_def)
  moreover have "unused (fresh sampleSWorld) 7 sampleSWorld" "shutdowns 7 (syslog sampleSWorld) = 0"
    using sampleSWorld_ok(2) by simp_all
  moreover have "k_readv sampleKernel log 7 (kInitialSize + extrabufSize) = Inr ''ping''" for log
    by (simp add: sampleKernel_def kInitialSize_def extrabufSize_def)
  ultimately show ?thesis
    using accepted_connection_echoes [OF sampleSWorld_ok(1), of 7 2 sampleKernel 9 localhost "\<lambda>n w. Inr w"]
      sampleKernel_documented sampleKernel_stays
    by auto
qed

end
