(* ===== verification/LoopQuit.thy ===== *)
theory LoopQuit
  imports ServerLife Wakeup
begin

text \<open>
  A loop that is told to quit before it runs: the loop of an \<^verbatim>\<open>EventLoopThread\<close>, from its
  constructor in the new thread to \<^verbatim>\<open>loop()\<close>, with the destructor's \<^verbatim>\<open>quit()\<close> in between.
\<close>

section \<open>A loop with nothing to do\<close>

text \<open>The epoll instance reports the eventfd of the loop, times out, or is interrupted; nothing else.\<close>

definition onlyWakeups :: "kernel \<Rightarrow> nat \<Rightarrow> nat \<Rightarrow> bool" where
  "onlyWakeups K L c \<longleftrightarrow> (\<forall>log size. k_wait K log L size \<in> range Inl \<union> {Inr [], Inr [(c, EPOLLIN)]})"

definition idleLoop :: "nat \<Rightarrow> nat \<Rightarrow> 'a lworld_scheme \<Rightarrow> bool" where
  "idleLoop L c w \<longleftrightarrow> pollers w L \<noteq> None \<and> pendingFunctors (loops w L) = [] \<and>
     \<not> chTied (chans w c) \<and> readCallback (chans w c) = Some (WakeupRead L)"

lemma idle_poll:
  assumes "onlyWakeups K L c" "idleLoop L c w"
  shows "\<exists>active w'. pollerPoll K L [] w = Inr (active, w') \<and> (active = [] \<or> active = [c] \<and> chRevents (chans w' c) = EPOLLIN) \<and>
    idleLoop L c w' \<and> loops w' = loops w"
proof -
  from assms(2) obtain p where p: "pollers w L = Some p" by (auto simp: idleLoop_def)
  have "k_wait K (syslog w) L (eventsSize p) \<in> range Inl \<union> {Inr [], Inr [(c, EPOLLIN)]}"
    using assms(1) by (simp add: onlyWakeups_def)
  then consider e where "k_wait K (syslog w) L (eventsSize p) = Inl e" | "k_wait K (syslog w) L (eventsSize p) = Inr []"
    | "k_wait K (syslog w) L (eventsSize p) = Inr [(c, EPOLLIN)]" by auto
  then show ?thesis
    by cases (use assms(2) p in \<open>simp_all add: pollerPoll_def idleLoop_def logCall_def setChan_def setPoller_def set_revents_def Let_def\<close>)
qed

lemma idle_event:
  assumes "idleLoop L c w" "chRevents (chans w c) = EPOLLIN"
  shows "channelEvent K U accept t c w = Inr (loopHandleRead L w)"
  using assms by (simp add: channelEvent_def handleEvent_def handleEventWithGuard_def callIf_def runCallback_def idleLoop_def
      event_bits loopHandleRead_def logCall_def)

lemma idle_turn:
  assumes "onlyWakeups K L c" "idleLoop L c w" "\<not> quitFlag (loops w L)"
  shows "\<exists>w'. serverTurn K U task t L w = Inr w' \<and> idleLoop L c w' \<and> \<not> quitFlag (loops w' L)"
proof -
  let ?w = "setLoop L (\<lambda>l. l\<lparr>activeChannels := []\<rparr>) w"
  have "idleLoop L c ?w" using assms(2) by (simp add: idleLoop_def setLoop_def)
  from idle_poll [OF assms(1) this] obtain active w1 where w1: "pollerPoll K L [] ?w = Inr (active, w1)"
      "active = [] \<or> active = [c] \<and> chRevents (chans w1 c) = EPOLLIN" "idleLoop L c w1" "loops w1 = loops ?w" by blast
  let ?w1 = "setLoop L (\<lambda>l. l\<lparr>activeChannels := active\<rparr>) w1"
  have i: "idleLoop L c ?w1" "chRevents (chans ?w1 c) = chRevents (chans w1 c)" "\<not> quitFlag (loops ?w1 L)"
    using w1(3,4) assms(3) by (simp_all add: idleLoop_def setLoop_def)
  from w1(2) have "\<exists>w2. runAll (channelEvent K (serverUser U) (acceptEvent K U) t) active ?w1 = Inr w2 \<and>
      idleLoop L c w2 \<and> \<not> quitFlag (loops w2 L)"
  proof (elim disjE conjE)
    assume "active = [c]" "chRevents (chans w1 c) = EPOLLIN"
    with idle_event [OF i(1)] i show ?thesis by (simp add: idleLoop_def loopHandleRead_def logCall_def)
  qed (use i in simp)
  then obtain w2 where w2: "runAll (channelEvent K (serverUser U) (acceptEvent K U) t) active ?w1 = Inr w2"
      "idleLoop L c w2" "\<not> quitFlag (loops w2 L)" by blast
  have "doPendingFunctors (execFunctor K U task t) L w2 = Inr (endFunctors L (swapFunctors L w2))"
    using w2(2) by (simp add: doPendingFunctors_steps idleLoop_def)
  with w1(1) w2 show ?thesis
    by (simp add: serverTurn_def loopTurn_def idleLoop_def endFunctors_def swapFunctors_def setLoop_def Let_def)
qed

lemma new_loop_idle:
  assumes "newEventLoop K muduoUsePoll epollfd wakeupFd t L c w = Inr w1"
  shows "idleLoop L c w1" "threadId (loops w1 L) = t" "quitFlag (loops w1 L) = False"
proof -
  from assms show "idleLoop L c w1" "threadId (loops w1 L) = t" "quitFlag (loops w1 L) = False"
    unfolding newEventLoop_def Let_def
    by (auto simp: bind_res_Inr_iff newDefaultPoller_def channelInterest_def channelUpdate_def loopUpdateChannel_def
        pollerUpdateChannel_def epollUpdate_def newChannel_def setChan_def set_index_def setReadCallback_def setPoller_def
        logCall_def idleLoop_def kNew_def Let_def split: if_splits option.splits)
qed

text \<open>
  C0: \<^verbatim>\<open>quit()\<close> called before the loop's thread enters \<^verbatim>\<open>loop()\<close> is lost, because \<^verbatim>\<open>loop()\<close>
  resets \<^verbatim>\<open>quit_\<close>. When a new loop, fresh from its constructor, is told to quit by another thread
  (which wakes it up, too) and then runs, and its epoll instance reports nothing but the
  eventfd, \<^verbatim>\<open>loop()\<close> never returns. The destructor of \<^verbatim>\<open>EventLoopThread\<close>, which quits the loop
  and joins the thread, then waits for ever. Had the loop been running, the same \<^verbatim>\<open>quit()\<close> would
  have ended it after the turn it is in.
\<close>

theorem quit_before_loop_is_lost:
  assumes "newEventLoop K muduoUsePoll epollfd wakeupFd t L c w = Inr w1" and "onlyWakeups K L c" and "t' \<noteq> t"
  shows "loopRun (serverTurn K U task t L) L (quitLoop t' L w1) = None \<and>
    wakeups L (syslog (quitLoop t' L w1)) = Suc (wakeups L (syslog w1)) \<and>
    (\<exists>w2. serverTurn K U task t L (loopStart L w1) = Inr w2 \<and>
       loopWhile (serverTurn K U task t L) L (quitLoop t' L w2) = Some (Inr (endLoop L (quitLoop t' L w2))))"
proof (intro conjI)
  note new = new_loop_idle [OF assms(1)]
  have "keepsRunning (idleLoop L c) (serverTurn K U task t L) L"
    unfolding keepsRunning_def using idle_turn [OF assms(2)] by blast
  moreover have "idleLoop L c (loopStart L (quitLoop t' L w1))"
    using new(1) by (simp add: idleLoop_def loop_defs loopStart_def Let_def)
  ultimately show "loopRun (serverTurn K U task t L) L (quitLoop t' L w1) = None" by (rule loopRun_never_returns)
  show "wakeups L (syslog (quitLoop t' L w1)) = Suc (wakeups L (syslog w1))"
    using new(2) assms(3) by (simp add: loop_defs Let_def)
  have "idleLoop L c (loopStart L w1)" "\<not> quitFlag (loops (loopStart L w1) L)"
    using new(1) by (simp_all add: idleLoop_def setLoop_def loopStart_def)
  from idle_turn [OF assms(2) this] obtain w2 where "serverTurn K U task t L (loopStart L w1) = Inr w2" by blast
  moreover have "loopWhile (serverTurn K U task t L) L (quitLoop t' L w2) = Some (Inr (endLoop L (quitLoop t' L w2)))"
    by (subst loopWhile.simps) (simp add: loop_defs endLoop_def Let_def)
  ultimately show "\<exists>w2. serverTurn K U task t L (loopStart L w1) = Inr w2 \<and>
       loopWhile (serverTurn K U task t L) L (quitLoop t' L w2) = Some (Inr (endLoop L (quitLoop t' L w2)))" by blast
qed

theorem quit_before_loop_is_lost_witness:
  "\<exists>w1. newEventLoop sampleKernel False 20 21 3 4 8 sampleSWorld = Inr w1 \<and>
     loopRun (serverTurn sampleKernel sampleUser (\<lambda>n w. Inr w) 3 4) 4 (quitLoop 1 4 w1) = None"
proof -
  have "\<exists>w1. newEventLoop sampleKernel False 20 21 3 4 8 sampleSWorld = Inr w1"
    by (simp add: newEventLoop_def newDefaultPoller_def newEpollPoller_def channelInterest_def channelUpdate_def loopUpdateChannel_def
        pollerUpdateChannel_def epollUpdate_def newChannel_def setChan_def set_index_def setReadCallback_def setPoller_def
        logCall_def kNew_def Let_def sampleSWorld_def cworld.defs sampleCWorld_def sampleKernel_def)
  then obtain w1 where "newEventLoop sampleKernel False 20 21 3 4 8 sampleSWorld = Inr w1" by blast
  moreover have "onlyWakeups sampleKernel 4 8" by (simp add: onlyWakeups_def sampleKernel_def)
  ultimately show ?thesis using quit_before_loop_is_lost [of sampleKernel False 20 21 3 4 8 sampleSWorld w1 1] by auto
qed

end
