(* ===== verification/CrossSend.thy ===== *)
theory CrossSend
  imports EchoServer Wakeup
begin

text \<open>
  \<^verbatim>\<open>TcpConnection::send\<close> from a thread that is not the connection's, together with the turn of
  the loop that runs what it has queued.
\<close>

text \<open>The caller's part only queues the address and the length; the connection is as it was.\<close>

definition handedSend :: "nat \<Rightarrow> nat \<Rightarrow> nat \<Rightarrow> nat \<Rightarrow> 'a cworld_scheme \<Rightarrow> 'a cworld_scheme" where
  "handedSend t c p n w = queueInLoop t (connLoop c w) (FSendInLoop c p n) w"

lemma handedSend_simps [simp]:
  "conns (handedSend t c p n w) = conns w" "chans (handedSend t c p n w) = chans w" "pollers (handedSend t c p n w) = pollers w"
  "pendingFunctors (loops (handedSend t c p n w) (connLoop c w)) = pendingFunctors (loops w (connLoop c w)) @ [FSendInLoop c p n]"
  "written fd (syslog (handedSend t c p n w)) = written fd (syslog w)"
  "shutdowns fd (syslog (handedSend t c p n w)) = shutdowns fd (syslog w)"
  "interest L (syslog (handedSend t c p n w)) = interest L (syslog w)"
  "threadId (loops (handedSend t c p n w) L) = threadId (loops w L)"
  by (simp_all add: handedSend_def)

lemma connSend_hands_over:
  assumes "cnState (conns w c) = KConnected" "\<not> isInLoopThread t (connLoop c w) w" "mem w p = Some s"
  shows "connSend K t c p w = Inr (handedSend t c p (length s) w)"
  using assms by (simp add: connSend_def runInLoop_def handedSend_def)

text \<open>The state in which the loop runs the functors it has swapped out.\<close>

lemma swapped_simps [simp]:
  "conns (swapFunctors L w) = conns w" "chans (swapFunctors L w) = chans w" "pollers (swapFunctors L w) = pollers w"
  "syslog (swapFunctors L w) = syslog w" "mem (swapFunctors L w) = mem w" "threadId (loops (swapFunctors L w) M) = threadId (loops w M)"
  by (simp_all add: swapFunctors_def setLoop_def)

lemma session_ok_quiet:
  assumes "session_ok t c w" "pollers w' = pollers w" "chans w' = chans w" "conns w' = conns w"
    "\<And>L. threadId (loops w' L) = threadId (loops w L)" "\<And>L. interest L (syslog w') = interest L (syslog w)"
    "\<And>fd. shutdowns fd (syslog w') = shutdowns fd (syslog w)"
  shows "session_ok t c w'"
proof -
  have "conn_wired c w' = conn_wired c w" by (rule conn_wired_cong) (use assms in simp_all)
  with assms show ?thesis
    by (simp add: session_ok_def conn_ok_def closing_ok_def connChan_def isInLoopThread_def)
qed

text \<open>
  C0: \<^verbatim>\<open>send\<close> from another thread binds the address of the caller's characters, not the
  characters. It returns at once; when the loop runs its functors, the queued call reads what is
  at that address then. If the string is gone, which its owner may let happen as soon as \<^verbatim>\<open>send\<close>
  has returned, this is a use after free; if something else is there, its first bytes, as many
  as the string had, are what the connection sends.
\<close>

theorem send_from_other_thread_dangles:
  assumes "session_ok t' c w" and "cnState (conns w c) = KConnected" and "\<not> isInLoopThread t (connLoop c w) w"
    and "ctl_documented K" and "write_documented K" and "peer_stays K"
    and "mem w p = Some s" and "fits (length s) (cnOutput (conns w c))" and "pendingFunctors (loops w (connLoop c w)) = []"
  shows "\<exists>w1. connSend K t c p w = Inr w1 \<and> outStream c w1 = outStream c w \<and>
    doPendingFunctors (execFunctor K U task t') (connLoop c w) (dropString p w1) = Inl UseAfterFree \<and>
    (\<forall>s'. length s \<le> length s' \<longrightarrow>
       (\<exists>w2. doPendingFunctors (execFunctor K U task t') (connLoop c w) (holdString p s' w1) = Inr w2 \<and>
          outStream c w2 = outStream c w @ take (length s) s'))"
proof -
  let ?L = "connLoop c w" and ?f = "FSendInLoop c p (length s)"
  let ?w1 = "handedSend t c p (length s) w"
  have send: "connSend K t c p w = Inr ?w1" by (rule connSend_hands_over [OF assms(2,3,7)])
  have out: "outStream c ?w1 = outStream c w" by (simp add: outStream_def connChan_def)
  have run: "doPendingFunctors (execFunctor K U task t') ?L v =
      bind_res (sendFrom K t' c p (length s) (swapFunctors ?L v)) (\<lambda>w. Inr (endFunctors ?L w))"
    if "loops v = loops ?w1" for v
    using that assms(9) by (cases "sendFrom K t' c p (length s) (swapFunctors ?L v)")
      (simp_all add: doPendingFunctors_steps execFunctor_def)
  have gone: "doPendingFunctors (execFunctor K U task t') ?L (dropString p ?w1) = Inl UseAfterFree"
    by (subst run) (simp_all add: sendFrom_def readMem_def dropString_def swapFunctors_def setLoop_def)
  have "\<exists>w2. doPendingFunctors (execFunctor K U task t') ?L (holdString p s' ?w1) = Inr w2 \<and>
      outStream c w2 = outStream c w @ take (length s) s'" if len: "length s \<le> length s'" for s'
  proof -
    let ?v = "swapFunctors ?L (holdString p s' ?w1)" and ?d = "take (length s) s'"
    have v: "session_ok t' c ?v" by (rule session_ok_quiet [OF assms(1)]) simp_all
    note D = session_okD [OF v]
    have "fits (length ?d) (cnOutput (conns ?v c))" using assms(8) len by (simp add: min_def)
    from sendInLoop_sent [OF D(1) _ assms(4,5) this] assms(2)
    obtain w2 where w2: "sendInLoop K t' c ?d ?v = Inr w2" "sent K c ?d ?v w2" by auto
    have "sendFrom K t' c p (length s) ?v = Inr w2"
      using w2(1) len by (simp add: sendFrom_def readMem_def)
    then have "doPendingFunctors (execFunctor K U task t') ?L (holdString p s' ?w1) = Inr (endFunctors ?L w2)"
      by (subst run) simp_all
    moreover have "outStream c (endFunctors ?L w2) = outStream c w @ ?d"
      using w2(2) peer_staysD [OF assms(6), of c ?d ?v] connFrameD(2) [of c ?v w2]
      by (simp add: sent_def outStream_def endFunctors_def setLoop_def connChan_def)
    ultimately show ?thesis by blast
  qed
  with send out gone show ?thesis by blast
qed

theorem send_from_other_thread_dangles_witness:
  "\<exists>w1 w2. connSend sampleKernel 2 5 0 sampleSWorld = Inr w1 \<and>
     doPendingFunctors (execFunctor sampleKernel sampleUser (\<lambda>n w. Inr w) 1) 0 (dropString 0 w1) = Inl UseAfterFree \<and>
     doPendingFunctors (execFunctor sampleKernel sampleUser (\<lambda>n w. Inr w) 1) 0 (holdString 0 ''other words!'' w1) = Inr w2 \<and>
     outStream 5 w2 = ''other words!''"
proof -
  have chan: "connChan 5 sampleSWorld = newChannel 0 3" by (simp add: connChan_def)
  have bufs: "cnInput (conns sampleSWorld 5) = sampleBuffer" "content (cnOutput (conns sampleSWorld 5)) = []"
      "buf_ok (cnOutput (conns sampleSWorld 5))" "fits 12 (cnOutput (conns sampleSWorld 5))"
      "cnState (conns sampleSWorld 5) = KConnected"
    using sampleConn_buffers by (simp_all add: fits_mono)
  have "conn_wired 5 sampleSWorld"
    using sampleSWorld_ok(3) by (simp add: conn_wired_def chan fd_free_def)
  then have s: "session_ok 1 5 sampleSWorld"
    using bufs sampleBuffer_ok by (simp add: session_ok_def conn_ok_def closing_ok_def chan isInLoopThread_def isWriting_def newChannel_def)
  have out: "outStream 5 sampleSWorld = []" using bufs(2) by (simp add: outStream_def)
  have m: "mem sampleSWorld 0 = Some ''hello, world''" by (simp add: sampleSWorld_def cworld.defs sampleCWorld_def)
  have len: "length ''hello, world'' = 12" "length ''other words!'' = 12" by simp_all
  have "connLoop 5 sampleSWorld = 0" "\<not> isInLoopThread 2 0 sampleSWorld" by (simp_all add: isInLoopThread_def chan)
  with send_from_other_thread_dangles [OF s bufs(5) _ sampleKernel_documented(1,2) sampleKernel_stays(1) m] bufs(4) len out
  show ?thesis by (metis append_Nil order_refl sampleSWorld_simps(8) take_all)
qed

end
