(* ===== verification/Json.thy ===== *)
theory Json
  imports InetAddress "HOL-Library.Char_ord" "HOL-Library.List_Lexorder"
begin

text \<open>
  The part of \<^verbatim>\<open>CHAT/thirdparty/json.hpp\<close> the chat programs rest on: JSON values, the
  accessors, the serializer (\<^verbatim>\<open>dump()\<close> with its UTF-8 automaton) and the parser (scanner and
  the loop of \<^verbatim>\<open>sax_parse_internal\<close> with the stack of \<^verbatim>\<open>json_sax_dom_parser\<close>). A
  floating-point value is kept as the text it was read from; what \<^verbatim>\<open>strtod\<close> and the conversions
  of \<^verbatim>\<open>double\<close> make of it is a parameter. Signed and unsigned 64-bit numbers are one
  constructor: no operation used here tells them apart.
\<close>

section \<open>Values\<close>

datatype json =
    JNull
  | JBool bool
  | JInt int
  | JFloat string
  | JString string
  | JArray "json list"
  | JObject "(string \<times> json) list"

record float_ops =
  fl_finite :: "string \<Rightarrow> bool"
  fl_int :: "string \<Rightarrow> int option"
  fl_text :: "string \<Rightarrow> string"

text \<open>The members of an object are a \<^verbatim>\<open>std::map\<close>: sorted by key, each key once.\<close>

fun objSet :: "string \<Rightarrow> json \<Rightarrow> (string \<times> json) list \<Rightarrow> (string \<times> json) list" where
  "objSet k v [] = [(k, v)]"
| "objSet k v ((k', v') # m) =
     (if k < k' then (k, v) # (k', v') # m else if k = k' then (k, v) # m else (k', v') # objSet k v m)"

text \<open>
  \<^verbatim>\<open>js[k]\<close>, read: a missing key counts as null (the code enters a null, but every reader here
  throws on it, so that the entry is never seen), and so does every key of null.
\<close>

definition jsonAt :: "json \<Rightarrow> string \<Rightarrow> fault + json" where
  "jsonAt j k =
     (case j of
        JObject m \<Rightarrow> Inr (case map_of m k of None \<Rightarrow> JNull | Some v \<Rightarrow> v)
      | JNull \<Rightarrow> Inr JNull
      | _ \<Rightarrow> Inl JsonType)"

text \<open>\<^verbatim>\<open>js[k] = v\<close>.\<close>

fun jsonSet :: "string \<Rightarrow> json \<Rightarrow> json \<Rightarrow> json" where
  "jsonSet k v (JObject m) = JObject (objSet k v m)"
| "jsonSet k v _ = JObject [(k, v)]"

definition jsonContains :: "json \<Rightarrow> string \<Rightarrow> bool" where
  "jsonContains j k = (case j of JObject m \<Rightarrow> map_of m k \<noteq> None | _ \<Rightarrow> False)"

text \<open>A conversion to the 32-bit \<^verbatim>\<open>int\<close> keeps the low bits.\<close>

definition toInt32 :: "int \<Rightarrow> int" where
  "toInt32 i = sint (word_of_int i :: 32 word)"

definition fitsInt :: "int \<Rightarrow> bool" where
  "fitsInt i \<longleftrightarrow> - (2 ^ 31) \<le> i \<and> i < 2 ^ 31"

text \<open>A \<^verbatim>\<open>double\<close> outside the range of \<^verbatim>\<open>int\<close> makes the conversion undefined.\<close>

definition jsonInt :: "float_ops \<Rightarrow> json \<Rightarrow> fault + int" where
  "jsonInt F j =
     (case j of
        JInt i \<Rightarrow> Inr (toInt32 i)
      | JBool b \<Rightarrow> Inr (if b then 1 else 0)
      | JFloat t \<Rightarrow> (case fl_int F t of None \<Rightarrow> Inl SignedOverflow | Some i \<Rightarrow> if fitsInt i then Inr i else Inl SignedOverflow)
      | _ \<Rightarrow> Inl JsonType)"

definition jsonStr :: "json \<Rightarrow> fault + string" where
  "jsonStr j = (case j of JString s \<Rightarrow> Inr s | _ \<Rightarrow> Inl JsonType)"

fun jsonStrs :: "json list \<Rightarrow> fault + string list" where
  "jsonStrs [] = Inr []"
| "jsonStrs (j # js) = bind_res (jsonStr j) (\<lambda>s. bind_res (jsonStrs js) (\<lambda>ss. Inr (s # ss)))"

definition jsonStrList :: "json \<Rightarrow> fault + string list" where
  "jsonStrList j = (case j of JArray js \<Rightarrow> jsonStrs js | _ \<Rightarrow> Inl JsonType)"

section \<open>The serializer\<close>

definition byte :: "char \<Rightarrow> nat" where
  "byte c = of_char c"

text \<open>The table of \<^verbatim>\<open>serializer::decode\<close>: the class of each byte, then the transitions.\<close>

definition byteClass :: "nat list" where
  "byteClass =
     replicate 128 0 @ replicate 16 1 @ replicate 16 9 @ replicate 32 7 @ [8, 8] @ replicate 30 2 @
     [10] @ replicate 12 3 @ [4, 3, 3] @ [11, 6, 6, 6, 5] @ replicate 11 8"

definition transitions :: "nat list" where
  "transitions =
     [0, 1, 2, 3, 5, 8, 7, 1, 1, 1, 4, 6, 1, 1, 1, 1,
      1, 1, 1, 1, 1, 1, 1, 1, 1, 1, 1, 1, 1, 1, 1, 1,
      1, 0, 1, 1, 1, 1, 1, 0, 1, 0, 1, 1, 1, 1, 1, 1,
      1, 2, 1, 1, 1, 1, 1, 2, 1, 2, 1, 1, 1, 1, 1, 1,
      1, 1, 1, 1, 1, 1, 1, 2, 1, 1, 1, 1, 1, 1, 1, 1,
      1, 2, 1, 1, 1, 1, 1, 1, 1, 2, 1, 1, 1, 1, 1, 1,
      1, 1, 1, 1, 1, 1, 1, 3, 1, 3, 1, 1, 1, 1, 1, 1,
      1, 3, 1, 1, 1, 1, 1, 3, 1, 3, 1, 1, 1, 1, 1, 1,
      1, 3, 1, 1, 1, 1, 1, 1, 1, 1, 1, 1, 1, 1, 1, 1]"

definition utf8d :: "nat list" where
  "utf8d = byteClass @ transitions"

definition utf8Accept :: nat where "utf8Accept = 0"

definition utf8Reject :: nat where "utf8Reject = 1"

text \<open>\<open>decode\<close>: the new state and the code point so far, a 32-bit number.\<close>

definition decode :: "nat \<Rightarrow> nat \<Rightarrow> nat \<Rightarrow> nat \<times> nat" where
  "decode st cp b =
     (let ty = utf8d ! b;
          cp' = (if st \<noteq> utf8Accept then (b AND 63) OR push_bit 6 cp mod 2 ^ 32
                 else drop_bit ty 255 AND b)
      in (utf8d ! (256 + st * 16 + ty), cp'))"

definition hexDigit :: "nat \<Rightarrow> char" where
  "hexDigit d = (if d < 10 then char_of (48 + d) else char_of (87 + d))"

definition backslash :: char where "backslash = CHR 0x5C"

definition dquote :: char where "dquote = CHR 0x22"

text \<open>What is written for a code point that is complete with byte \<open>c\<close>.\<close>

definition escaped :: "nat \<Rightarrow> char \<Rightarrow> string" where
  "escaped cp c =
     (if cp = 8 then [backslash, CHR ''b'']
      else if cp = 9 then [backslash, CHR ''t'']
      else if cp = 10 then [backslash, CHR ''n'']
      else if cp = 12 then [backslash, CHR ''f'']
      else if cp = 13 then [backslash, CHR ''r'']
      else if cp = 34 then [backslash, dquote]
      else if cp = 92 then [backslash, backslash]
      else if cp \<le> 31 then [backslash, CHR ''u'', CHR ''0'', CHR ''0'', hexDigit (cp div 16), hexDigit (cp mod 16)]
      else [c])"

text \<open>
  \<open>dump_escaped\<close> with \<^verbatim>\<open>ensure_ascii\<close> off and the strict error handler, as \<^verbatim>\<open>dump()\<close>
  calls it: the bytes of a longer sequence are copied as they come.
\<close>

fun dumpEscaped :: "nat \<Rightarrow> nat \<Rightarrow> string \<Rightarrow> fault + string" where
  "dumpEscaped st cp [] = (if st = utf8Accept then Inr [] else Inl JsonUtf8)"
| "dumpEscaped st cp (c # s) =
     (case decode st cp (byte c) of
        (st', cp') \<Rightarrow>
          if st' = utf8Accept then bind_res (dumpEscaped st' cp' s) (\<lambda>e. Inr (escaped cp' c @ e))
          else if st' = utf8Reject then Inl JsonUtf8
          else bind_res (dumpEscaped st' cp' s) (\<lambda>e. Inr (c # e)))"

definition dumpString :: "string \<Rightarrow> fault + string" where
  "dumpString s = bind_res (dumpEscaped utf8Accept 0 s) (\<lambda>e. Inr ([dquote] @ e @ [dquote]))"

text \<open>\<open>dump_integer\<close>.\<close>

definition dumpInt :: "int \<Rightarrow> string" where
  "dumpInt i = (if i < 0 then ''-'' @ decimal (nat (- i)) else decimal (nat i))"

fun dumpJson :: "float_ops \<Rightarrow> json \<Rightarrow> fault + string"
  and dumpElems :: "float_ops \<Rightarrow> json list \<Rightarrow> fault + string"
  and dumpMembers :: "float_ops \<Rightarrow> (string \<times> json) list \<Rightarrow> fault + string" where
  "dumpJson F JNull = Inr ''null''"
| "dumpJson F (JBool b) = Inr (if b then ''true'' else ''false'')"
| "dumpJson F (JInt i) = Inr (dumpInt i)"
| "dumpJson F (JFloat t) = Inr (fl_text F t)"
| "dumpJson F (JString s) = dumpString s"
| "dumpJson F (JArray js) =
     (if js = [] then Inr ''[]'' else bind_res (dumpElems F js) (\<lambda>e. Inr (''['' @ e @ '']'')))"
| "dumpJson F (JObject m) =
     (if m = [] then Inr ''{}'' else bind_res (dumpMembers F m) (\<lambda>e. Inr (''{'' @ e @ ''}'')))"
| "dumpElems F [] = Inr []"
| "dumpElems F (j # js) =
     bind_res (dumpJson F j) (\<lambda>s.
     if js = [] then Inr s else bind_res (dumpElems F js) (\<lambda>e. Inr (s @ '','' @ e)))"
| "dumpMembers F [] = Inr []"
| "dumpMembers F ((k, j) # m) =
     bind_res (dumpString k) (\<lambda>ks.
     bind_res (dumpJson F j) (\<lambda>s.
     if m = [] then Inr (ks @ '':'' @ s)
     else bind_res (dumpMembers F m) (\<lambda>e. Inr (ks @ '':'' @ s @ '','' @ e))))"

section \<open>The scanner\<close>

datatype token =
    TokTrue | TokFalse | TokNull
  | TokString string | TokInt int | TokFloat string
  | TokBeginArray | TokBeginObject | TokEndArray | TokEndObject
  | TokNameSep | TokValueSep
  | TokError | TokEnd

definition hexValue :: "char \<Rightarrow> nat option" where
  "hexValue c =
     (if 48 \<le> byte c \<and> byte c \<le> 57 then Some (byte c - 48)
      else if 65 \<le> byte c \<and> byte c \<le> 70 then Some (byte c - 55)
      else if 97 \<le> byte c \<and> byte c \<le> 102 then Some (byte c - 87)
      else None)"

text \<open>\<open>get_codepoint\<close>: the four digits after \<^verbatim>\<open>\u\<close>, and what follows them.\<close>

fun getCodepoint :: "string \<Rightarrow> (nat \<times> string) option" where
  "getCodepoint (a # b # c # d # s) =
     (case (hexValue a, hexValue b, hexValue c, hexValue d) of
        (Some w, Some x, Some y, Some z) \<Rightarrow> Some (w * 4096 + x * 256 + y * 16 + z, s)
      | _ \<Rightarrow> None)"
| "getCodepoint _ = None"

definition codepointBytes :: "nat \<Rightarrow> string" where
  "codepointBytes cp =
     (if cp < 128 then [char_of cp]
      else if cp \<le> 2047 then [char_of (192 OR drop_bit 6 cp), char_of (128 OR (cp AND 63))]
      else if cp \<le> 65535
      then [char_of (224 OR drop_bit 12 cp), char_of (128 OR (drop_bit 6 cp AND 63)), char_of (128 OR (cp AND 63))]
      else [char_of (240 OR drop_bit 18 cp), char_of (128 OR (drop_bit 12 cp AND 63)),
            char_of (128 OR (drop_bit 6 cp AND 63)), char_of (128 OR (cp AND 63))])"

text \<open>The escape after a backslash: the bytes it stands for, and what follows it.\<close>

definition scanEscape :: "string \<Rightarrow> (string \<times> string) option" where
  "scanEscape s =
     (case s of
        [] \<Rightarrow> None
      | c # s \<Rightarrow>
          if c = dquote \<or> c = backslash \<or> c = CHR ''/'' then Some ([c], s)
          else if c = CHR ''b'' then Some ([char_of (8::nat)], s)
          else if c = CHR ''f'' then Some ([char_of (12::nat)], s)
          else if c = CHR ''n'' then Some ([char_of (10::nat)], s)
          else if c = CHR ''r'' then Some ([char_of (13::nat)], s)
          else if c = CHR ''t'' then Some ([char_of (9::nat)], s)
          else if c = CHR ''u''
          then (case getCodepoint s of
                  None \<Rightarrow> None
                | Some (cp1, s1) \<Rightarrow>
                    if 55296 \<le> cp1 \<and> cp1 \<le> 56319
                    then (case s1 of
                            x # y # s2 \<Rightarrow>
                              if x = backslash \<and> y = CHR ''u''
                              then (case getCodepoint s2 of
                                      None \<Rightarrow> None
                                    | Some (cp2, s3) \<Rightarrow>
                                        if 56320 \<le> cp2 \<and> cp2 \<le> 57343
                                        then Some (codepointBytes (push_bit 10 cp1 + cp2 - 56613888), s3)
                                        else None)
                              else None
                          | _ \<Rightarrow> None)
                    else if 56320 \<le> cp1 \<and> cp1 \<le> 57343 then None
                    else Some (codepointBytes cp1, s1))
          else None)"

text \<open>The ranges \<open>next_byte_in_range\<close> is called with after a first byte; none for an ill-formed byte.\<close>

definition followRanges :: "nat \<Rightarrow> (nat \<times> nat) list option" where
  "followRanges b =
     (if 32 \<le> b \<and> b \<le> 127 then Some []
      else if 194 \<le> b \<and> b \<le> 223 then Some [(128, 191)]
      else if b = 224 then Some [(160, 191), (128, 191)]
      else if 225 \<le> b \<and> b \<le> 236 \<or> b = 238 \<or> b = 239 then Some [(128, 191), (128, 191)]
      else if b = 237 then Some [(128, 159), (128, 191)]
      else if b = 240 then Some [(144, 191), (128, 191), (128, 191)]
      else if 241 \<le> b \<and> b \<le> 243 then Some [(128, 191), (128, 191), (128, 191)]
      else if b = 244 then Some [(128, 143), (128, 191), (128, 191)]
      else None)"

lemma getCodepoint_shorter: "getCodepoint s = Some (cp, s') \<Longrightarrow> length s' < length s"
  by (cases s rule: getCodepoint.cases) (auto split: option.splits)

lemma scanEscape_shorter: "scanEscape s = Some (out, s') \<Longrightarrow> length s' < length s"
  unfolding scanEscape_def
  by (auto split: list.splits if_splits option.splits dest!: getCodepoint_shorter)

text \<open>
  \<open>scan_string\<close> after the opening quote, with the ranges still to be met by the next bytes
  and the bytes read so far; the end of the input is an error at every place.
\<close>

function (sequential) scanString :: "(nat \<times> nat) list \<Rightarrow> string \<Rightarrow> string \<Rightarrow> (string \<times> string) option" where
  "scanString rs acc [] = None"
| "scanString ((lo, hi) # rs) acc (c # s) =
     (if lo \<le> byte c \<and> byte c \<le> hi then scanString rs (acc @ [c]) s else None)"
| "scanString [] acc (c # s) =
     (if c = dquote then Some (acc, s)
      else if c = backslash
      then (case scanEscape s of None \<Rightarrow> None | Some (out, s') \<Rightarrow> scanString [] (acc @ out) s')
      else (case followRanges (byte c) of None \<Rightarrow> None | Some rs \<Rightarrow> scanString rs (acc @ [c]) s))"
  by pat_completeness auto
termination
proof (relation "measure (\<lambda>(rs, acc, s). length s)", goal_cases)
  case 1
  show ?case by simp
next
  case (2 lo hi rs acc c s)
  show ?case by simp
next
  case (3 acc c s p out s')
  then have "scanEscape s = Some (out, s')" by simp
  then show ?case using scanEscape_shorter less_Suc_eq by auto
next
  case (4 acc c s rs)
  show ?case by simp
qed

text \<open>The states of \<open>scan_number\<close>, one for each label.\<close>

datatype num_state = NMinus | NZero | NAny1 | NDecimal1 | NDecimal2 | NExponent | NSign | NAny2

datatype num_type = NumUnsigned | NumInteger | NumFloat

definition isDigit :: "char \<Rightarrow> bool" where
  "isDigit c \<longleftrightarrow> 48 \<le> byte c \<and> byte c \<le> 57"

text \<open>
  One step: \<open>None\<close> is an error, \<open>Some None\<close> that the number ended before the character,
  otherwise the character belongs to it and the scan goes on in the new state.
\<close>

definition numStep :: "num_state \<Rightarrow> char option \<Rightarrow> num_state option option" where
  "numStep st c =
     (let digit = (case c of None \<Rightarrow> False | Some c \<Rightarrow> isDigit c);
          expo = (c = Some (CHR ''e'') \<or> c = Some (CHR ''E''))
      in case st of
           NMinus \<Rightarrow> if c = Some (CHR ''0'') then Some (Some NZero) else if digit then Some (Some NAny1) else None
         | NZero \<Rightarrow> if c = Some (CHR ''.'') then Some (Some NDecimal1) else if expo then Some (Some NExponent) else Some None
         | NAny1 \<Rightarrow> if digit then Some (Some NAny1) else if c = Some (CHR ''.'') then Some (Some NDecimal1)
                    else if expo then Some (Some NExponent) else Some None
         | NDecimal1 \<Rightarrow> if digit then Some (Some NDecimal2) else None
         | NDecimal2 \<Rightarrow> if digit then Some (Some NDecimal2) else if expo then Some (Some NExponent) else Some None
         | NExponent \<Rightarrow> if c = Some (CHR ''+'') \<or> c = Some (CHR ''-'') then Some (Some NSign)
                        else if digit then Some (Some NAny2) else None
         | NSign \<Rightarrow> if digit then Some (Some NAny2) else None
         | NAny2 \<Rightarrow> if digit then Some (Some NAny2) else Some None)"

definition numType :: "num_state \<Rightarrow> num_type \<Rightarrow> num_type" where
  "numType st ty = (case st of NMinus \<Rightarrow> NumInteger | NDecimal1 \<Rightarrow> NumFloat | NExponent \<Rightarrow> NumFloat | _ \<Rightarrow> ty)"

fun scanDigits :: "num_state \<Rightarrow> num_type \<Rightarrow> string \<Rightarrow> string \<Rightarrow> (num_type \<times> string \<times> string) option" where
  "scanDigits st ty acc [] = (case numStep st None of Some None \<Rightarrow> Some (ty, acc, []) | _ \<Rightarrow> None)"
| "scanDigits st ty acc (c # s) =
     (case numStep st (Some c) of
        None \<Rightarrow> None
      | Some None \<Rightarrow> Some (ty, acc, c # s)
      | Some (Some st') \<Rightarrow> scanDigits st' (numType st' ty) (acc @ [c]) s)"

text \<open>
  \<open>scan_number\<close>: the text is converted by \<^verbatim>\<open>strtoull\<close> or \<^verbatim>\<open>strtoll\<close>; what does not fit
  64 bits becomes a floating-point number.
\<close>

definition numberToken :: "num_type \<Rightarrow> string \<Rightarrow> token" where
  "numberToken ty t =
     (case ty of
        NumUnsigned \<Rightarrow> if readDecimal t < 2 ^ 64 then TokInt (int (readDecimal t)) else TokFloat t
      | NumInteger \<Rightarrow> if readDecimal (tl t) \<le> 2 ^ 63 then TokInt (- int (readDecimal (tl t))) else TokFloat t
      | NumFloat \<Rightarrow> TokFloat t)"

definition scanNumber :: "char \<Rightarrow> string \<Rightarrow> token \<times> string" where
  "scanNumber c s =
     (let st = (if c = CHR ''-'' then NMinus else if c = CHR ''0'' then NZero else NAny1)
      in case scanDigits st (numType st NumUnsigned) [c] s of
           None \<Rightarrow> (TokError, [])
         | Some (ty, t, s') \<Rightarrow> (numberToken ty t, s'))"

definition scanLiteral :: "string \<Rightarrow> token \<Rightarrow> string \<Rightarrow> token \<times> string" where
  "scanLiteral lit t s =
     (if take (length lit) s = lit then (t, drop (length lit) s) else (TokError, []))"

definition isBlank :: "char \<Rightarrow> bool" where
  "isBlank c \<longleftrightarrow> c = CHR '' '' \<or> byte c = 9 \<or> byte c = 10 \<or> byte c = 13"

text \<open>
  \<open>scan\<close>: the next token and the input after it. A NUL byte is the end of the input. After
  an error or the end the parser asks for no further token, so nothing is kept.
\<close>

definition scan :: "string \<Rightarrow> token \<times> string" where
  "scan s =
     (case dropWhile isBlank s of
        [] \<Rightarrow> (TokEnd, [])
      | c # s \<Rightarrow>
          if c = CHR ''['' then (TokBeginArray, s)
          else if c = CHR '']'' then (TokEndArray, s)
          else if c = CHR ''{'' then (TokBeginObject, s)
          else if c = CHR ''}'' then (TokEndObject, s)
          else if c = CHR '':'' then (TokNameSep, s)
          else if c = CHR '','' then (TokValueSep, s)
          else if c = CHR ''t'' then scanLiteral ''rue'' TokTrue s
          else if c = CHR ''f'' then scanLiteral ''alse'' TokFalse s
          else if c = CHR ''n'' then scanLiteral ''ull'' TokNull s
          else if c = dquote
          then (case scanString [] [] s of None \<Rightarrow> (TokError, []) | Some (str, s') \<Rightarrow> (TokString str, s'))
          else if c = CHR ''-'' \<or> isDigit c then scanNumber c s
          else if byte c = 0 then (TokEnd, [])
          else (TokError, []))"

text \<open>\<open>skip_bom\<close>, before the first token; \<open>None\<close> when a byte order mark is begun but not completed.\<close>

definition skipBom :: "string \<Rightarrow> string option" where
  "skipBom s =
     (case s of
        c # s' \<Rightarrow>
          if byte c = 239
          then (case s' of
                  x # y # s'' \<Rightarrow> if byte x = 187 \<and> byte y = 191 then Some s'' else None
                | _ \<Rightarrow> None)
          else Some s
      | [] \<Rightarrow> Some s)"

section \<open>The parser\<close>

lemma scanString_shorter: "scanString rs acc s = Some (str, s') \<Longrightarrow> length s' < length s"
proof (induction rs acc s rule: scanString.induct)
  case (3 acc c s)
  show ?case
  proof (cases "c = dquote")
    case True
    with 3(3) show ?thesis by simp
  next
    case False
    show ?thesis
    proof (cases "c = backslash")
      case True
      with False 3(3) obtain out s1 where e: "scanEscape s = Some (out, s1)" "scanString [] (acc @ out) s1 = Some (str, s')"
        by (auto split: option.splits)
      from 3(1) [OF False True e(1) _ e(2)] scanEscape_shorter [OF e(1)] show ?thesis by simp
    next
      case nb: False
      with False 3(3) obtain rs where e: "followRanges (byte c) = Some rs" "scanString rs (acc @ [c]) s = Some (str, s')"
        by (auto split: option.splits)
      from 3(2) [OF False nb e] show ?thesis by simp
    qed
  qed
qed (auto split: if_splits)

lemma scanDigits_shorter: "scanDigits st ty acc s = Some (ty', t, s') \<Longrightarrow> length s' \<le> length s"
  by (induction st ty acc s rule: scanDigits.induct) (auto split: option.splits)

definition endToken :: "token \<Rightarrow> bool" where
  "endToken t \<longleftrightarrow> t = TokEnd \<or> t = TokError"

lemma scan_shorter: "scan s = (t, s') \<Longrightarrow> endToken t \<and> s' = [] \<or> length s' < length s"
proof -
  assume r: "scan s = (t, s')"
  have d: "length (dropWhile isBlank s) \<le> length s" by (rule length_dropWhile_le)
  show ?thesis
  proof (cases "dropWhile isBlank s")
    case Nil
    with r show ?thesis by (simp add: scan_def endToken_def)
  next
    case (Cons c s1)
    with d have l: "length s1 < length s" by simp
    then show ?thesis
      using r Cons
      by (auto simp: scan_def scanLiteral_def scanNumber_def endToken_def Let_def
          split: if_splits option.splits prod.splits dest!: scanString_shorter scanDigits_shorter)
  qed
qed

lemma scan_measure:
  "(t, s') = scan s \<Longrightarrow> length s' \<le> length s \<and> (t = TokEnd \<or> t = TokError \<or> length s' < length s)"
  using scan_shorter [of s t s'] by (auto simp: endToken_def)

text \<open>
  What the parser remembers of the values it is inside of: the elements of an array read so
  far, or the members of an object and the key whose value is being read (\<open>states\<close> together
  with \<open>ref_stack\<close> and \<open>object_element\<close> of the DOM builder).
\<close>

datatype frame = ArrayFrame "json list" | ObjectFrame "(string \<times> json) list" string

text \<open>The value of a token that is one; a number too large for a \<^verbatim>\<open>double\<close> is refused.\<close>

definition scalarValue :: "float_ops \<Rightarrow> token \<Rightarrow> json option" where
  "scalarValue F t =
     (case t of
        TokTrue \<Rightarrow> Some (JBool True)
      | TokFalse \<Rightarrow> Some (JBool False)
      | TokNull \<Rightarrow> Some JNull
      | TokString s \<Rightarrow> Some (JString s)
      | TokInt i \<Rightarrow> Some (JInt i)
      | TokFloat s \<Rightarrow> if fl_finite F s then Some (JFloat s) else None
      | _ \<Rightarrow> None)"

text \<open>
  The loop of \<open>sax_parse_internal\<close>: \<open>parseValue\<close> is its first half, with the token read last,
  \<open>afterValue\<close> its second half, with the value just completed. The result is the root and
  the input that is left.
\<close>

function (sequential) parseValue :: "float_ops \<Rightarrow> token \<Rightarrow> frame list \<Rightarrow> string \<Rightarrow> (json \<times> string) option"
  and afterValue :: "float_ops \<Rightarrow> json \<Rightarrow> frame list \<Rightarrow> string \<Rightarrow> (json \<times> string) option" where
  "parseValue F t st s =
     (if t = TokBeginObject
      then (case scan s of
              (TokEndObject, s1) \<Rightarrow> afterValue F (JObject []) st s1
            | (TokString k, s1) \<Rightarrow>
                (case scan s1 of
                   (TokNameSep, s2) \<Rightarrow> (case scan s2 of (t', s3) \<Rightarrow> parseValue F t' (ObjectFrame [] k # st) s3)
                 | _ \<Rightarrow> None)
            | _ \<Rightarrow> None)
      else if t = TokBeginArray
      then (case scan s of (t', s1) \<Rightarrow>
              if t' = TokEndArray then afterValue F (JArray []) st s1
              else parseValue F t' (ArrayFrame [] # st) s1)
      else (case scalarValue F t of None \<Rightarrow> None | Some v \<Rightarrow> afterValue F v st s))"
| "afterValue F v [] s = Some (v, s)"
| "afterValue F v (ArrayFrame vs # st) s =
     (case scan s of
        (TokValueSep, s1) \<Rightarrow> (case scan s1 of (t, s2) \<Rightarrow> parseValue F t (ArrayFrame (vs @ [v]) # st) s2)
      | (TokEndArray, s1) \<Rightarrow> afterValue F (JArray (vs @ [v])) st s1
      | _ \<Rightarrow> None)"
| "afterValue F v (ObjectFrame m k # st) s =
     (case scan s of
        (TokValueSep, s1) \<Rightarrow>
          (case scan s1 of
             (TokString k', s2) \<Rightarrow>
               (case scan s2 of
                  (TokNameSep, s3) \<Rightarrow> (case scan s3 of (t, s4) \<Rightarrow> parseValue F t (ObjectFrame (objSet k v m) k' # st) s4)
                | _ \<Rightarrow> None)
           | _ \<Rightarrow> None)
      | (TokEndObject, s1) \<Rightarrow> afterValue F (JObject (objSet k v m)) st s1
      | _ \<Rightarrow> None)"
  by pat_completeness auto
termination
proof (relation "measure (\<lambda>x. case x of
      Inl (F, t, st, s) \<Rightarrow> 2 * length s + (if endToken t then 0 else 1)
    | Inr (F, v, st, s) \<Rightarrow> 2 * length s)")
qed (auto simp: endToken_def scalarValue_def dest!: scan_measure)

declare parseValue.simps [simp del] afterValue.simps(2,3) [simp del]

text \<open>\<open>parser::parse\<close>, strict: the input must end after the value.\<close>

definition parseJson :: "float_ops \<Rightarrow> string \<Rightarrow> fault + json" where
  "parseJson F s =
     (case skipBom s of
        None \<Rightarrow> Inl JsonParse
      | Some s \<Rightarrow>
          (case scan s of (t, s1) \<Rightarrow>
             (case parseValue F t [] s1 of
                None \<Rightarrow> Inl JsonParse
              | Some (j, s2) \<Rightarrow> if fst (scan s2) = TokEnd then Inr j else Inl JsonParse)))"

end
