(* ===== verification/JsonRound.thy ===== *)
theory JsonRound
  imports Json
begin

text \<open>
  Printing a JSON value and parsing the text gives the value back. The UTF-8 automaton of the
  serializer and the ranges of the scanner are two implementations of the same check; the
  first section relates them.
\<close>

section \<open>The automaton and the ranges\<close>


lemma byteClass_nth:
  assumes "b < 256"
  shows "byteClass ! b =
    (if b < 128 then 0 else if b < 144 then 1 else if b < 160 then 9 else if b < 192 then 7
     else if b < 194 then 8 else if b < 224 then 2 else if b = 224 then 10 else if b < 237 then 3
     else if b = 237 then 4 else if b < 240 then 3 else if b = 240 then 11 else if b < 244 then 6
     else if b = 244 then 5 else 8)"
  using assms unfolding byteClass_def by (auto simp: nth_append nth_Cons')

lemma length_byteClass: "length byteClass = 256"
  by (simp add: byteClass_def)

lemma utf8d_class: "b < 256 \<Longrightarrow> utf8d ! b = byteClass ! b"
  by (simp add: utf8d_def nth_append length_byteClass)

lemma utf8d_transitions: "utf8d ! (256 + k) = transitions ! k"
  by (simp add: utf8d_def nth_append length_byteClass)

lemma utf8d_first:
  "utf8d ! 256 = 0" "utf8d ! 257 = 1" "utf8d ! 258 = 2" "utf8d ! 259 = 3" "utf8d ! 260 = 5" "utf8d ! 261 = 8"
  "utf8d ! 262 = 7" "utf8d ! 263 = 1" "utf8d ! 264 = 1" "utf8d ! 265 = 1" "utf8d ! 266 = 4" "utf8d ! 267 = 6"
  using utf8d_transitions [of 0] utf8d_transitions [of 1] utf8d_transitions [of 2] utf8d_transitions [of 3]
    utf8d_transitions [of 4] utf8d_transitions [of 5] utf8d_transitions [of 6] utf8d_transitions [of 7]
    utf8d_transitions [of 8] utf8d_transitions [of 9] utf8d_transitions [of 10] utf8d_transitions [of 11]
  by (simp_all add: transitions_def)

lemma transitions_nth:
  assumes "2 \<le> st" "st \<le> 8" "k < 12"
  shows "transitions ! (st * 16 + k) =
    (if k \<noteq> 1 \<and> k \<noteq> 7 \<and> k \<noteq> 9 then 1
     else if st = 2 then 0 else if st = 3 then 2
     else if st = 4 then if k = 7 then 2 else 1
     else if st = 5 then if k = 7 then 1 else 2
     else if st = 6 then if k = 1 then 1 else 3
     else if st = 7 then 3 else if k = 1 then 3 else 1)"
proof -
  have "list_all (\<lambda>st. list_all (\<lambda>k. transitions ! (st * 16 + k) =
    (if k \<noteq> 1 \<and> k \<noteq> 7 \<and> k \<noteq> 9 then 1
     else if st = 2 then 0 else if st = 3 then 2
     else if st = 4 then if k = 7 then 2 else 1
     else if st = 5 then if k = 7 then 1 else 2
     else if st = 6 then if k = 1 then 1 else 3
     else if st = 7 then 3 else if k = 1 then 3 else 1)) [0..<12]) [2..<9]"
    by code_simp
  note tab = this [unfolded list_all_iff, rule_format, of st k]
  show ?thesis by (rule tab) (use assms in auto)
qed

lemma and_low: "(b :: nat) AND 63 = b mod 64" "b AND 31 = b mod 32" "b AND 15 = b mod 16" "b AND 7 = b mod 8"
    "b AND 3 = b mod 4" "b AND 255 = b mod 256"
  using take_bit_eq_mask [of 6 b] take_bit_eq_mask [of 5 b] take_bit_eq_mask [of 4 b] take_bit_eq_mask [of 3 b]
    take_bit_eq_mask [of 2 b] take_bit_eq_mask [of 8 b]
  by (simp_all add: take_bit_eq_mod mask_eq_exp_minus_1)

lemma or_shifted: "(b mod 64) OR (push_bit 6 cp) = b mod 64 + 64 * (cp :: nat)"
proof -
  have "\<not> bit (take_bit 6 b) n \<or> \<not> bit (push_bit 6 cp) n" for n
    by (auto simp: bit_simps)
  then have "take_bit 6 b + push_bit 6 cp = take_bit 6 b OR push_bit 6 cp"
    by (rule disjunctive_add)
  then show ?thesis by (simp add: take_bit_eq_mod push_bit_eq_mult)
qed

lemma decode_next:
  assumes "st \<noteq> 0" "b < 256" "cp < 2 ^ 20"
  shows "decode st cp b = (utf8d ! (256 + st * 16 + byteClass ! b), b mod 64 + 64 * cp)"
proof -
  from assms(3) have "push_bit 6 cp mod 2 ^ 32 = push_bit 6 cp" by (simp add: push_bit_eq_mult)
  with assms show ?thesis by (simp add: decode_def Let_def utf8Accept_def utf8d_class and_low or_shifted)
qed

text \<open>The ranges a state of the automaton still expects, and what is known of its code point.\<close>

definition pendingRanges :: "nat \<Rightarrow> (nat \<times> nat) list" where
  "pendingRanges st =
     (if st = 2 then [(128, 191)]
      else if st = 3 then [(128, 191), (128, 191)]
      else if st = 4 then [(160, 191), (128, 191)]
      else if st = 5 then [(128, 159), (128, 191)]
      else if st = 6 then [(144, 191), (128, 191), (128, 191)]
      else if st = 7 then [(128, 191), (128, 191), (128, 191)]
      else if st = 8 then [(128, 143), (128, 191), (128, 191)]
      else [])"

definition codepOk :: "nat \<Rightarrow> nat \<Rightarrow> bool" where
  "codepOk st cp \<longleftrightarrow>
     (st = 0 \<or> st = 2 \<and> 2 \<le> cp \<and> cp < 2 ^ 17 \<or> st = 3 \<and> 1 \<le> cp \<and> cp < 2 ^ 11 \<or> st = 4 \<and> cp < 2 ^ 5 \<or>
      st = 5 \<and> 1 \<le> cp \<and> cp < 2 ^ 5 \<or> st = 6 \<and> cp < 2 ^ 4 \<or> st = 7 \<and> 1 \<le> cp \<and> cp < 2 ^ 4 \<or>
      st = 8 \<and> 1 \<le> cp \<and> cp < 2 ^ 4)"

lemma mod_window:
  assumes "q * m \<le> b" "b < q * m + m"
  shows "b mod m = b - q * (m :: nat)"
proof -
  from assms(1) have "b = (b - q * m) + q * m" by simp
  then have "b mod m = (b - q * m) mod m" by (metis mod_mult_self1)
  with assms show ?thesis by simp
qed

lemma decode_start: "b < 256 \<Longrightarrow> decode 0 cp b = (utf8d ! (256 + byteClass ! b), drop_bit (byteClass ! b) 255 AND b)"
  by (simp add: decode_def Let_def utf8Accept_def utf8d_class)

lemma low_bits: "(255 :: nat) AND b = b mod 256" "63 AND b = b mod 64" "31 AND b = b mod 32" "15 AND b = b mod 16"
    "7 AND b = b mod 8" "3 AND b = b mod 4"
  using and_low by (simp_all add: and.commute)

lemma decode_first:
  assumes "b < 256" "decode 0 cp b = (st', cp')"
  shows "st' = 1 \<or> (if b < 128 then st' = 0 \<and> cp' = b
     else st' \<noteq> 0 \<and> codepOk st' cp' \<and> followRanges b = Some (pendingRanges st'))"
proof -
  note u = utf8d_first
  note c = byteClass_nth [OF assms(1)]
  from decode_start [OF assms(1)] assms(2)
  have d: "st' = utf8d ! (256 + byteClass ! b)" "cp' = drop_bit (byteClass ! b) 255 AND b" by auto
  note defs = low_bits drop_bit_eq_div codepOk_def pendingRanges_def followRanges_def
  consider "b < 128" | "128 \<le> b" "b < 194 \<or> 244 < b" | "194 \<le> b" "b < 224" | "b \<in> {224, 237, 240, 244}"
    | "224 < b" "b < 237 \<or> 237 < b \<and> b < 240" | "240 < b" "b < 244" by fastforce
  then show ?thesis
  proof cases
    case 1
    with c have "byteClass ! b = 0" by simp
    with d u 1 show ?thesis by (simp add: low_bits)
  next
    case 2
    with c have "byteClass ! b \<in> {1, 9, 7, 8}" by auto
    with d u show ?thesis by auto
  next
    case 3
    with c have k: "byteClass ! b = 2" by simp
    from 3 mod_window [of 3 64 b] have "2 \<le> b mod 64" by simp
    with d u 3 show ?thesis by (simp add: k defs)
  next
    case 4
    with c d u show ?thesis by (elim insertE emptyE) (simp_all add: defs)
  next
    case 5
    with c have k: "byteClass ! b = 3" by auto
    from 5 mod_window [of 7 32 b] have "1 \<le> b mod 32" by auto
    with d u 5 show ?thesis by (auto simp: k defs)
  next
    case 6
    with c have k: "byteClass ! b = 6" by simp
    from 6 mod_window [of 60 4 b] have "1 \<le> b mod 4" "b mod 4 < 4" by simp_all
    with d u 6 show ?thesis by (simp add: k defs)
  qed
qed

lemma decode_follow:
  assumes "b < 256" "st \<noteq> 0" "codepOk st cp" "decode st cp b = (st', cp')"
  shows "st' = 1 \<or> (\<exists>lo hi rs. pendingRanges st = (lo, hi) # rs \<and> lo \<le> b \<and> b \<le> hi \<and> pendingRanges st' = rs \<and>
    codepOk st' cp' \<and> (st' = 0 \<longrightarrow> 128 \<le> cp'))"
proof -
  let ?c = "byteClass ! b"
  have cp: "cp < 2 ^ 20" using assms(2,3) by (auto simp: codepOk_def)
  from decode_next [OF assms(2,1) cp] assms(4)
  have d: "st' = utf8d ! (256 + st * 16 + ?c)" "cp' = b mod 64 + 64 * cp" by auto
  have m: "b mod 64 < 64" by simp
  from assms(2,3) have st: "2 \<le> st" "st \<le> 8" by (auto simp: codepOk_def)
  have "?c < 12" using byteClass_nth [OF assms(1)] by simp
  note t = transitions_nth [OF st this]
  have st': "st' = transitions ! (st * 16 + ?c)" using d(1) utf8d_transitions [of "st * 16 + ?c"] by (simp add: add.assoc)
  from assms(2,3) have ok: "st = 2 \<and> 2 \<le> cp \<and> cp < 2 ^ 17 \<or> st = 3 \<and> 1 \<le> cp \<and> cp < 2 ^ 11 \<or> st = 4 \<and> cp < 2 ^ 5 \<or>
      st = 5 \<and> 1 \<le> cp \<and> cp < 2 ^ 5 \<or> st = 6 \<and> cp < 2 ^ 4 \<or> st = 7 \<and> 1 \<le> cp \<and> cp < 2 ^ 4 \<or>
      st = 8 \<and> 1 \<le> cp \<and> cp < 2 ^ 4"
    by (simp add: codepOk_def)
  consider "?c \<noteq> 1 \<and> ?c \<noteq> 7 \<and> ?c \<noteq> 9" | "?c = 1" "128 \<le> b" "b < 144" | "?c = 9" "144 \<le> b" "b < 160" | "?c = 7" "160 \<le> b" "b < 192"
    using byteClass_nth [OF assms(1)] by (auto split: if_splits)
  then show ?thesis
  proof cases
    case 1
    then have "st' = 1" using t unfolding st' by simp
    then show ?thesis by simp
  next
    case 2
    then have s: "st' = (if st = 2 then 0 else if st = 3 then 2 else if st = 4 then 1 else if st = 5 then 2
        else if st = 6 then 1 else if st = 7 then 3 else 3)" using t unfolding st' by simp
    from ok 2(2,3) m show ?thesis unfolding s d(2)
      by (elim disjE conjE) (simp_all add: codepOk_def pendingRanges_def)
  next
    case 3
    then have s: "st' = (if st = 2 then 0 else if st = 3 then 2 else if st = 4 then 1 else if st = 5 then 2
        else if st = 6 then 3 else if st = 7 then 3 else 1)" using t unfolding st' by simp
    from 3 mod_window [of 2 64 b] have "16 \<le> b mod 64" by simp
    with ok 3(2,3) m show ?thesis unfolding s d(2)
      by (elim disjE conjE) (simp_all add: codepOk_def pendingRanges_def)
  next
    case 4
    then have s: "st' = (if st = 2 then 0 else if st = 3 then 2 else if st = 4 then 2 else if st = 5 then 1
        else if st = 6 then 3 else if st = 7 then 3 else 1)" using t unfolding st' by simp
    from 4 mod_window [of 2 64 b] have "32 \<le> b mod 64" by simp
    with ok 4(2,3) m show ?thesis unfolding s d(2)
      by (elim disjE conjE) (simp_all add: codepOk_def pendingRanges_def)
  qed
qed

section \<open>Strings\<close>

lemma byte_less: "byte c < 256"
  by (simp add: byte_def)

lemma char_byte: "char_of (byte c) = c"
  by (simp add: byte_def)

lemma byte_eqI: "byte c = byte d \<Longrightarrow> c = d"
  by (metis char_byte)

lemma byte_char: "n < 256 \<Longrightarrow> byte (char_of n) = n"
  by (simp add: byte_def)

lemma byte_special: "byte dquote = 34" "byte backslash = 92"
  by (simp_all add: dquote_def backslash_def byte_def)

lemma hexValue_hexDigit: "d < 16 \<Longrightarrow> hexValue (hexDigit d) = Some d"
  by (auto simp: hexDigit_def hexValue_def byte_char)

lemma escaped_scan:
  assumes "byte c < 128"
  shows "scanString [] acc (escaped (byte c) c @ t) = scanString [] (acc @ [c]) t"
proof -
  have c: "byte c = k \<Longrightarrow> char_of k = c" for k using char_byte by auto
  have q: "byte c = 34 \<longleftrightarrow> c = dquote" "byte c = 92 \<longleftrightarrow> c = backslash"
    using byte_eqI [of c dquote] byte_eqI [of c backslash] byte_special by auto
  have ne: "backslash \<noteq> dquote" by (simp add: backslash_def dquote_def)
  consider "byte c \<in> {8, 9, 10, 12, 13}" | "byte c \<in> {34, 92}" | "byte c \<le> 31" "byte c \<notin> {8, 9, 10, 12, 13}"
    | "32 \<le> byte c" "byte c \<noteq> 34" "byte c \<noteq> 92" by fastforce
  then show ?thesis
  proof cases
    case 1
    with c [of 8] c [of 9] c [of 10] c [of 12] c [of 13] show ?thesis
      by (elim insertE emptyE) (simp_all add: escaped_def scanEscape_def dquote_def backslash_def)
  next
    case 2
    with q have "c = dquote \<or> c = backslash" by blast
    then show ?thesis
      by (elim disjE) (simp_all add: escaped_def scanEscape_def byte_special ne)
  next
    case 3
    have "hexValue (CHR ''0'') = Some 0" by (simp add: hexValue_def byte_def)
    moreover have "byte c div 16 < 16" "byte c mod 16 < 16" using 3 by auto
    ultimately have "getCodepoint ([CHR ''0'', CHR ''0'', hexDigit (byte c div 16), hexDigit (byte c mod 16)] @ t) =
        Some (byte c, t)"
      by (simp add: hexValue_hexDigit)
    moreover have "escaped (byte c) c =
        [backslash, CHR ''u'', CHR ''0'', CHR ''0'', hexDigit (byte c div 16), hexDigit (byte c mod 16)]"
      using 3 by (simp add: escaped_def)
    ultimately show ?thesis using 3 ne
      by (simp add: scanEscape_def codepointBytes_def char_byte) (simp add: dquote_def backslash_def)
  next
    case 4
    then have "c \<noteq> dquote" "c \<noteq> backslash" using byte_special by auto
    with 4 assms show ?thesis by (simp add: escaped_def followRanges_def)
  qed
qed

lemma dumpEscaped_Cons:
  "dumpEscaped st cp (c # s) = Inr e \<longleftrightarrow>
    (\<exists>st' cp' e'. decode st cp (byte c) = (st', cp') \<and> st' \<noteq> 1 \<and> dumpEscaped st' cp' s = Inr e' \<and>
       e = (if st' = 0 then escaped cp' c else [c]) @ e')"
  by (auto simp: utf8Accept_def utf8Reject_def bind_res_Inr_iff split: prod.splits if_splits)

lemma start_state: "codepOk 0 cp" "pendingRanges 0 = []"
  by (simp_all add: codepOk_def pendingRanges_def)

lemma dumpEscaped_scan:
  assumes "dumpEscaped st cp s = Inr e" "codepOk st cp"
  shows "scanString (pendingRanges st) acc (e @ dquote # t) = Some (acc @ s, t)"
  using assms
proof (induction s arbitrary: st cp acc e)
  case Nil
  then show ?case by (auto simp: utf8Accept_def pendingRanges_def split: if_splits)
next
  case (Cons c s)
  then obtain st' cp' e' where d: "decode st cp (byte c) = (st', cp')" "st' \<noteq> 1" "dumpEscaped st' cp' s = Inr e'"
      "e = (if st' = 0 then escaped cp' c else [c]) @ e'"
    unfolding dumpEscaped_Cons by blast
  note ih = Cons.IH [OF d(3), of "acc @ [c]"]
  show ?case
  proof (cases "st = 0")
    case True
    note f = decode_first [OF byte_less d(1) [unfolded True]]
    show ?thesis
    proof (cases "byte c < 128")
      case low: True
      with f d(2) ih show ?thesis by (simp add: True d(4) start_state escaped_scan)
    next
      case False
      then have "c \<noteq> dquote" "c \<noteq> backslash" using byte_special by auto
      with f d(2) ih False show ?thesis by (simp add: True d(4) start_state)
    qed
  next
    case False
    from decode_follow [OF byte_less False Cons.prems(2) d(1)] d(2) obtain lo hi rs where
      f: "pendingRanges st = (lo, hi) # rs" "lo \<le> byte c" "byte c \<le> hi" "pendingRanges st' = rs" "codepOk st' cp'"
        "st' = 0 \<Longrightarrow> 128 \<le> cp'" by auto
    then have "e = c # e'" by (cases "st' = 0") (simp_all add: d(4) escaped_def)
    with ih f show ?thesis by simp
  qed
qed

lemma scan_dumpString:
  assumes "dumpString s = Inr e"
  shows "scan (e @ t) = (TokString s, t)"
proof -
  from assms obtain e' where e': "dumpEscaped 0 0 s = Inr e'" "e = dquote # e' @ [dquote]"
    by (auto simp: dumpString_def bind_res_Inr_iff utf8Accept_def)
  have "scanString [] [] (e' @ dquote # t) = Some (s, t)"
    using dumpEscaped_scan [OF e'(1), of "[]" t] by (simp add: codepOk_def pendingRanges_def)
  then show ?thesis by (simp add: e'(2) scan_def isBlank_def byte_special) (simp add: dquote_def)
qed

section \<open>Numbers\<close>

lemma isDigit_digitChar: "d < 10 \<Longrightarrow> isDigit (digitChar d)"
  by (simp add: isDigit_def digitChar_def byte_char)

lemma digitChar_zero: "d < 10 \<Longrightarrow> digitChar d = CHR ''0'' \<longleftrightarrow> d = 0"
proof -
  assume "d < 10"
  then have "byte (digitChar d) = 48 + d" by (simp add: digitChar_def byte_char)
  moreover have "byte (CHR ''0'') = 48" by (simp add: byte_def)
  ultimately show ?thesis using byte_eqI [of "digitChar d" "CHR ''0''"] by auto
qed

lemma decimal_digits:
  "\<exists>c ds. decimal n = c # ds \<and> isDigit c \<and> list_all isDigit ds \<and> (c = CHR ''0'' \<longleftrightarrow> n = 0) \<and> (n = 0 \<longrightarrow> ds = [])"
proof (induction n rule: decimal.induct)
  case (1 n)
  show ?case
  proof (cases "n < 10")
    case True
    then show ?thesis by (subst decimal.simps) (simp add: isDigit_digitChar digitChar_zero)
  next
    case False
    with 1 obtain c ds where c: "decimal (n div 10) = c # ds" "isDigit c" "list_all isDigit ds"
        "c = CHR ''0'' \<longleftrightarrow> n div 10 = 0" by auto
    with False show ?thesis by (subst decimal.simps) (simp add: isDigit_digitChar)
  qed
qed

definition numberEnds :: "string \<Rightarrow> bool" where
  "numberEnds t \<longleftrightarrow> (case t of [] \<Rightarrow> True | c # _ \<Rightarrow> \<not> isDigit c \<and> c \<notin> set ''.eE'')"

lemma scanDigits_any1:
  "list_all isDigit ds \<Longrightarrow> numberEnds t \<Longrightarrow> ty \<noteq> NumFloat \<Longrightarrow> scanDigits NAny1 ty acc (ds @ t) = Some (ty, acc @ ds, t)"
proof (induction ds arbitrary: acc)
  case Nil
  then show ?case by (cases t) (auto simp: numberEnds_def numStep_def)
next
  case (Cons c ds)
  then show ?case by (simp add: numStep_def numType_def)
qed

lemma scanDigits_zero: "numberEnds t \<Longrightarrow> scanDigits NZero ty acc t = Some (ty, acc, t)"
  by (cases t) (auto simp: numberEnds_def numStep_def)

lemma digit_not_special: "isDigit c \<Longrightarrow> c \<noteq> dquote \<and> \<not> isBlank c \<and> c \<notin> set ''[]{}:,tfn-'' \<and> byte c \<noteq> 0"
  by (auto simp: isDigit_def dquote_def isBlank_def byte_def)

lemma scan_dumpInt:
  assumes "- (2 ^ 63) \<le> i" "i < 2 ^ 64" "numberEnds t"
  shows "scan (dumpInt i @ t) = (TokInt i, t)"
proof (cases "i < 0")
  case True
  obtain c ds where d: "decimal (nat (- i)) = c # ds" "isDigit c" "list_all isDigit ds" "c \<noteq> CHR ''0''"
    using decimal_digits [of "nat (- i)"] True by auto
  have "scanDigits NMinus NumInteger ''-'' (c # ds @ t) = Some (NumInteger, ''-'' @ decimal (nat (- i)), t)"
    using d scanDigits_any1 [OF d(3) assms(3), of NumInteger "[CHR ''-'', c]"]
    by (simp add: numStep_def numType_def)
  moreover have "nat (- i) \<le> 2 ^ 63" using assms(1) by simp
  moreover have rd: "readDecimal (c # ds) = nat (- i)" using readDecimal_decimal [of "nat (- i)"] d(1) by simp
  moreover have "numType NMinus NumUnsigned = NumInteger" by (simp add: numType_def)
  ultimately have "scanNumber (CHR ''-'') (decimal (nat (- i)) @ t) = (TokInt i, t)" using True d(1)
    by (simp add: scanNumber_def numberToken_def rd Let_def del: scanDigits.simps)
  with True show ?thesis by (simp add: dumpInt_def scan_def isBlank_def byte_def dquote_def)
next
  case False
  obtain c ds where d: "decimal (nat i) = c # ds" "isDigit c" "list_all isDigit ds" "c = CHR ''0'' \<longleftrightarrow> nat i = 0"
      "nat i = 0 \<longrightarrow> ds = []"
    using decimal_digits [of "nat i"] by auto
  have "scanDigits (if c = CHR ''0'' then NZero else NAny1) NumUnsigned [c] (ds @ t) = Some (NumUnsigned, decimal (nat i), t)"
    using d scanDigits_any1 [OF d(3) assms(3), of NumUnsigned "[c]"] scanDigits_zero [OF assms(3), of NumUnsigned "[c]"]
    by auto
  moreover have "nat i < 2 ^ 64" using assms(2) False by simp
  moreover have "c \<noteq> CHR ''-''" using digit_not_special [OF d(2)] by auto
  moreover have "numType (if c = CHR ''0'' then NZero else NAny1) NumUnsigned = NumUnsigned" by (simp add: numType_def)
  ultimately have "scanNumber c (ds @ t) = (TokInt i, t)" using False
    by (simp add: scanNumber_def numberToken_def readDecimal_decimal Let_def)
  with False d(1) digit_not_special [OF d(2)] d(2) show ?thesis
    by (simp add: dumpInt_def scan_def)
qed

section \<open>Values\<close>

text \<open>
  The values that print and parse back: numbers of 64 bits, no floating point, and objects
  sorted by key, as a \<^verbatim>\<open>std::map\<close> keeps them.
\<close>

fun json_ok :: "json \<Rightarrow> bool" where
  "json_ok (JInt i) \<longleftrightarrow> - (2 ^ 63) \<le> i \<and> i < 2 ^ 64"
| "json_ok (JFloat t) \<longleftrightarrow> False"
| "json_ok (JArray js) \<longleftrightarrow> (\<forall>j \<in> set js. json_ok j)"
| "json_ok (JObject m) \<longleftrightarrow> sorted_wrt (<) (map fst m) \<and> (\<forall>kv \<in> set m. json_ok (snd kv))"
| "json_ok _ \<longleftrightarrow> True"

lemma objSet_append: "\<forall>k' \<in> fst ` set m. k' < k \<Longrightarrow> objSet k v m = m @ [(k, v)]"
  by (induction m) auto

lemma map_of_objSet: "map_of (objSet k v m) = (map_of m)(k \<mapsto> v)"
  by (induction k v m rule: objSet.induct) (auto simp: fun_eq_iff)

lemma fst_objSet: "fst ` set (objSet k v m) = insert k (fst ` set m)"
  by (induction k v m rule: objSet.induct) auto

lemma sorted_objSet: "sorted_wrt (<) (map fst m) \<Longrightarrow> sorted_wrt (<) (map fst (objSet k v m))"
proof (induction k v m rule: objSet.induct)
  case (2 k v k' v' m)
  then have "\<forall>x \<in> fst ` set (objSet k v m). k' < x" if "k' < k"
    using that by (auto simp: fst_objSet)
  with 2 show ?case by force
qed simp

lemma snd_objSet: "snd ` set (objSet k v m) \<subseteq> insert v (snd ` set m)"
  by (induction k v m rule: objSet.induct) auto

lemma json_ok_jsonSet: "json_ok j \<Longrightarrow> json_ok v \<Longrightarrow> json_ok (jsonSet k v j)"
  by (cases j) (use snd_objSet in \<open>fastforce simp: sorted_objSet\<close>)+

text \<open>What may follow a value.\<close>

definition delimited :: "string \<Rightarrow> bool" where
  "delimited t \<longleftrightarrow> (case t of [] \<Rightarrow> True | c # _ \<Rightarrow> c \<in> {CHR '','', CHR '']'', CHR ''}'', CHR 0x00})"

lemma delimited_numberEnds: "delimited t \<Longrightarrow> numberEnds t"
  by (cases t) (auto simp: delimited_def numberEnds_def isDigit_def byte_def)

lemma delimited_Cons: "delimited (CHR '','' # t)" "delimited (CHR '']'' # t)" "delimited (CHR ''}'' # t)"
  by (simp_all add: delimited_def)

text \<open>The parser at the beginning of a value, and at the beginning of an object's member.\<close>

definition parseNext :: "float_ops \<Rightarrow> frame list \<Rightarrow> string \<Rightarrow> (json \<times> string) option" where
  "parseNext F st s = (case scan s of (t, s1) \<Rightarrow> parseValue F t st s1)"

definition parseMember :: "float_ops \<Rightarrow> (string \<times> json) list \<Rightarrow> frame list \<Rightarrow> string \<Rightarrow> (json \<times> string) option" where
  "parseMember F m st s =
     (case scan s of
        (TokString k, s1) \<Rightarrow> (case scan s1 of (TokNameSep, s2) \<Rightarrow> parseNext F (ObjectFrame m k # st) s2 | _ \<Rightarrow> None)
      | _ \<Rightarrow> None)"

lemma scan_structural:
  "scan (CHR ''['' # s) = (TokBeginArray, s)" "scan (CHR '']'' # s) = (TokEndArray, s)"
  "scan (CHR ''{'' # s) = (TokBeginObject, s)" "scan (CHR ''}'' # s) = (TokEndObject, s)"
  "scan (CHR '':'' # s) = (TokNameSep, s)" "scan (CHR '','' # s) = (TokValueSep, s)"
  by (simp_all add: scan_def isBlank_def byte_def)

lemma afterValue_array:
  "afterValue F v (ArrayFrame vs # st) (CHR '','' # s) = parseNext F (ArrayFrame (vs @ [v]) # st) s"
  "afterValue F v (ArrayFrame vs # st) (CHR '']'' # s) = afterValue F (JArray (vs @ [v])) st s"
  by (simp_all add: scan_structural parseNext_def afterValue.simps)

lemma afterValue_object:
  "afterValue F v (ObjectFrame m k # st) (CHR '','' # s) = parseMember F (objSet k v m) st s"
  "afterValue F v (ObjectFrame m k # st) (CHR ''}'' # s) = afterValue F (JObject (objSet k v m)) st s"
  by (simp_all add: scan_structural parseMember_def parseNext_def afterValue.simps split: prod.splits token.splits)

lemma parseNext_array:
  "fst (scan s) \<noteq> TokEndArray \<Longrightarrow> parseNext F st (CHR ''['' # s) = parseNext F (ArrayFrame [] # st) s"
  by (auto simp: parseNext_def scan_structural parseValue.simps [of F TokBeginArray] split: prod.splits)

lemma parseNext_object:
  "fst (scan s) \<noteq> TokEndObject \<Longrightarrow> parseNext F st (CHR ''{'' # s) = parseMember F [] st s"
  by (auto simp: parseNext_def parseMember_def scan_structural parseValue.simps [of F TokBeginObject] split: prod.splits token.splits)

lemma parseNext_empty:
  "parseNext F st (''[]'' @ s) = afterValue F (JArray []) st s"
  "parseNext F st (''{}'' @ s) = afterValue F (JObject []) st s"
  by (simp_all add: parseNext_def scan_structural parseValue.simps [of F TokBeginArray] parseValue.simps [of F TokBeginObject])

lemma parseNext_scalar:
  "scan s = (t, s1) \<Longrightarrow> scalarValue F t = Some v \<Longrightarrow> parseNext F st s = afterValue F v st s1"
  by (auto simp: parseNext_def parseValue.simps [of F t] scalarValue_def)

lemma parseMember_key:
  "dumpString k = Inr ks \<Longrightarrow> parseMember F m st (ks @ CHR '':'' # s) = parseNext F (ObjectFrame m k # st) s"
  by (simp add: parseMember_def scan_dumpString scan_structural)

text \<open>No printed value looks like the end of an array, no printed member like the end of an object.\<close>

lemma scan_parts_not_end:
  "t \<noteq> TokEndArray \<Longrightarrow> fst (scanLiteral lit t s) \<noteq> TokEndArray" "fst (scanNumber c s) \<noteq> TokEndArray"
  "fst (case r of None \<Rightarrow> (TokError, []) | Some (str, s') \<Rightarrow> (TokString str, s')) \<noteq> TokEndArray"
  by (auto simp: scanLiteral_def scanNumber_def numberToken_def Let_def split: option.splits num_type.splits)

lemma scan_end_head: "\<not> isBlank c \<Longrightarrow> c \<noteq> CHR '']'' \<Longrightarrow> fst (scan (c # s)) \<noteq> TokEndArray"
  by (simp add: scan_def scan_parts_not_end)

lemma dump_first:
  assumes "dumpJson F j = Inr s" "json_ok j"
  shows "\<exists>c s'. s = c # s' \<and> (c \<in> set ''ntf[{-'' \<or> c = dquote \<or> isDigit c)"
proof (cases j)
  case (JInt i)
  obtain c ds where "decimal (nat i) = c # ds" "isDigit c" using decimal_digits [of "nat i"] by auto
  with JInt assms(1) show ?thesis by (auto simp: dumpInt_def)
qed (use assms in \<open>auto simp: dumpString_def bind_res_Inr_iff split: if_splits\<close>)

lemma dump_head:
  assumes "dumpJson F j = Inr s" "json_ok j"
  shows "\<exists>c s'. s = c # s' \<and> \<not> isBlank c \<and> c \<noteq> CHR '']''"
proof -
  have heads: "\<not> isBlank c \<and> c \<noteq> CHR '']''" if "c \<in> set ''ntf[{-'' \<or> c = dquote \<or> isDigit c" for c
    using that digit_not_special [of c] by (auto simp: isBlank_def byte_def dquote_def)
  with dump_first [OF assms] show ?thesis by blast
qed

lemma scan_dump_not_end:
  assumes "dumpJson F j = Inr s" "json_ok j"
  shows "fst (scan (s @ t)) \<noteq> TokEndArray"
  using dump_head [OF assms] scan_end_head by auto

lemma scan_members_not_end: "dumpMembers F m = Inr s \<Longrightarrow> m \<noteq> [] \<Longrightarrow> fst (scan (s @ t)) \<noteq> TokEndObject"
  by (cases m) (auto simp: bind_res_Inr_iff scan_dumpString split: if_splits)

lemma parse_scalar:
  assumes "dumpJson F j = Inr s" "json_ok j" "delimited t" "\<And>js. j \<noteq> JArray js" "\<And>m. j \<noteq> JObject m"
  shows "parseNext F st (s @ t) = afterValue F j st t"
proof -
  have "\<exists>tok. scan (s @ t) = (tok, t) \<and> scalarValue F tok = Some j"
  proof (cases j)
    case JNull
    with assms(1) show ?thesis by (auto simp: scan_def isBlank_def byte_def dquote_def scanLiteral_def scalarValue_def)
  next
    case (JBool b)
    with assms(1) show ?thesis by (cases b) (auto simp: scan_def isBlank_def byte_def dquote_def scanLiteral_def scalarValue_def)
  next
    case (JInt i)
    with assms(1,2) scan_dumpInt [of i t] delimited_numberEnds [OF assms(3)] show ?thesis by (auto simp: scalarValue_def)
  next
    case (JString u)
    with assms(1) scan_dumpString [of u s t] show ?thesis by (auto simp: scalarValue_def)
  qed (use assms in auto)
  then show ?thesis using parseNext_scalar by blast
qed

lemma parse_array_open:
  assumes "dumpElems F js = Inr e" "js \<noteq> []" "\<forall>j \<in> set js. json_ok j"
  shows "parseNext F st (CHR ''['' # e @ t) = parseNext F (ArrayFrame [] # st) (e @ t)"
proof -
  from assms(1,2) obtain j js' e' where j: "js = j # js'" "dumpJson F j = Inr e'" "\<exists>r. e = e' @ r"
    by (cases js) (auto simp: bind_res_Inr_iff split: if_splits)
  with assms(3) scan_dump_not_end [of F j e'] have "fst (scan (e @ t)) \<noteq> TokEndArray" by auto
  then show ?thesis by (rule parseNext_array)
qed

text \<open>
  The parser, started at a printed value, arrives behind it with that value completed,
  whatever it is inside of and whatever follows.
\<close>

lemma parse_dump:
  "dumpJson F j = Inr s \<Longrightarrow> json_ok j \<Longrightarrow> delimited t \<Longrightarrow> parseNext F st (s @ t) = afterValue F j st t"
  "dumpElems F js = Inr s \<Longrightarrow> js \<noteq> [] \<Longrightarrow> \<forall>j \<in> set js. json_ok j \<Longrightarrow>
     parseNext F (ArrayFrame vs # st) (s @ CHR '']'' # t) = afterValue F (JArray (vs @ js)) st t"
  "dumpMembers F m = Inr s \<Longrightarrow> m \<noteq> [] \<Longrightarrow> \<forall>kv \<in> set m. json_ok (snd kv) \<Longrightarrow> sorted_wrt (<) (map fst (m0 @ m)) \<Longrightarrow>
     parseMember F m0 st (s @ CHR ''}'' # t) = afterValue F (JObject (m0 @ m)) st t"
proof (induction F j and F js and F m arbitrary: s t st and s t st vs and s t st m0 rule: dumpJson_dumpElems_dumpMembers.induct)
  case (6 F js)
  show ?case
  proof (cases "js = []")
    case True
    with 6(2) parseNext_empty(1) [of F st t] show ?thesis by simp
  next
    case False
    with 6(2) obtain e where e: "dumpElems F js = Inr e" "s = CHR ''['' # e @ CHR '']'' # []"
      by (auto simp: bind_res_Inr_iff)
    with parse_array_open [OF e(1) False] 6(1) [OF False e(1) False, of "[]" st t] 6(3) show ?thesis by simp
  qed
next
  case (7 F m)
  show ?case
  proof (cases "m = []")
    case True
    with 7(2) parseNext_empty(2) [of F st t] show ?thesis by simp
  next
    case False
    with 7(2) obtain e where e: "dumpMembers F m = Inr e" "s = CHR ''{'' # e @ CHR ''}'' # []"
      by (auto simp: bind_res_Inr_iff)
    have "fst (scan (e @ CHR ''}'' # t)) \<noteq> TokEndObject" by (rule scan_members_not_end [OF e(1) False])
    with e 7(1) [OF False e(1) False, of "[]" st t] 7(3) show ?thesis by (simp add: parseNext_object)
  qed
next
  case (9 F j js)
  then show ?case by (cases "js = []") (auto simp: bind_res_Inr_iff delimited_Cons afterValue_array)
next
  case (11 F k j m)
  have o: "objSet k j m0 = m0 @ [(k, j)]"
    by (rule objSet_append) (use 11(6) in \<open>auto simp: sorted_wrt_append\<close>)
  have "sorted_wrt (<) (map fst ((m0 @ [(k, j)]) @ m))" using 11(6) by simp
  with 11 o show ?case
    by (cases "m = []") (auto simp: bind_res_Inr_iff delimited_Cons parseMember_key afterValue_object)
qed (simp_all add: parse_scalar)

text \<open>A printed object with members in any order, keys repeated or not: the last one of a key wins.\<close>

lemma parseMember_any:
  "dumpMembers F m = Inr s \<Longrightarrow> m \<noteq> [] \<Longrightarrow> \<forall>kv \<in> set m. json_ok (snd kv) \<Longrightarrow>
     parseMember F m0 st (s @ CHR ''}'' # t) = afterValue F (JObject (fold (\<lambda>(k, v). objSet k v) m m0)) st t"
proof (induction m arbitrary: m0 s)
  case (Cons kv m)
  obtain k v where kv: "kv = (k, v)" by fastforce
  with Cons.prems obtain ks e where e: "dumpString k = Inr ks" "dumpJson F v = Inr e" "json_ok v"
    by (auto simp: bind_res_Inr_iff)
  show ?case
  proof (cases "m = []")
    case True
    with Cons.prems(1) e kv have "s = ks @ CHR '':'' # e" by simp
    with e True kv show ?thesis by (simp add: parseMember_key parse_dump(1) delimited_def afterValue_object)
  next
    case False
    with Cons.prems(1) e kv obtain r where r: "dumpMembers F m = Inr r" "s = ks @ CHR '':'' # e @ CHR '','' # r"
      by (auto simp: bind_res_Inr_iff)
    with Cons.IH [OF r(1) False] Cons.prems(3) e kv show ?thesis
      by (simp add: parseMember_key parse_dump(1) delimited_def afterValue_object)
  qed
qed simp

lemma parseJson_any:
  assumes "dumpMembers F m = Inr s" "m \<noteq> []" "\<forall>kv \<in> set m. json_ok (snd kv)"
  shows "parseJson F (CHR ''{'' # s @ ''}'') = Inr (JObject (fold (\<lambda>(k, v). objSet k v) m []))"
proof -
  have "fst (scan (s @ CHR ''}'' # [])) \<noteq> TokEndObject" by (rule scan_members_not_end [OF assms(1,2)])
  then have "parseNext F [] (CHR ''{'' # s @ ''}'') = afterValue F (JObject (fold (\<lambda>(k, v). objSet k v) m [])) [] []"
    by (simp add: parseNext_object parseMember_any [OF assms])
  moreover have "skipBom (CHR ''{'' # s @ ''}'') = Some (CHR ''{'' # s @ ''}'')" by (simp add: skipBom_def byte_def)
  moreover have "scan [] = (TokEnd, [])" by (simp add: scan_def)
  ultimately show ?thesis by (auto simp: parseJson_def parseNext_def afterValue.simps split: prod.splits)
qed

lemma parse_dumped:
  assumes "json_ok j" "dumpJson F j = Inr s" "t = [] \<or> hd t = CHR 0x00"
  shows "parseJson F (s @ t) = Inr j"
proof -
  have d: "delimited t" using assms(3) by (cases t) (auto simp: delimited_def)
  have e: "fst (scan t) = TokEnd" using assms(3)
    by (cases t) (auto simp: scan_def isBlank_def byte_def isDigit_def dquote_def)
  have "parseNext F [] (s @ t) = Some (j, t)" using parse_dump(1) [OF assms(2,1) d, of "[]"] by simp
  moreover have "skipBom (s @ t) = Some (s @ t)"
  proof -
    obtain c s' where s: "s = c # s'" "c \<in> set ''ntf[{-'' \<or> c = dquote \<or> isDigit c" using dump_first [OF assms(2,1)] by blast
    then have "byte c \<noteq> 239" by (auto simp: byte_def dquote_def isDigit_def)
    with s show ?thesis by (simp add: skipBom_def)
  qed
  ultimately show ?thesis using e by (auto simp: parseJson_def parseNext_def split: prod.splits)
qed

text \<open>
  C30: \<^verbatim>\<open>json::parse\<close> undoes \<^verbatim>\<open>dump()\<close>: the text of a value whose strings are UTF-8 and
  whose numbers have 64 bits parses to that value. A NUL byte ends the input for the parser:
  what follows it in the same buffer is silently ignored, which is how a second message that
  arrives in the same read is lost.
\<close>

theorem parse_dump_roundtrip:
  assumes "json_ok j" "dumpJson F j = Inr s" "t = [] \<or> hd t = CHR 0x00"
  shows "parseJson F (s @ t) = Inr j"
  using assms by (rule parse_dumped)

definition plainFloats :: float_ops where
  "plainFloats = \<lparr>fl_finite = (\<lambda>t. True), fl_int = (\<lambda>t. None), fl_text = (\<lambda>t. t)\<rparr>"

theorem parse_dump_roundtrip_witness:
  "parseJson plainFloats (''{'' @ [dquote] @ ''id'' @ [dquote] @ '':7}'' @ CHR 0x00 # ''{}'') = Inr (JObject [(''id'', JInt 7)])"
proof -
  have "dumpString ''id'' = Inr ([dquote] @ ''id'' @ [dquote])"
    by (simp add: dumpString_def utf8Accept_def decode_start byteClass_nth utf8d_first low_bits escaped_def byte_def)
  moreover have "decimal 7 = ''7''" by code_simp
  ultimately have "dumpJson plainFloats (JObject [(''id'', JInt 7)]) = Inr (''{'' @ [dquote] @ ''id'' @ [dquote] @ '':7}'')"
    by (simp add: dumpInt_def)
  with parse_dump_roundtrip [of "JObject [(''id'', JInt 7)]" plainFloats _ "CHR 0x00 # ''{}''"] show ?thesis by simp
qed

end
