(* ===== verification/JsonUtf8.thy ===== *)
theory JsonUtf8
  imports JsonRound
begin

text \<open>
  What the serializer takes for text: its table-driven automaton against UTF-8 as RFC 3629
  defines it, by the bytes that encode a code point.
\<close>

section \<open>The reference\<close>

text \<open>A Unicode scalar value, and its bytes.\<close>

definition isScalar :: "nat \<Rightarrow> bool" where
  "isScalar cp \<longleftrightarrow> cp < 0xD800 \<or> 0xE000 \<le> cp \<and> cp \<le> 0x10FFFF"

definition utf8Bytes :: "nat \<Rightarrow> nat list" where
  "utf8Bytes cp =
     (if cp < 0x80 then [cp]
      else if cp < 0x800 then [192 + cp div 64, 128 + cp mod 64]
      else if cp < 0x10000 then [224 + cp div 4096, 128 + cp div 64 mod 64, 128 + cp mod 64]
      else [240 + cp div 262144, 128 + cp div 4096 mod 64, 128 + cp div 64 mod 64, 128 + cp mod 64])"

definition utf8Text :: "string \<Rightarrow> bool" where
  "utf8Text s \<longleftrightarrow> (\<exists>cps. list_all isScalar cps \<and> map byte s = concat (map utf8Bytes cps))"

section \<open>The ranges of the bytes\<close>

definition inRange :: "nat \<Rightarrow> nat \<times> nat \<Rightarrow> bool" where
  "inRange b r \<longleftrightarrow> fst r \<le> b \<and> b \<le> snd r"

lemma inRange_pair [simp]: "inRange b (lo, hi) \<longleftrightarrow> lo \<le> b \<and> b \<le> hi"
  by (simp add: inRange_def)

text \<open>The bytes of one code point: ASCII, or a first byte and what it asks for.\<close>

definition oneCodepoint :: "nat list \<Rightarrow> bool" where
  "oneCodepoint bs \<longleftrightarrow> (\<exists>b t. bs = b # t \<and>
     (b < 128 \<and> t = [] \<or> 128 \<le> b \<and> (\<exists>rs. followRanges b = Some rs \<and> list_all2 inRange t rs)))"

lemma utf8Bytes_one: "isScalar cp \<Longrightarrow> oneCodepoint (utf8Bytes cp)"
proof -
  assume s: "isScalar cp"
  consider "cp < 128" | "128 \<le> cp" "cp < 2048" | "2048 \<le> cp" "cp < 65536" | "65536 \<le> cp" "cp \<le> 0x10FFFF"
    using s by (fastforce simp: isScalar_def)
  then show ?thesis
  proof cases
    case 1
    then show ?thesis by (simp add: utf8Bytes_def oneCodepoint_def)
  next
    case 2
    then have "2 \<le> cp div 64" "cp div 64 < 32" "cp mod 64 < 64" by simp_all
    with 2 show ?thesis by (simp add: utf8Bytes_def oneCodepoint_def followRanges_def)
  next
    case 3
    define q where "q = cp div 4096"
    define r where "r = cp div 64 mod 64"
    have q: "q < 16" "cp div 64 = 64 * q + r" "r < 64" "cp mod 64 < 64" using 3
      by (simp_all add: q_def r_def div_mult2_eq [of cp 64 64, simplified])
    then have "32 \<le> 64 * q + r" "\<not> (864 \<le> 64 * q + r \<and> 64 * q + r < 896)" using 3 s
      by (auto simp: isScalar_def simp flip: q(2))
    then have "q = 0 \<longrightarrow> 32 \<le> r" "q = 13 \<longrightarrow> r < 32" using q(1,3) by auto
    then have "\<exists>rs. followRanges (224 + q) = Some rs \<and> list_all2 inRange [128 + r, 128 + cp mod 64] rs"
      using q by (auto simp: followRanges_def)
    with 3 show ?thesis by (simp add: utf8Bytes_def oneCodepoint_def q_def r_def)
  next
    case 4
    define q where "q = cp div 262144"
    define r where "r = cp div 4096 mod 64"
    have q: "q < 5" "cp div 4096 = 64 * q + r" "r < 64" "cp mod 64 < 64" "cp div 64 mod 64 < 64" using 4
      by (simp_all add: q_def r_def div_mult2_eq [of cp 4096 64, simplified])
    then have "16 \<le> 64 * q + r" "64 * q + r < 272" using 4 by (auto simp flip: q(2))
    then have "q = 0 \<longrightarrow> 16 \<le> r" "q = 4 \<longrightarrow> r < 16" using q(1,3) by auto
    then have "\<exists>rs. followRanges (240 + q) = Some rs \<and> list_all2 inRange [128 + r, 128 + cp div 64 mod 64, 128 + cp mod 64] rs"
      using q by (auto simp: followRanges_def)
    with 4 show ?thesis by (simp add: utf8Bytes_def oneCodepoint_def q_def r_def)
  qed
qed

lemma split64: "y < 64 \<Longrightarrow> (64 * a + y) div 64 = a" "y < 64 \<Longrightarrow> (64 * a + y) mod 64 = (y :: nat)"
  by simp_all

lemma one_utf8Bytes:
  assumes "oneCodepoint bs"
  shows "\<exists>cp. isScalar cp \<and> utf8Bytes cp = bs"
proof -
  from assms obtain b t where bs: "bs = b # t"
    and c: "b < 128 \<and> t = [] \<or> 128 \<le> b \<and> (\<exists>rs. followRanges b = Some rs \<and> list_all2 inRange t rs)"
    by (auto simp: oneCodepoint_def)
  consider "b < 128" "t = []" | x where "t = [x]" "194 \<le> b" "b \<le> 223" "128 \<le> x" "x \<le> 191"
    | x y where "t = [x, y]" "224 \<le> b" "b \<le> 239" "128 \<le> x" "x \<le> 191" "128 \<le> y" "y \<le> 191" "b = 224 \<longrightarrow> 160 \<le> x" "b = 237 \<longrightarrow> x \<le> 159"
    | x y z where "t = [x, y, z]" "240 \<le> b" "b \<le> 244" "128 \<le> x" "x \<le> 191" "128 \<le> y" "y \<le> 191" "128 \<le> z" "z \<le> 191"
        "b = 240 \<longrightarrow> 144 \<le> x" "b = 244 \<longrightarrow> x \<le> 143"
    using c by (fastforce simp: followRanges_def list_all2_Cons2 split: if_splits)
  then show ?thesis
  proof cases
    case 1
    then show ?thesis by (intro exI [of _ b]) (simp add: bs isScalar_def utf8Bytes_def)
  next
    case 2
    obtain b' x' where b': "b = 192 + b'" "x = 128 + x'" using 2 le_Suc_ex [of 192 b] le_Suc_ex [of 128 x] by auto
    with 2 show ?thesis by (intro exI [of _ "64 * b' + x'"]) (auto simp: bs isScalar_def utf8Bytes_def)
  next
    case 3
    obtain b' x' y' where b': "b = 224 + b'" "x = 128 + x'" "y = 128 + y'" using 3 le_Suc_ex by metis
    define cp where "cp = 64 * (64 * b' + x') + y'"
    have d: "cp div 64 = 64 * b' + x'" "cp mod 64 = y'" "(64 * b' + x') div 64 = b'" "(64 * b' + x') mod 64 = x'"
      unfolding cp_def by (rule split64; use 3 b' in linarith)+
    moreover have "cp div 4096 = b'" using d(1,3) by (simp add: div_mult2_eq [of cp 64 64, simplified])
    moreover have "2048 \<le> cp" "cp < 65536" using 3 b' by (auto simp: cp_def)
    moreover have "isScalar cp"
    proof (cases "b' \<le> 12 \<or> 14 \<le> b'")
      case True
      with 3 b' show ?thesis by (auto simp: cp_def isScalar_def)
    next
      case False
      then have "b' = 13" by simp
      with 3 b' show ?thesis by (auto simp: cp_def isScalar_def)
    qed
    ultimately show ?thesis by (intro exI [of _ cp]) (simp add: bs b' 3(1) utf8Bytes_def)
  next
    case 4
    obtain b' x' y' z' where b': "b = 240 + b'" "x = 128 + x'" "y = 128 + y'" "z = 128 + z'" using 4 le_Suc_ex by metis
    define cp where "cp = 64 * (64 * (64 * b' + x') + y') + z'"
    have d: "cp div 64 = 64 * (64 * b' + x') + y'" "cp mod 64 = z'" "(64 * (64 * b' + x') + y') div 64 = 64 * b' + x'"
        "(64 * (64 * b' + x') + y') mod 64 = y'" "(64 * b' + x') div 64 = b'" "(64 * b' + x') mod 64 = x'"
      unfolding cp_def by (rule split64; use 4 b' in linarith)+
    moreover have "cp div 4096 = 64 * b' + x'" "cp div 262144 = b'"
      using d(1,3,5) by (simp_all add: div_mult2_eq [of cp 64 64, simplified] div_mult2_eq [of cp 64 4096, simplified]
          div_mult2_eq [of "64 * (64 * b' + x') + y'" 64 64, simplified])
    moreover have "65536 \<le> cp" "isScalar cp" using 4 b' by (auto simp: cp_def isScalar_def)
    ultimately show ?thesis by (intro exI [of _ cp]) (simp add: bs b' 4(1) utf8Bytes_def)
  qed
qed

lemma utf8Text_Cons:
  "utf8Text s \<longleftrightarrow> s = [] \<or> (\<exists>u s'. s = u @ s' \<and> oneCodepoint (map byte u) \<and> utf8Text s')"
proof
  assume "utf8Text s"
  then obtain cps where c: "list_all isScalar cps" "map byte s = concat (map utf8Bytes cps)" by (auto simp: utf8Text_def)
  show "s = [] \<or> (\<exists>u s'. s = u @ s' \<and> oneCodepoint (map byte u) \<and> utf8Text s')"
  proof (cases cps)
    case Nil
    with c show ?thesis by simp
  next
    case (Cons cp cps')
    with c(2) obtain u s' where "s = u @ s'" "map byte u = utf8Bytes cp" "map byte s' = concat (map utf8Bytes cps')"
      by (auto simp: map_eq_append_conv)
    moreover from this(3) c(1) Cons have "utf8Text s'" by (auto simp: utf8Text_def)
    moreover have "oneCodepoint (utf8Bytes cp)" using c(1) Cons utf8Bytes_one by simp
    ultimately show ?thesis by (metis)
  qed
next
  assume "s = [] \<or> (\<exists>u s'. s = u @ s' \<and> oneCodepoint (map byte u) \<and> utf8Text s')"
  then show "utf8Text s"
  proof (elim disjE exE conjE)
    fix u s' assume s: "s = u @ s'" "oneCodepoint (map byte u)" "utf8Text s'"
    from one_utf8Bytes [OF s(2)] obtain cp where "isScalar cp" "utf8Bytes cp = map byte u" by blast
    moreover from s(3) obtain cps where "list_all isScalar cps" "map byte s' = concat (map utf8Bytes cps)" by (auto simp: utf8Text_def)
    ultimately have "list_all isScalar (cp # cps)" "map byte s = concat (map utf8Bytes (cp # cps))" using s(1) by simp_all
    then show "utf8Text s" unfolding utf8Text_def by blast
  qed (auto simp: utf8Text_def intro: exI [of _ "[]"])
qed

lemma oneCodepoint_Cons: "oneCodepoint (b # t) \<longleftrightarrow>
    b < 128 \<and> t = [] \<or> 128 \<le> b \<and> (\<exists>rs. followRanges b = Some rs \<and> list_all2 inRange t rs)"
  by (simp add: oneCodepoint_def)

lemma utf8Text_head: "utf8Text (c # s) \<longleftrightarrow> (\<exists>u s'. s = u @ s' \<and> oneCodepoint (byte c # map byte u) \<and> utf8Text s')"
proof -
  have "\<not> oneCodepoint []" by (simp add: oneCodepoint_def)
  then have "(\<exists>u s'. c # s = u @ s' \<and> oneCodepoint (map byte u) \<and> utf8Text s') \<longleftrightarrow>
      (\<exists>u s'. s = u @ s' \<and> oneCodepoint (byte c # map byte u) \<and> utf8Text s')"
    unfolding Cons_eq_append_conv by (metis (no_types, lifting) list.map)
  then show ?thesis by (subst utf8Text_Cons) simp
qed

section \<open>The automaton\<close>

lemma decode_state: "b < 256 \<Longrightarrow> fst (decode st cp b) = utf8d ! (256 + st * 16 + byteClass ! b)"
  by (simp add: decode_def Let_def utf8d_class)

lemma decode_first_ok: "b < 256 \<Longrightarrow> b < 128 \<or> followRanges b \<noteq> None \<Longrightarrow> fst (decode 0 cp b) \<noteq> 1"
  by (auto simp: decode_state byteClass_nth followRanges_def utf8d_first split: if_splits)

lemma decode_follow_ok:
  assumes "b < 256" "pendingRanges st = r # rs" "inRange b r"
  shows "fst (decode st cp b) \<noteq> 1"
proof -
  have st: "2 \<le> st" "st \<le> 8" using assms(2) by (auto simp: pendingRanges_def split: if_splits)
  have b: "128 \<le> b" "b < 192" using assms(2,3) by (auto simp: pendingRanges_def split: if_splits)
  then have k: "byteClass ! b = (if b < 144 then 1 else if b < 160 then 9 else 7)" using byteClass_nth [OF assms(1)] by simp
  have "fst (decode st cp b) = transitions ! (st * 16 + byteClass ! b)"
    using decode_state [OF assms(1)] utf8d_transitions by (simp add: add.assoc)
  with transitions_nth [OF st, of "byteClass ! b"] k assms(2,3) b show ?thesis
    by (auto simp: pendingRanges_def split: if_splits)
qed

text \<open>What a text has to go on with: the bytes of the given ranges, and then UTF-8.\<close>

definition continues :: "string \<Rightarrow> (nat \<times> nat) list \<Rightarrow> bool" where
  "continues s rs \<longleftrightarrow> (\<exists>u s'. s = u @ s' \<and> list_all2 inRange (map byte u) rs \<and> utf8Text s')"

lemma continues_none [simp]: "continues s [] \<longleftrightarrow> utf8Text s"
  by (auto simp: continues_def)

lemma continues_end [simp]: "continues [] rs \<longleftrightarrow> rs = []"
  by (auto simp: continues_def utf8Text_def intro: exI [of _ "[]"])

lemma continues_Cons: "continues (c # s) (r # rs) \<longleftrightarrow> inRange (byte c) r \<and> continues s rs"
proof
  assume "continues (c # s) (r # rs)"
  then obtain u s' where u: "c # s = u @ s'" "list_all2 inRange (map byte u) (r # rs)" "utf8Text s'"
    by (auto simp: continues_def)
  then obtain u' where "u = c # u'" by (cases u) auto
  with u show "inRange (byte c) r \<and> continues s rs" by (auto simp: continues_def)
next
  assume "inRange (byte c) r \<and> continues s rs"
  then obtain u s' where "inRange (byte c) r" "s = u @ s'" "list_all2 inRange (map byte u) rs" "utf8Text s'"
    by (auto simp: continues_def)
  then have "c # s = (c # u) @ s'" "list_all2 inRange (map byte (c # u)) (r # rs)" "utf8Text s'" by simp_all
  then show "continues (c # s) (r # rs)" unfolding continues_def by blast
qed

lemma utf8Text_first:
  "utf8Text (c # s) \<longleftrightarrow> (if byte c < 128 then utf8Text s else case followRanges (byte c) of None \<Rightarrow> False | Some rs \<Rightarrow> continues s rs)"
proof -
  have "utf8Text (c # s) \<longleftrightarrow> (\<exists>u s'. s = u @ s' \<and> byte c < 128 \<and> u = [] \<and> utf8Text s') \<or>
      (\<exists>u s'. s = u @ s' \<and> 128 \<le> byte c \<and> (\<exists>rs. followRanges (byte c) = Some rs \<and> list_all2 inRange (map byte u) rs) \<and> utf8Text s')"
    unfolding utf8Text_head oneCodepoint_Cons map_is_Nil_conv by blast
  then show ?thesis by (auto simp: continues_def split: option.split)
qed

text \<open>From a state of the automaton: the bytes it waits for, and then UTF-8.\<close>

lemma dumpEscaped_accepts:
  "codepOk st cp \<Longrightarrow> (\<exists>e. dumpEscaped st cp s = Inr e) \<longleftrightarrow> continues s (pendingRanges st)"
proof (induction s arbitrary: st cp)
  case Nil
  then show ?case by (auto simp: codepOk_def pendingRanges_def utf8Accept_def)
next
  case (Cons c s)
  obtain st' cp' where d: "decode st cp (byte c) = (st', cp')" by fastforce
  have dump: "(\<exists>e. dumpEscaped st cp (c # s) = Inr e) \<longleftrightarrow> st' \<noteq> 1 \<and> (\<exists>e. dumpEscaped st' cp' s = Inr e)"
    unfolding dumpEscaped_Cons using d by auto
  show ?case
  proof (cases "st = 0")
    case True
    note f = decode_first [OF byte_less d [unfolded True]]
    have ok: "byte c < 128 \<or> followRanges (byte c) \<noteq> None \<Longrightarrow> st' \<noteq> 1"
      using decode_first_ok [OF byte_less, of c cp] d True by simp
    show ?thesis
    proof (cases "byte c < 128")
      case low: True
      with f ok Cons.IH [of 0 cp'] show ?thesis unfolding dump by (simp add: True start_state utf8Text_first)
    next
      case False
      with f ok Cons.IH [of st' cp'] show ?thesis
        unfolding dump by (cases "followRanges (byte c)") (auto simp: True start_state utf8Text_first)
    qed
  next
    case False
    then obtain r rs where r: "pendingRanges st = r # rs" using Cons.prems by (auto simp: codepOk_def pendingRanges_def)
    note f = decode_follow [OF byte_less False Cons.prems d]
    show ?thesis
    proof (cases "inRange (byte c) r")
      case True
      with decode_follow_ok [OF byte_less r True, of cp] d have "st' \<noteq> 1" by simp
      with f r Cons.IH [of st' cp'] True show ?thesis unfolding dump r by (auto simp: continues_Cons)
    next
      case no: False
      with f r have "st' = 1" by auto
      with no show ?thesis unfolding dump r by (simp add: continues_Cons)
    qed
  qed
qed

lemma dumpString_accepts: "(\<exists>e. dumpString s = Inr e) \<longleftrightarrow> utf8Text s"
proof -
  have "(\<exists>e. dumpString s = Inr e) \<longleftrightarrow> (\<exists>e. dumpEscaped 0 0 s = Inr e)"
    by (simp add: dumpString_def bind_res_Inr_iff utf8Accept_def)
  also have "\<dots> \<longleftrightarrow> utf8Text s" using dumpEscaped_accepts [of 0 0 s] by (simp add: start_state)
  finally show ?thesis .
qed

section \<open>The property\<close>

text \<open>
  C10: The serializer accepts exactly UTF-8: a string can be written as JSON if and only if its
  bytes are the encodings, as RFC 3629 defines them, of Unicode scalar values: no overlong form,
  no surrogate, nothing above U+10FFFF and no truncated sequence passes the table-driven check,
  and everything else does.
\<close>

theorem dump_accepts_utf8: "(\<exists>e. dumpString s = Inr e) \<longleftrightarrow> utf8Text s"
  by (rule dumpString_accepts)

end
