(* ===== verification/JsonFrame.thy ===== *)
theory JsonFrame
  imports JsonRound
begin

text \<open>
  Where the text of a message ends. The parser takes a NUL byte for the end of the input, so
  that what follows one is not read; and no proper prefix of the text of an object is accepted,
  because what was scanned so far does not depend on what may still come.
\<close>

section \<open>Nothing is taken back\<close>

text \<open>What was scanned does not depend on what follows it.\<close>

lemma getCodepoint_extend: "getCodepoint s = Some (cp, s') \<Longrightarrow> getCodepoint (s @ u) = Some (cp, s' @ u)"
  by (cases s rule: getCodepoint.cases) (auto split: option.splits)

lemma scanEscape_simple: "c \<noteq> CHR ''u'' \<Longrightarrow> scanEscape (c # s) = map_option (\<lambda>r. (fst r, s)) (scanEscape [c])"
  by (simp only: scanEscape_def list.case if_False if_distrib [of "map_option _"] option.map fst_conv)

lemma scanEscape_extend: "scanEscape s = Some (out, s') \<Longrightarrow> scanEscape (s @ u) = Some (out, s' @ u)"
proof (cases s)
  case (Cons c s1)
  assume r: "scanEscape s = Some (out, s')"
  show ?thesis
  proof (cases "c = CHR ''u''")
    case False
    from r Cons show ?thesis 
      using scanEscape_simple [OF False, of s1] scanEscape_simple [OF False, of "s1 @ u"] by auto
  next
    case True
    with r Cons obtain cp1 s2 where g: "getCodepoint s1 = Some (cp1, s2)"
      by (auto simp: scanEscape_def dquote_def backslash_def split: option.splits)
    from r Cons True g getCodepoint_extend [OF g, of u] show ?thesis
      by (auto simp: scanEscape_def dquote_def backslash_def getCodepoint_extend split: if_splits option.splits list.splits)
  qed
qed (simp add: scanEscape_def)

lemma scanString_extend: "scanString rs acc s = Some (str, s') \<Longrightarrow> scanString rs acc (s @ u) = Some (str, s' @ u)"
  by (induction rs acc s rule: scanString.induct) (auto simp: scanEscape_extend split: if_splits option.splits)

lemma scanDigits_extend:
  "scanDigits st ty acc s = Some (ty', t, s') \<Longrightarrow> s' \<noteq> [] \<Longrightarrow> scanDigits st ty acc (s @ u) = Some (ty', t, s' @ u)"
  by (induction st ty acc s rule: scanDigits.induct) (auto split: option.splits)

text \<open>A token that cannot be continued: no end, and no number at the very end of the input.\<close>

definition finished :: "token \<Rightarrow> string \<Rightarrow> bool" where
  "finished t s \<longleftrightarrow> \<not> endToken t \<and> (s \<noteq> [] \<or> (case t of TokInt i \<Rightarrow> False | TokFloat r \<Rightarrow> False | _ \<Rightarrow> True))"

lemma numberToken_kind: "finished (numberToken ty t) s \<longleftrightarrow> s \<noteq> []"
  by (auto simp: numberToken_def finished_def endToken_def split: num_type.splits)

lemma scanNumber_extend: "scanNumber c s = (t, s') \<Longrightarrow> finished t s' \<Longrightarrow> scanNumber c (s @ u) = (t, s' @ u)"
proof -
  define st where "st = (if c = CHR ''-'' then NMinus else if c = CHR ''0'' then NZero else NAny1)"
  assume r: "scanNumber c s = (t, s')" "finished t s'"
  then obtain ty v where d: "scanDigits st (numType st NumUnsigned) [c] s = Some (ty, v, s')" "t = numberToken ty v"
    by (auto simp: scanNumber_def Let_def st_def [symmetric] finished_def endToken_def split: option.splits)
  with r(2) scanDigits_extend [OF d(1), of u] show ?thesis
    by (simp add: scanNumber_def Let_def st_def [symmetric] numberToken_kind)
qed

lemma scanLiteral_extend: "scanLiteral lit t s = (t', s') \<Longrightarrow> finished t' s' \<Longrightarrow> scanLiteral lit t (s @ u) = (t', s' @ u)"
proof -
  assume r: "scanLiteral lit t s = (t', s')" "finished t' s'"
  then have l: "take (length lit) s = lit" by (auto simp: scanLiteral_def finished_def endToken_def split: if_splits)
  then have "length lit \<le> length s" by (metis length_take min.cobounded1)
  with r l show ?thesis by (auto simp: scanLiteral_def)
qed

lemma dropWhile_extend: "dropWhile P s = c # s' \<Longrightarrow> dropWhile P (s @ u) = c # s' @ u"
  by (induction s) (auto split: if_splits)

lemma if_both:
  assumes "(if P then a else b) = v" "P \<Longrightarrow> a = v \<Longrightarrow> a' = v'" "\<not> P \<Longrightarrow> b = v \<Longrightarrow> b' = v'"
  shows "(if P then a' else b') = v'"
  using assms by (auto split: if_splits)

lemma scan_extend:
  assumes "scan s = (t, s')" "finished t s'"
  shows "scan (s @ u) = (t, s' @ u)"
proof (cases "dropWhile isBlank s")
  case (Cons c s1)
  note fin = assms(2) [unfolded finished_def endToken_def]
  have lit: "scanLiteral l k s1 = (t, s') \<Longrightarrow> scanLiteral l k (s1 @ u) = (t, s' @ u)" for l k
    using scanLiteral_extend assms(2) by blast
  have num: "scanNumber c s1 = (t, s') \<Longrightarrow> scanNumber c (s1 @ u) = (t, s' @ u)"
    using scanNumber_extend assms(2) by blast
  have str: "(case scanString [] [] s1 of None \<Rightarrow> (TokError, []) | Some (r, s') \<Rightarrow> (TokString r, s')) = (t, s') \<Longrightarrow>
      (case scanString [] [] (s1 @ u) of None \<Rightarrow> (TokError, []) | Some (r, s') \<Rightarrow> (TokString r, s')) = (t, s' @ u)"
    using fin scanString_extend [of "[]" "[]" s1 _ _ u] by (auto split: option.splits)
  from assms(1) show ?thesis
    unfolding scan_def Cons dropWhile_extend [OF Cons] list.case
    by (elim if_both) (use fin lit num str in auto)
next
  case Nil
  with assms(1) have "t = TokEnd" by (simp add: scan_def)
  with assms(2) show ?thesis by (simp add: finished_def endToken_def)
qed


lemma scan_Nil [simp]: "scan [] = (TokEnd, [])"
  by (simp add: scan_def)

lemma afterValue_Nil: "afterValue F v (fr # st) [] = None"
  by (cases fr) (simp_all add: afterValue.simps(2,3))

lemma parseValue_finished: "parseValue F t (fr # st) s = Some r \<Longrightarrow> finished t s"
  by (cases t; cases "s = []")
    (auto simp: parseValue.simps [of F t for t] finished_def endToken_def scalarValue_def afterValue_Nil split: if_splits)

lemma finished_simps [simp]:
  "finished TokBeginObject s" "finished TokBeginArray s" "finished TokEndObject s" "finished TokEndArray s"
  "finished TokNameSep s" "finished TokValueSep s" "finished (TokString k) s"
  by (simp_all add: finished_def endToken_def)

lemma parse_extend:
  "parseValue F t st s = Some (j, s') \<Longrightarrow> parseValue F t st (s @ u) = Some (j, s' @ u)"
  "afterValue F v st s = Some (j, s') \<Longrightarrow> afterValue F v st (s @ u) = Some (j, s' @ u)"
proof (induction F t st s and F v st s rule: parseValue_afterValue.induct)
  case (1 F t st s)
  consider "t = TokBeginObject" | "t = TokBeginArray" | "t \<noteq> TokBeginObject" "t \<noteq> TokBeginArray" by blast
  then show ?case
  proof cases
    case a: 1
    with 1 show ?thesis
      by (auto simp: parseValue.simps [of F TokBeginObject] scan_extend parseValue_finished split: prod.split_asm token.split_asm)
  next
    case a: 2
    with 1 show ?thesis
      by (auto simp: parseValue.simps [of F TokBeginArray] scan_extend parseValue_finished split: prod.split_asm if_split_asm)
  next
    case a: 3
    with 1 show ?thesis by (auto simp: parseValue.simps [of F t] split: option.splits)
  qed
next
  case (3 F v vs st s)
  then show ?case
    by (auto simp: afterValue.simps(2) scan_extend parseValue_finished split: prod.split_asm token.split_asm)
next
  case (4 F v m k st s)
  then show ?case
    by (auto simp: afterValue.simps(3) scan_extend parseValue_finished split: prod.split_asm token.split_asm)
qed simp

section \<open>A NUL ends the input\<close>

definition nul :: char where
  "nul = CHR 0x00"

lemma byte_nul [simp]: "byte nul = 0"
  by (simp add: nul_def byte_def)

lemma hexValue_nul [simp]: "hexValue nul = None"
  by (simp add: hexValue_def)

lemma nul_plain: "nul \<noteq> dquote" "nul \<noteq> backslash" "\<not> isBlank nul" "\<not> isDigit nul"
  by (simp_all add: nul_def dquote_def backslash_def isBlank_def isDigit_def byte_def)

lemma getCodepoint_nul: "getCodepoint s = None \<Longrightarrow> getCodepoint (s @ nul # x) = None"
proof -
  have none: "nul \<in> set (take 4 v) \<Longrightarrow> getCodepoint v = None" for v
    by (cases v rule: getCodepoint.cases) (auto split: option.splits)
  assume n: "getCodepoint s = None"
  show ?thesis
  proof (cases "length s < 4")
    case True
    then show ?thesis by (intro none) (simp add: take_Cons')
  next
    case False
    with n show ?thesis by (cases s rule: getCodepoint.cases) (auto split: option.splits)
  qed
qed

lemma scanEscape_nul: "scanEscape s = None \<Longrightarrow> scanEscape (s @ nul # x) = None"
proof (cases s)
  case (Cons c s1)
  assume n: "scanEscape s = None"
  show ?thesis
  proof (cases "c = CHR ''u''")
    case False
    from n Cons show ?thesis
      using scanEscape_simple [OF False, of s1] scanEscape_simple [OF False, of "s1 @ nul # x"] by auto
  next
    case True
    show ?thesis
    proof (cases "getCodepoint s1")
      case None
      with n Cons True getCodepoint_nul [OF None, of x] show ?thesis
        by (simp add: scanEscape_def dquote_def backslash_def)
    next
      case (Some r)
      then obtain cp1 s2 where g: "getCodepoint s1 = Some (cp1, s2)" by (cases r) auto
      consider "s2 = []" | y where "s2 = [y]" | y z s3 where "s2 = y # z # s3" by (cases s2; cases "tl s2") auto
      then show ?thesis using n Cons True getCodepoint_extend [OF g, of "nul # x"] g
        by cases (auto simp: scanEscape_def nul_def dquote_def backslash_def getCodepoint_nul [unfolded nul_def] getCodepoint_extend
            split: if_splits option.splits list.split)
    qed
  qed
qed (simp add: scanEscape_def nul_def dquote_def backslash_def)

lemma scanString_nul:
  "scanString rs acc s = None \<Longrightarrow> \<forall>r \<in> set rs. 0 < fst r \<Longrightarrow> scanString rs acc (s @ nul # x) = None"
proof (induction rs acc s rule: scanString.induct)
  case (1 rs acc)
  then show ?case by (cases "(rs, acc, [nul])" rule: scanString.cases) (auto simp: nul_plain followRanges_def)
next
  case (3 acc c s)
  have "\<forall>r \<in> set rs. 0 < fst r" if "followRanges b = Some rs" for b rs
    using that by (auto simp: followRanges_def split: if_splits)
  with 3 show ?case by (auto simp: scanEscape_nul scanEscape_extend split: if_splits option.splits)
qed (auto split: if_splits)

lemma numStep_nul: "numStep st (Some nul) = numStep st None"
  by (cases st) (simp_all add: numStep_def nul_plain, simp_all add: nul_def)

lemma numStep_end: "numStep st None \<noteq> Some (Some st')"
  by (cases st) (simp_all add: numStep_def)

lemma scanDigits_nul:
  "scanDigits st ty acc (s @ nul # x) = map_option (\<lambda>(ty, t, s'). (ty, t, s' @ nul # x)) (scanDigits st ty acc s)"
  by (induction st ty acc s rule: scanDigits.induct) (auto simp: numStep_nul numStep_end split: option.splits)

lemma scanNumber_nul:
  "scanNumber c (s @ nul # x) = (case scanNumber c s of (t, s') \<Rightarrow> if endToken t then (t, []) else (t, s' @ nul # x))"
proof -
  have "\<not> endToken (numberToken ty t)" for ty t by (auto simp: numberToken_def endToken_def split: num_type.splits)
  then show ?thesis by (auto simp: scanNumber_def Let_def scanDigits_nul endToken_def split: option.splits)
qed

lemma scanLiteral_nul:
  assumes "nul \<notin> set lit" "\<not> endToken t"
  shows "scanLiteral lit t (s @ nul # x) = (case scanLiteral lit t s of (t, s') \<Rightarrow> if endToken t then (t, []) else (t, s' @ nul # x))"
proof (cases "length lit \<le> length s")
  case True
  with assms(2) show ?thesis by (simp add: scanLiteral_def endToken_def)
next
  case False
  then have "nul \<in> set (take (length lit) (s @ nul # x))" by (simp add: take_Cons')
  with assms(1) have "take (length lit) (s @ nul # x) \<noteq> lit" by metis
  moreover have "take (length lit) s \<noteq> lit" using False by (auto dest: arg_cong [where f = length])
  ultimately show ?thesis by (simp add: scanLiteral_def endToken_def)
qed

definition upToNul :: "string \<Rightarrow> token \<times> string \<Rightarrow> token \<times> string" where
  "upToNul x r = (case r of (t, s) \<Rightarrow> if endToken t then (t, []) else (t, s @ nul # x))"

lemma if_upToNul: "(P \<Longrightarrow> a' = upToNul x a) \<Longrightarrow> (\<not> P \<Longrightarrow> b' = upToNul x b) \<Longrightarrow>
    (if P then a' else b') = upToNul x (if P then a else b)"
  by simp

lemma scan_nul: "scan (s @ nul # x) = upToNul x (scan s)"
proof (cases "dropWhile isBlank s")
  case Nil
  then have "dropWhile isBlank (s @ nul # x) = nul # x" by (simp add: dropWhile_append nul_plain)
  moreover have "scan (nul # y) = (TokEnd, [])" for y
    by (simp add: scan_def nul_plain) (simp add: nul_def)
  ultimately have "scan (s @ nul # x) = (TokEnd, [])" by (simp add: scan_def nul_plain)
  moreover have "scan s = (TokEnd, [])" using Nil by (simp add: scan_def del: dropWhile_eq_Nil_conv)
  ultimately show ?thesis by (simp add: upToNul_def endToken_def)
next
  case (Cons c s1)
  have str: "(case scanString [] [] (s1 @ nul # x) of None \<Rightarrow> (TokError, []) | Some (r, s') \<Rightarrow> (TokString r, s')) =
      upToNul x (case scanString [] [] s1 of None \<Rightarrow> (TokError, []) | Some (r, s') \<Rightarrow> (TokString r, s'))"
    using scanString_nul [of "[]" "[]" s1 x] scanString_extend [of "[]" "[]" s1 _ _ "nul # x"]
    by (auto simp: upToNul_def endToken_def split: option.split)
  have num: "scanNumber c (s1 @ nul # x) = upToNul x (scanNumber c s1)"
    unfolding upToNul_def by (rule scanNumber_nul)
  have lit: "scanLiteral l t (s1 @ nul # x) = upToNul x (scanLiteral l t s1)" if "nul \<notin> set l" "\<not> endToken t" for l t
    unfolding upToNul_def using that by (rule scanLiteral_nul)
  show ?thesis
    unfolding scan_def Cons dropWhile_extend [OF Cons] list.case
    by (intro if_upToNul str num lit) (simp_all add: upToNul_def endToken_def nul_def)
qed

lemma parseValue_end: "endToken t \<Longrightarrow> parseValue F t st s = None"
  by (auto simp: endToken_def parseValue.simps [of F t for t] scalarValue_def)

lemma parse_nul:
  "parseValue F t st s = None \<Longrightarrow> parseValue F t st (s @ nul # x) = None"
  "afterValue F v st s = None \<Longrightarrow> afterValue F v st (s @ nul # x) = None"
proof (induction F t st s and F v st s rule: parseValue_afterValue.induct)
  case (1 F t st s)
  consider "t = TokBeginObject" | "t = TokBeginArray" | "t \<noteq> TokBeginObject" "t \<noteq> TokBeginArray" by blast
  then show ?case
  proof cases
    case a: 1
    with 1 show ?thesis
      by (auto simp: parseValue.simps [of F TokBeginObject] scan_nul upToNul_def parseValue_end endToken_def split: prod.splits token.splits if_splits)
  next
    case a: 2
    with 1 show ?thesis
      by (auto simp: parseValue.simps [of F TokBeginArray] scan_nul upToNul_def parseValue_end endToken_def split: prod.splits if_splits)
  next
    case a: 3
    with 1 show ?thesis by (auto simp: parseValue.simps [of F t] split: option.splits)
  qed
next
  case (3 F v vs st s)
  then show ?case
    by (auto simp: afterValue.simps(2) scan_nul upToNul_def parseValue_end endToken_def split: prod.splits token.splits if_splits)
next
  case (4 F v m k st s)
  then show ?case
    by (auto simp: afterValue.simps(3) scan_nul upToNul_def parseValue_end endToken_def split: prod.splits token.splits if_splits)
qed simp

lemma skipBom_nul: "skipBom (s @ nul # x) = map_option (\<lambda>s. s @ nul # x) (skipBom s)"
proof -
  consider "s = []" | c where "s = [c]" | c d where "s = [c, d]" | c d e s' where "s = c # d # e # s'"
    by (cases s; cases "tl s"; cases "tl (tl s)") auto
  then show ?thesis by cases (auto simp: skipBom_def split: list.split)
qed

lemma parseJson_nul: "parseJson F (s @ nul # x) = parseJson F s"
proof (cases "skipBom s")
  case None
  then show ?thesis by (simp add: parseJson_def skipBom_nul)
next
  case (Some s1)
  obtain t s2 where t: "scan s1 = (t, s2)" by fastforce
  show ?thesis
  proof (cases "parseValue F t [] s2")
    case None
    from parse_nul(1) [OF this, of x] None t Some show ?thesis
      by (auto simp: parseJson_def skipBom_nul scan_nul upToNul_def parseValue_end)
  next
    case r: (Some r)
    then obtain j s3 where p: "parseValue F t [] s2 = Some (j, s3)" by (cases r) auto
    then have "\<not> endToken t" using parseValue_end by force
    moreover have "fst (upToNul x (scan s3)) = fst (scan s3)" by (simp add: upToNul_def split: prod.split)
    moreover have "scan (s1 @ nul # x) = upToNul x (t, s2)" "scan (s3 @ nul # x) = upToNul x (scan s3)"
      using t scan_nul by metis+
    ultimately show ?thesis using parse_extend(1) [OF p, of "nul # x"] p t Some
      by (simp add: parseJson_def skipBom_nul upToNul_def [of x "(t, s2)"])
  qed
qed

section \<open>No part of an object is one\<close>

text \<open>The text of an object, cut anywhere before its end.\<close>

lemma parse_cut:
  assumes "json_ok (JObject m)" "dumpJson F (JObject m) = Inr s" "n < length s"
  shows "parseJson F (take n s) = Inl JsonParse"
proof (rule ccontr)
  obtain s' where s': "s = CHR ''{'' # s'" using assms(2) by (auto simp: bind_res_Inr_iff split: if_splits)
  assume "parseJson F (take n s) \<noteq> Inl JsonParse"
  moreover have bom: "skipBom (take n s) = Some (take n s)" by (cases n) (simp_all add: s' skipBom_def byte_def)
  ultimately obtain t s1 j s2 where p: "scan (take n s) = (t, s1)" "parseValue F t [] s1 = Some (j, s2)"
    by (auto simp: parseJson_def split: prod.splits option.splits)
  have "n \<noteq> 0" using p by (cases "n = 0") (auto simp: parseValue_end endToken_def)
  then have "t = TokBeginObject" using p(1) by (cases n) (simp_all add: s' scan_structural)
  with scan_extend [OF p(1), of "drop n s"] have "scan s = (t, s1 @ drop n s)" by simp
  with parse_extend(1) [OF p(2), of "drop n s"] have "parseNext F [] s = Some (j, s2 @ drop n s)"
    by (simp add: parseNext_def)
  moreover have "parseNext F [] s = Some (JObject m, [])"
    using parse_dump(1) [OF assms(2,1), of "[]" "[]"] by (simp add: delimited_def)
  ultimately show False using assms(3) by simp
qed

end
