(* ===== verification/JsonValid.thy ===== *)
theory JsonValid
  imports JsonUtf8
begin

text \<open>
  What the parser lets through the serializer takes again: the strings of a parsed value are
  UTF-8, also where an escape stood for a character, its numbers fit 64 bits, the members of
  its objects are sorted.
\<close>

section \<open>Strings\<close>

lemma or_high:
  assumes "h mod 2 ^ n = 0" "k < 2 ^ n"
  shows "h OR k = h + (k :: nat)"
proof -
  have "h = push_bit n (drop_bit n h)" using assms(1) by (simp add: push_bit_eq_mult drop_bit_eq_div mod_0_imp_dvd)
  moreover have "k = take_bit n k" using assms(2) by (simp add: take_bit_nat_eq_self)
  ultimately have "\<not> bit h i \<or> \<not> bit k i" for i by (metis bit_push_bit_iff bit_take_bit_iff not_le)
  then show ?thesis by (simp add: disjunctive_add)
qed

lemma or_mark: "k < 32 \<Longrightarrow> 192 OR k = 192 + (k :: nat)" "k < 16 \<Longrightarrow> 224 OR k = 224 + k" "k < 8 \<Longrightarrow> 240 OR k = 240 + k"
  "k < 64 \<Longrightarrow> 128 OR k = 128 + k"
  using or_high [of 192 5 k] or_high [of 224 4 k] or_high [of 240 3 k] or_high [of 128 6 k] by simp_all

lemma codepointBytes_utf8: "cp \<le> 0x10FFFF \<Longrightarrow> map byte (codepointBytes cp) = utf8Bytes cp"
proof -
  assume cp: "cp \<le> 0x10FFFF"
  have "cp div 262144 < 8" "cp div 262144 \<le> 4" using cp by simp_all
  moreover have "cp < 65536 \<Longrightarrow> cp div 4096 < 16" "cp < 2048 \<Longrightarrow> cp div 64 < 32" by simp_all
  ultimately show ?thesis
    by (auto simp: codepointBytes_def utf8Bytes_def drop_bit_eq_div and_low or_mark byte_char)
qed

lemma utf8Text_Nil: "utf8Text []"
  by (auto simp: utf8Text_def intro: exI [of _ "[]"])

lemma utf8Text_one: "oneCodepoint (map byte u) \<Longrightarrow> utf8Text s \<Longrightarrow> utf8Text (u @ s)"
  using utf8Text_Cons by blast

lemma utf8Text_codepoint: "isScalar cp \<Longrightarrow> utf8Text s \<Longrightarrow> utf8Text (codepointBytes cp @ s)"
  by (rule utf8Text_one) (auto simp: codepointBytes_utf8 utf8Bytes_one isScalar_def)

lemma utf8Text_ascii: "byte c < 128 \<Longrightarrow> utf8Text s \<Longrightarrow> utf8Text (c # s)"
  using utf8Text_one [of "[c]"] by (simp add: oneCodepoint_def)

lemma hexValue_less: "hexValue c = Some v \<Longrightarrow> v < 16"
  by (auto simp: hexValue_def split: if_splits)

lemma getCodepoint_less: "getCodepoint s = Some (cp, s') \<Longrightarrow> cp < 65536"
  by (cases s rule: getCodepoint.cases) (auto split: option.splits dest!: hexValue_less)

text \<open>A pair of surrogates is put together to a code point above the basic plane.\<close>

lemma surrogates_scalar:
  assumes "55296 \<le> cp1" "cp1 \<le> 56319" "56320 \<le> cp2" "cp2 \<le> 57343"
  shows "isScalar (push_bit 10 cp1 + cp2 - 56613888)"
proof -
  have "65536 \<le> cp1 * 1024 + cp2 - 56613888" "cp1 * 1024 + cp2 - 56613888 \<le> 1114111"
    using assms by linarith+
  then show ?thesis by (simp add: isScalar_def push_bit_eq_mult)
qed

lemma scanEscape_utf8:
  assumes "scanEscape s = Some (out, s')" "utf8Text t"
  shows "utf8Text (out @ t)"
proof -
  obtain c s1 where s: "s = c # s1" using assms(1) by (cases s) (simp_all add: scanEscape_def)
  show ?thesis
  proof (cases "c = CHR ''u''")
    case False
    with assms(1) s have "out = [c] \<and> c \<in> {dquote, backslash, CHR ''/''} \<or>
        out \<in> {[char_of (8::nat)], [char_of (12::nat)], [char_of (10::nat)], [char_of (13::nat)], [char_of (9::nat)]}"
      by (simp add: scanEscape_def split: if_split_asm)
    moreover have "byte (CHR ''/'') = 47" by (simp add: byte_def)
    ultimately obtain d where "out = [d]" "byte d < 128"
      by (elim disjE conjE insertE emptyE) (simp_all add: byte_char byte_special)
    with utf8Text_ascii [OF _ assms(2)] show ?thesis by simp
  next
    case True
    with assms(1) s obtain cp1 s2 where g: "getCodepoint s1 = Some (cp1, s2)"
      by (auto simp: scanEscape_def dquote_def backslash_def split: option.splits)
    have "\<exists>cp. isScalar cp \<and> out = codepointBytes cp"
    proof (cases "55296 \<le> cp1 \<and> cp1 \<le> 56319")
      case sur: True
      with assms(1) s True g show ?thesis
        by (auto simp: scanEscape_def dquote_def backslash_def split: list.splits if_splits option.splits
            intro!: exI conjI surrogates_scalar)
    next
      case no: False
      with assms(1) s True g have "out = codepointBytes cp1" "\<not> (56320 \<le> cp1 \<and> cp1 \<le> 57343)"
        by (auto simp: scanEscape_def dquote_def backslash_def split: if_splits)
      with no getCodepoint_less [OF g] show ?thesis by (intro exI [of _ cp1]) (auto simp: isScalar_def)
    qed
    with utf8Text_codepoint [OF _ assms(2)] show ?thesis by auto
  qed
qed

lemma scanString_utf8:
  "scanString rs acc s = Some (str, s') \<Longrightarrow>
    \<exists>u v. str = acc @ u @ v \<and> list_all2 inRange (map byte u) rs \<and> utf8Text v"
proof (induction rs acc s rule: scanString.induct)
  case (2 lo hi rs acc c s)
  then obtain u v where "str = acc @ (c # u) @ v" "list_all2 inRange (map byte (c # u)) ((lo, hi) # rs)" "utf8Text v"
    by (auto split: if_splits)
  then show ?case by blast
next
  case (3 acc c s)
  consider "c = dquote" | out s1 where "c \<noteq> dquote" "c = backslash" "scanEscape s = Some (out, s1)" "scanString [] (acc @ out) s1 = Some (str, s')"
    | rs where "c \<noteq> dquote" "c \<noteq> backslash" "followRanges (byte c) = Some rs" "scanString rs (acc @ [c]) s = Some (str, s')"
    using 3(3) by (auto split: if_splits option.splits)
  then show ?case
  proof cases
    case 1
    with 3(3) utf8Text_Nil show ?thesis by auto
  next
    case 2
    from 3(1) [OF 2(1,2,3) _ 2(4)] obtain v where "str = acc @ out @ v" "utf8Text v" by auto
    with scanEscape_utf8 [OF 2(3)] show ?thesis by auto
  next
    case r: 3
    from 3(2) [OF r] obtain u v where "str = acc @ (c # u) @ v" "list_all2 inRange (map byte u) rs" "utf8Text v" by auto
    moreover from this r(3) have "oneCodepoint (map byte (c # u))"
      by (auto simp: oneCodepoint_Cons followRanges_def split: if_splits)
    ultimately show ?thesis using utf8Text_one [of "c # u" v] by auto
  qed
qed simp

section \<open>Values\<close>

text \<open>A value as the parser builds it, and what of a token goes into one.\<close>

fun wellJson :: "json \<Rightarrow> bool" where
  "wellJson (JInt i) \<longleftrightarrow> - (2 ^ 63) \<le> i \<and> i < 2 ^ 64"
| "wellJson (JString s) \<longleftrightarrow> utf8Text s"
| "wellJson (JArray js) \<longleftrightarrow> (\<forall>j \<in> set js. wellJson j)"
| "wellJson (JObject m) \<longleftrightarrow> sorted_wrt (<) (map fst m) \<and> (\<forall>kv \<in> set m. utf8Text (fst kv) \<and> wellJson (snd kv))"
| "wellJson _ \<longleftrightarrow> True"

definition wellToken :: "token \<Rightarrow> bool" where
  "wellToken t \<longleftrightarrow> (case t of TokString s \<Rightarrow> utf8Text s | TokInt i \<Rightarrow> - (2 ^ 63) \<le> i \<and> i < 2 ^ 64 | _ \<Rightarrow> True)"

fun wellFrame :: "frame \<Rightarrow> bool" where
  "wellFrame (ArrayFrame vs) \<longleftrightarrow> (\<forall>v \<in> set vs. wellJson v)"
| "wellFrame (ObjectFrame m k) \<longleftrightarrow> utf8Text k \<and> wellJson (JObject m)"

lemma scan_wellToken: "wellToken (fst (scan s))"
  by (auto simp: scan_def scanLiteral_def scanNumber_def numberToken_def wellToken_def Let_def
      split: list.splits option.splits num_type.splits dest!: scanString_utf8)

lemma wellToken_scan: "scan s = (t, s') \<Longrightarrow> wellToken t"
  using scan_wellToken [of s] by simp

lemma scalarValue_well: "scalarValue F t = Some v \<Longrightarrow> wellToken t \<Longrightarrow> wellJson v"
  by (auto simp: scalarValue_def wellToken_def split: token.splits if_splits)

lemma wellJson_objSet:
  assumes "wellJson (JObject m)" "utf8Text k" "wellJson v"
  shows "wellJson (JObject (objSet k v m))"
proof -
  have "set (objSet k v m) \<subseteq> insert (k, v) (set m)" by (induction k v m rule: objSet.induct) auto
  with assms show ?thesis by (fastforce simp: sorted_objSet)
qed

lemma wellToken_string: "wellToken (TokString k) \<longleftrightarrow> utf8Text k"
  by (simp add: wellToken_def)

lemma wellJson_parsed:
  "parseValue F t st s = Some (j, s') \<Longrightarrow> wellToken t \<Longrightarrow> list_all wellFrame st \<Longrightarrow> wellJson j"
  "afterValue F v st s = Some (j, s') \<Longrightarrow> wellJson v \<Longrightarrow> list_all wellFrame st \<Longrightarrow> wellJson j"
proof (induction F t st s and F v st s rule: parseValue_afterValue.induct)
  case (1 F t st s)
  show ?case
  proof (cases "t = TokBeginObject \<or> t = TokBeginArray")
    case True
    with 1 show ?thesis
      by (elim disjE) (auto simp: parseValue.simps [of F TokBeginObject] parseValue.simps [of F TokBeginArray] wellToken_string split: prod.splits token.splits if_splits dest!: wellToken_scan)
  next
    case False
    with 1 show ?thesis by (auto simp: parseValue.simps [of F t] scalarValue_well split: option.splits)
  qed
next
  case (3 F v vs st s)
  then show ?case
    by (auto simp: afterValue.simps(2) split: prod.splits token.splits dest!: wellToken_scan)
next
  case (4 F v m k st s)
  then show ?case
    using wellJson_objSet [of m k v]
    by (auto simp: afterValue.simps(3) wellToken_string split: prod.splits token.splits dest!: wellToken_scan)
qed simp


lemma parseJson_well: "parseJson F s = Inr j \<Longrightarrow> wellJson j"
  by (auto simp: parseJson_def split: option.splits prod.splits if_splits
      dest!: wellToken_scan dest: wellJson_parsed(1))

lemma well_dumps:
  "wellJson j \<Longrightarrow> \<exists>t. dumpJson F j = Inr t"
  "\<forall>j \<in> set js. wellJson j \<Longrightarrow> \<exists>t. dumpElems F js = Inr t"
  "\<forall>kv \<in> set m. utf8Text (fst kv) \<and> wellJson (snd kv) \<Longrightarrow> \<exists>t. dumpMembers F m = Inr t"
proof (induction F j and F js and F m rule: dumpJson_dumpElems_dumpMembers.induct)
  case (9 F j js)
  then show ?case by (cases "js = []") (auto simp: bind_res_Inr_iff)
next
  case (11 F k j m)
  then obtain ks where "dumpString k = Inr ks" by (auto simp flip: dumpString_accepts)
  with 11 show ?case by (cases "m = []") (auto simp: bind_res_Inr_iff)
qed (auto simp: bind_res_Inr_iff dumpString_accepts)

fun floatFree :: "json \<Rightarrow> bool" where
  "floatFree (JFloat t) \<longleftrightarrow> False"
| "floatFree (JArray js) \<longleftrightarrow> (\<forall>j \<in> set js. floatFree j)"
| "floatFree (JObject m) \<longleftrightarrow> (\<forall>kv \<in> set m. floatFree (snd kv))"
| "floatFree _ \<longleftrightarrow> True"

lemma well_json_ok: "wellJson j \<Longrightarrow> floatFree j \<Longrightarrow> json_ok j"
  by (induction j rule: json_ok.induct) auto


section \<open>The property\<close>

text \<open>
  C11: Whatever \<^verbatim>\<open>json::parse\<close> accepts, \<^verbatim>\<open>dump()\<close> can write: its strings are UTF-8
  even where they came from an escape or a pair of surrogates, so that a handler that passes a
  received value on never ends the server with the serializer's exception; and when no
  floating-point number is in it, the text written parses to the same value again.
\<close>

theorem parsed_values_dump:
  assumes "parseJson F s = Inr j"
  shows "\<exists>t. dumpJson F j = Inr t \<and> (floatFree j \<longrightarrow> parseJson F t = Inr j)"
proof -
  from parseJson_well [OF assms] have well: "wellJson j" .
  then obtain t where t: "dumpJson F j = Inr t" using well_dumps(1) by blast
  moreover have "parseJson F t = Inr j" if "floatFree j"
    using parse_dumped [OF well_json_ok [OF well that] t, of "[]"] by simp
  ultimately show ?thesis by blast
qed

text \<open>An escaped pair of surrogates becomes the four bytes of its code point.\<close>

theorem parsed_values_dump_witness:
  "\<exists>t. dumpJson plainFloats (JString [char_of (240::nat), char_of (159::nat), char_of (152::nat), char_of (128::nat)]) = Inr t"
proof -
  have "scanEscape (''ud83d'' @ [backslash] @ ''ude00'' @ [dquote]) =
      Some ([char_of (240::nat), char_of (159::nat), char_of (152::nat), char_of (128::nat)], [dquote])"
    by (simp add: scanEscape_def hexValue_def byte_def dquote_def backslash_def codepointBytes_def push_bit_eq_mult drop_bit_eq_div)
  then have "parseJson plainFloats ([dquote, backslash] @ ''ud83d'' @ [backslash] @ ''ude00'' @ [dquote]) =
      Inr (JString [char_of (240::nat), char_of (159::nat), char_of (152::nat), char_of (128::nat)])"
    by (simp add: parseJson_def skipBom_def scan_def isBlank_def byte_def dquote_def backslash_def parseValue.simps scalarValue_def)
  from parsed_values_dump [OF this] show ?thesis by blast
qed

end
