(* ===== verification/ChatBackend.thy ===== *)
theory ChatBackend
  imports JsonRound
begin

text \<open>
  What the chat server stands on: \<^verbatim>\<open>class MySQL\<close> (\<^verbatim>\<open>CHAT/src/server/db/db.cpp\<close>) and
  \<^verbatim>\<open>class Redis\<close> (\<^verbatim>\<open>CHAT/src/server/redis/redis.cpp\<close>) over the libraries
  \<^verbatim>\<open>libmysqlclient\<close> and \<^verbatim>\<open>hiredis\<close>. The libraries, the servers behind them and the connection
  objects of the external \<^verbatim>\<open>muduo\<close> are parameters: a record of functions that answer from the
  effects so far, which are kept in a log, the latest first. Log lines are left out.
\<close>

section \<open>Effects and parameters\<close>

text \<open>
  A connection object is named by a number. \<open>DbStatement\<close> is a \<^verbatim>\<open>mysql_query\<close> and whether it
  succeeded; \<open>RedisWrite\<close> a \<^verbatim>\<open>redisBufferWrite\<close> with the bytes it took, \<open>None\<close> for an error.
\<close>

datatype effect =
    DbConnect bool
  | DbStatement string bool
  | RedisConnect bool
  | RedisAppend string bool
  | RedisWrite "nat option"
  | RedisPublish int string bool
  | SendTo nat string
  | ShutdownConn nat

record backend =
  db_connect :: "effect list \<Rightarrow> bool"
  db_exec :: "effect list \<Rightarrow> string \<Rightarrow> bool"
  db_rows :: "effect list \<Rightarrow> (string option list) list option"
  db_insert_id :: "effect list \<Rightarrow> int"
  rd_connect :: "effect list \<Rightarrow> bool"
  rd_publish :: "effect list \<Rightarrow> int \<Rightarrow> string \<Rightarrow> bool"
  rd_append :: "effect list \<Rightarrow> string \<Rightarrow> bool"
  rd_write :: "effect list \<Rightarrow> nat option"
  rd_length :: "string \<Rightarrow> nat"
  um_order :: "(int \<times> nat) list \<Rightarrow> (int \<times> nat) list"
  be_floats :: float_ops

text \<open>
  The state of the server: the log, the entries of \<^verbatim>\<open>_userConnMap\<close>, and of \<^verbatim>\<open>class Redis\<close>
  whether its two contexts are there and whether the message handler is set.
\<close>

record chat =
  ch_log :: "effect list"
  ch_conns :: "(int \<times> nat) list"
  ch_pub :: bool
  ch_sub :: bool
  ch_notify :: bool

definition effect :: "effect \<Rightarrow> chat \<Rightarrow> chat" where
  "effect e w = w\<lparr>ch_log := e # ch_log w\<rparr>"

lemma effect_simps [simp]:
  "ch_log (effect e w) = e # ch_log w" "ch_conns (effect e w) = ch_conns w" "ch_pub (effect e w) = ch_pub w"
  "ch_sub (effect e w) = ch_sub w" "ch_notify (effect e w) = ch_notify w"
  by (simp_all add: effect_def)

text \<open>
  The result of a handler: \<open>None\<close> when it never returns, otherwise a fault (an exception, or
  undefined behaviour) or the value and the new state.
\<close>

type_synonym 'a run = "(fault + 'a) option"

definition bind_run :: "'a run \<Rightarrow> ('a \<Rightarrow> 'b run) \<Rightarrow> 'b run" where
  "bind_run r f = (case r of None \<Rightarrow> None | Some (Inl e) \<Rightarrow> Some (Inl e) | Some (Inr a) \<Rightarrow> f a)"

lemma bind_run_simps [simp, result_simps]:
  "bind_run None f = None"
  "bind_run (Some (Inl e)) f = Some (Inl e)"
  "bind_run (Some (Inr a)) f = f a"
  by (simp_all add: bind_run_def)

lemma bind_run_Inr_iff [result_simps]:
  "bind_run r f = Some (Inr b) \<longleftrightarrow> (\<exists>a. r = Some (Inr a) \<and> f a = Some (Inr b))"
  by (auto simp: bind_run_def split: option.splits sum.splits)

section \<open>C strings\<close>

text \<open>\<^verbatim>\<open>c_str()\<close> is read up to the first NUL.\<close>

definition cstr :: "string \<Rightarrow> string" where
  "cstr s = takeWhile (\<lambda>c. c \<noteq> CHR 0x00) s"

lemma length_cstr: "length (cstr s) \<le> length s"
  by (simp add: cstr_def length_takeWhile_le)

lemma cstr_id: "CHR 0x00 \<notin> set s \<Longrightarrow> cstr s = s"
  by (auto simp: cstr_def)

text \<open>Every model prints its statement into \<^verbatim>\<open>char sql[1024]\<close>, the closing zero included, unchecked.\<close>

definition sqlBuf :: nat where
  "sqlBuf = 1024"

definition sqlText :: "string \<Rightarrow> fault + string" where
  "sqlText s = (if length s < sqlBuf then Inr s else Inl OutOfBounds)"

text \<open>
  \<^verbatim>\<open>atoi\<close>: blanks, a sign, digits; 0 without a digit; a value outside \<^verbatim>\<open>int\<close> is undefined.
\<close>

definition isSpace :: "char \<Rightarrow> bool" where
  "isSpace c \<longleftrightarrow> c = CHR '' '' \<or> 9 \<le> byte c \<and> byte c \<le> 13"

definition signedDigits :: "string \<Rightarrow> bool \<times> string" where
  "signedDigits s =
     (case dropWhile isSpace s of
        [] \<Rightarrow> (False, [])
      | c # s' \<Rightarrow> (c = CHR ''-'', takeWhile isDigit (if c = CHR ''-'' \<or> c = CHR ''+'' then s' else c # s')))"

definition numeralValue :: "string \<Rightarrow> int" where
  "numeralValue s = (case signedDigits s of (neg, ds) \<Rightarrow> if neg then - int (readDecimal ds) else int (readDecimal ds))"

definition atoi :: "string \<Rightarrow> fault + int" where
  "atoi s = (if fitsInt (numeralValue s) then Inr (numeralValue s) else Inl SignedOverflow)"

section \<open>class MySQL\<close>

definition mysqlConnect :: "backend \<Rightarrow> chat \<Rightarrow> bool \<times> chat" where
  "mysqlConnect B w =
     (let ok = db_connect B (ch_log w);
          w = effect (DbConnect ok) w
      in if ok then (True, effect (DbStatement ''set names utf8'' (db_exec B (ch_log w) ''set names utf8'')) w)
         else (False, w))"

definition mysqlUpdate :: "backend \<Rightarrow> string \<Rightarrow> chat \<Rightarrow> bool \<times> chat" where
  "mysqlUpdate B sql w =
     (let ok = db_exec B (ch_log w) sql in (ok, effect (DbStatement sql ok) w))"

text \<open>\<open>None\<close> is a null result.\<close>

definition mysqlQuery :: "backend \<Rightarrow> string \<Rightarrow> chat \<Rightarrow> (string option list) list option \<times> chat" where
  "mysqlQuery B sql w =
     (let ok = db_exec B (ch_log w) sql;
          w = effect (DbStatement sql ok) w
      in (if ok then db_rows B (ch_log w) else None, w))"

text \<open>The pattern of the models: connect, and run one statement when that worked.\<close>

definition dbUpdate :: "backend \<Rightarrow> string \<Rightarrow> chat \<Rightarrow> bool \<times> chat" where
  "dbUpdate B sql w = (case mysqlConnect B w of (ok, w) \<Rightarrow> if ok then mysqlUpdate B sql w else (False, w))"

definition dbQuery :: "backend \<Rightarrow> string \<Rightarrow> chat \<Rightarrow> (string option list) list option \<times> chat" where
  "dbQuery B sql w = (case mysqlConnect B w of (ok, w) \<Rightarrow> if ok then mysqlQuery B sql w else (None, w))"

text \<open>
  A field of a row: \<^verbatim>\<open>std::string\<close> cannot be made from SQL's NULL, \<^verbatim>\<open>atoi\<close> cannot read it.
\<close>

definition fieldText :: "string option list \<Rightarrow> nat \<Rightarrow> fault + string" where
  "fieldText row i =
     (if i < length row then (case row ! i of None \<Rightarrow> Inl LogicError | Some s \<Rightarrow> Inr s) else Inl OutOfBounds)"

definition fieldInt :: "string option list \<Rightarrow> nat \<Rightarrow> fault + int" where
  "fieldInt row i =
     (if i < length row then (case row ! i of None \<Rightarrow> Inl NullDeref | Some s \<Rightarrow> atoi s) else Inl OutOfBounds)"

section \<open>class Redis\<close>

text \<open>\<^verbatim>\<open>redisConnect\<close> gives a context even when the server refused; the code only looks for null.\<close>

definition redisConnect :: "backend \<Rightarrow> chat \<Rightarrow> bool \<times> chat" where
  "redisConnect B w =
     (let pub = rd_connect B (ch_log w);
          w = effect (RedisConnect pub) (w\<lparr>ch_pub := pub\<rparr>)
      in if \<not> pub then (False, w)
         else let sub = rd_connect B (ch_log w);
                  w = effect (RedisConnect sub) (w\<lparr>ch_sub := sub\<rparr>)
              in (sub, w))"

definition init_notify_handler :: "chat \<Rightarrow> chat" where
  "init_notify_handler w = w\<lparr>ch_notify := True\<rparr>"

definition redisPublish :: "backend \<Rightarrow> int \<Rightarrow> string \<Rightarrow> chat \<Rightarrow> fault + (bool \<times> chat)" where
  "redisPublish B channel msg w =
     (if \<not> ch_pub w then Inl NullDeref
      else let ok = rd_publish B (ch_log w) channel (cstr msg)
           in Inr (ok, effect (RedisPublish channel (cstr msg) ok) w))"

text \<open>The bytes in the output buffer of the subscribing context.\<close>

fun pendingBytes :: "backend \<Rightarrow> effect list \<Rightarrow> nat" where
  "pendingBytes B [] = 0"
| "pendingBytes B (RedisAppend cmd ok # log) = pendingBytes B log + (if ok then rd_length B cmd else 0)"
| "pendingBytes B (RedisWrite (Some n) # log) = pendingBytes B log - n"
| "pendingBytes B (_ # log) = pendingBytes B log"

text \<open>
  The loop \<^verbatim>\<open>while(!done) redisBufferWrite(ctx, &done)\<close>; hiredis sets \<^verbatim>\<open>done\<close> when its buffer
  is empty. The value is \<open>None\<close> when the loop never ends.
\<close>

partial_function (option) redisFlush :: "backend \<Rightarrow> chat \<Rightarrow> (bool \<times> chat) option" where
  "redisFlush B w =
     (case rd_write B (ch_log w) of
        None \<Rightarrow> Some (False, effect (RedisWrite None) w)
      | Some n \<Rightarrow>
          let w' = effect (RedisWrite (Some n)) w
          in if pendingBytes B (ch_log w') = 0 then Some (True, w') else redisFlush B w')"

definition redisCommand :: "backend \<Rightarrow> string \<Rightarrow> chat \<Rightarrow> (bool \<times> chat) run" where
  "redisCommand B cmd w =
     (if \<not> ch_sub w then Some (Inl NullDeref)
      else let ok = rd_append B (ch_log w) cmd;
               w = effect (RedisAppend cmd ok) w
           in if ok then map_option Inr (redisFlush B w) else Some (Inr (False, w)))"

text \<open>\<^verbatim>\<open>%d\<close>.\<close>

definition redisSubscribe :: "backend \<Rightarrow> int \<Rightarrow> chat \<Rightarrow> (bool \<times> chat) run" where
  "redisSubscribe B channel w = redisCommand B (''SUBSCRIBE '' @ dumpInt channel) w"

definition redisUnsubscribe :: "backend \<Rightarrow> int \<Rightarrow> chat \<Rightarrow> (bool \<times> chat) run" where
  "redisUnsubscribe B channel w = redisCommand B (''UNSUBSCRIBE '' @ dumpInt channel) w"

text \<open>
  \<open>observer_channel_message\<close>, for the replies \<^verbatim>\<open>redisGetReply\<close> delivers until it fails. A reply
  is null or has elements, each with a string or without one; \<open>handler\<close> is the notification
  callback, which an empty \<^verbatim>\<open>std::function\<close> does not have.
\<close>

fun observer_channel_message :: "(int \<Rightarrow> string \<Rightarrow> chat \<Rightarrow> fault + chat) \<Rightarrow> string option list option list \<Rightarrow>
    chat \<Rightarrow> fault + chat" where
  "observer_channel_message handler [] w = Inr w"
| "observer_channel_message handler (reply # replies) w =
     bind_res
       (case reply of
          None \<Rightarrow> Inr w
        | Some el \<Rightarrow>
            if length el < 3 then Inl OutOfBounds
            else (case el ! 2 of
                    None \<Rightarrow> Inr w
                  | Some msg \<Rightarrow>
                      bind_res (fieldInt el 1) (\<lambda>channel.
                      if ch_notify w then handler channel (cstr msg) w else Inl BadFunctionCall)))
       (observer_channel_message handler replies)"

section \<open>Facts\<close>

text \<open>
  What hiredis promises of a blocking context: \<^verbatim>\<open>write(2)\<close> on a blocking socket takes at least
  a byte of what it is offered, or fails.
\<close>

definition write_progresses :: "backend \<Rightarrow> bool" where
  "write_progresses B \<longleftrightarrow> (\<forall>log. 0 < pendingBytes B log \<longrightarrow> rd_write B log \<noteq> Some 0)"

text \<open>The state after more bytes went to redis.\<close>

definition afterWrites :: "nat option list \<Rightarrow> chat \<Rightarrow> chat" where
  "afterWrites ws w = w\<lparr>ch_log := map RedisWrite ws @ ch_log w\<rparr>"

lemma afterWrites_simps [simp]:
  "ch_log (afterWrites ws w) = map RedisWrite ws @ ch_log w" "ch_conns (afterWrites ws w) = ch_conns w"
  "ch_pub (afterWrites ws w) = ch_pub w" "ch_sub (afterWrites ws w) = ch_sub w" "ch_notify (afterWrites ws w) = ch_notify w"
  by (simp_all add: afterWrites_def)

lemma effect_RedisWrite: "effect (RedisWrite n) w = afterWrites [n] w"
  by (simp add: effect_def afterWrites_def)

lemma afterWrites_append: "afterWrites ws (afterWrites vs w) = afterWrites (ws @ vs) w"
  by (simp add: afterWrites_def)

lemma redisFlush_returns:
  assumes "write_progresses B"
  shows "\<exists>ok ws. redisFlush B w = Some (ok, afterWrites ws w) \<and> (ok \<longrightarrow> pendingBytes B (map RedisWrite ws @ ch_log w) = 0)"
proof (induction "pendingBytes B (ch_log w)" arbitrary: w rule: less_induct)
  case less
  show ?case
  proof (cases "rd_write B (ch_log w)")
    case None
    then have "redisFlush B w = Some (False, afterWrites [None] w)"
      by (subst redisFlush.simps) (simp add: effect_RedisWrite)
    then show ?thesis by blast
  next
    case (Some n)
    let ?w = "afterWrites [Some n] w"
    show ?thesis
    proof (cases "pendingBytes B (ch_log ?w) = 0")
      case True
      with Some have "redisFlush B w = Some (True, afterWrites [Some n] w)"
        by (subst redisFlush.simps) (simp add: effect_RedisWrite Let_def)
      with True show ?thesis by (intro exI [of _ True] exI [of _ "[Some n]"]) simp
    next
      case False
      with assms Some have "0 < n" unfolding write_progresses_def
        by (metis afterWrites_simps(1) append_Cons append_Nil diff_zero gr0I list.map(1,2) pendingBytes.simps(3))
      with False have "pendingBytes B (ch_log ?w) < pendingBytes B (ch_log w)" by simp
      from less [OF this] obtain ok ws where ih: "redisFlush B ?w = Some (ok, afterWrites ws ?w)"
          "ok \<longrightarrow> pendingBytes B (map RedisWrite ws @ ch_log ?w) = 0" by blast
      with Some False have "redisFlush B w = Some (ok, afterWrites (ws @ [Some n]) w)"
        by (subst redisFlush.simps) (simp add: effect_RedisWrite Let_def afterWrites_append)
      with ih(2) show ?thesis by (intro exI [of _ ok] exI [of _ "ws @ [Some n]"]) simp
    qed
  qed
qed

text \<open>
  C31: SUBSCRIBE and UNSUBSCRIBE return: the loop around \<^verbatim>\<open>redisBufferWrite\<close> ends because every
  round sends at least a byte or fails, and they report success only when the whole command
  has been sent. With a null context, which is what is left when the connection to redis could
  not be made, they dereference it.
\<close>

theorem redis_command_returns:
  assumes "write_progresses B"
  shows "if ch_sub w
    then \<exists>ok ws. redisCommand B cmd w = Some (Inr (ok, afterWrites ws (effect (RedisAppend cmd (rd_append B (ch_log w) cmd)) w))) \<and>
      (ok \<longrightarrow> rd_append B (ch_log w) cmd \<and>
        pendingBytes B (map RedisWrite ws @ RedisAppend cmd True # ch_log w) = 0)
    else redisCommand B cmd w = Some (Inl NullDeref)"
proof -
  let ?w = "effect (RedisAppend cmd (rd_append B (ch_log w) cmd)) w"
  have none: "afterWrites [] ?w = ?w" by (simp add: afterWrites_def)
  consider "\<not> ch_sub w" | "ch_sub w" "\<not> rd_append B (ch_log w) cmd" | "ch_sub w" "rd_append B (ch_log w) cmd" by blast
  then show ?thesis
  proof cases
    case 1
    then show ?thesis by (simp add: redisCommand_def)
  next
    case 2
    then have "redisCommand B cmd w = Some (Inr (False, afterWrites [] ?w))"
      unfolding none by (simp add: redisCommand_def Let_def)
    then show ?thesis unfolding if_P [OF 2(1)] by blast
  next
    case 3
    from redisFlush_returns [OF assms, of ?w] 3 show ?thesis by (auto simp: redisCommand_def Let_def)
  qed
qed

text \<open>A backend for the examples: everything works, the database has no rows, redis takes three bytes at a time.\<close>

definition sampleBackend :: backend where
  "sampleBackend = \<lparr>db_connect = (\<lambda>log. True), db_exec = (\<lambda>log sql. True), db_rows = (\<lambda>log. Some []),
     db_insert_id = (\<lambda>log. 42), rd_connect = (\<lambda>log. True), rd_publish = (\<lambda>log c m. True),
     rd_append = (\<lambda>log c. True), rd_write = (\<lambda>log. Some 3), rd_length = length, um_order = (\<lambda>m. m),
     be_floats = plainFloats\<rparr>"

definition freshChat :: chat where
  "freshChat = \<lparr>ch_log = [], ch_conns = [], ch_pub = True, ch_sub = True, ch_notify = True\<rparr>"

lemma sampleBackend_progresses: "write_progresses sampleBackend"
  by (simp add: write_progresses_def sampleBackend_def)

theorem redis_command_returns_witness:
  "\<exists>ok w. redisSubscribe sampleBackend 7 freshChat = Some (Inr (ok, w))"
proof -
  have "ch_sub freshChat" by (simp add: freshChat_def)
  with redis_command_returns [OF sampleBackend_progresses, of freshChat "''SUBSCRIBE '' @ dumpInt 7"] show ?thesis
    unfolding redisSubscribe_def by (simp only: if_True) blast
qed

end
