(* ===== verification/ChatModel.thy ===== *)
theory ChatModel
  imports ChatBackend
begin

text \<open>
  The data and the table operations of the chat server: \<^verbatim>\<open>CHAT/include/server/model/user.hpp\<close>,
  \<^verbatim>\<open>group.hpp\<close>, \<^verbatim>\<open>groupuser.hpp\<close>, and the classes \<^verbatim>\<open>UserModel\<close>, \<^verbatim>\<open>FriendModel\<close>,
  \<^verbatim>\<open>GroupModel\<close> and \<^verbatim>\<open>OfflineMsgModel\<close> of \<^verbatim>\<open>CHAT/src/server/model\<close>. Each operation prints an
  SQL statement into a buffer of 1024 bytes, connects and runs it.
\<close>

section \<open>User and Group\<close>

record chat_user =
  us_id :: int
  us_name :: string
  us_pwd :: string
  us_state :: string

definition newUser :: chat_user where
  "newUser = \<lparr>us_id = -1, us_name = '''', us_pwd = '''', us_state = ''offline''\<rparr>"

text \<open>\<^verbatim>\<open>class GroupUser: public User\<close>.\<close>

record group_user = chat_user +
  gu_role :: string

definition newGroupUser :: group_user where
  "newGroupUser = \<lparr>us_id = -1, us_name = '''', us_pwd = '''', us_state = ''offline'', gu_role = ''''\<rparr>"

record group =
  gr_id :: int
  gr_name :: string
  gr_desc :: string
  gr_users :: "group_user list"

definition newGroup :: "int \<Rightarrow> string \<Rightarrow> string \<Rightarrow> group" where
  "newGroup i nm desc = \<lparr>gr_id = i, gr_name = nm, gr_desc = desc, gr_users = []\<rparr>"

section \<open>UserModel\<close>

definition insertUserSql :: "chat_user \<Rightarrow> string" where
  "insertUserSql u =
     ''insert into user(name,password,state) values('' @ [CHR 0x27] @ cstr (us_name u) @ [CHR 0x27] @ '','' @
     [CHR 0x27] @ cstr (us_pwd u) @ [CHR 0x27] @ '','' @ [CHR 0x27] @ cstr (us_state u) @ [CHR 0x27] @ '')''"

text \<open>The identifier is \<^verbatim>\<open>mysql_insert_id\<close>, cut to an \<^verbatim>\<open>int\<close>.\<close>

definition userInsert :: "backend \<Rightarrow> chat_user \<Rightarrow> chat \<Rightarrow> fault + (bool \<times> chat_user \<times> chat)" where
  "userInsert B u w =
     bind_res (sqlText (insertUserSql u)) (\<lambda>sql.
     case dbUpdate B sql w of (ok, w) \<Rightarrow>
       Inr (if ok then (True, u\<lparr>us_id := toInt32 (db_insert_id B (ch_log w))\<rparr>, w) else (False, u, w)))"

definition selectUserSql :: "int \<Rightarrow> string" where
  "selectUserSql i = ''select * from user where id = '' @ dumpInt i"

definition userOfRow :: "string option list \<Rightarrow> fault + chat_user" where
  "userOfRow row =
     bind_res (fieldInt row 0) (\<lambda>i.
     bind_res (fieldText row 1) (\<lambda>nm.
     bind_res (fieldText row 2) (\<lambda>pwd.
     bind_res (fieldText row 3) (\<lambda>st.
     Inr (newUser\<lparr>us_id := i, us_name := nm, us_pwd := pwd, us_state := st\<rparr>)))))"

definition userQuery :: "backend \<Rightarrow> int \<Rightarrow> chat \<Rightarrow> fault + (chat_user \<times> chat)" where
  "userQuery B i w =
     bind_res (sqlText (selectUserSql i)) (\<lambda>sql.
     case dbQuery B sql w of
       (Some (row # _), w) \<Rightarrow> bind_res (userOfRow row) (\<lambda>u. Inr (u, w))
     | (_, w) \<Rightarrow> Inr (newUser, w))"

definition updateStateSql :: "chat_user \<Rightarrow> string" where
  "updateStateSql u =
     ''update user set state = '' @ [CHR 0x27] @ cstr (us_state u) @ [CHR 0x27] @ '' where id = '' @ dumpInt (us_id u)"

definition userUpdateState :: "backend \<Rightarrow> chat_user \<Rightarrow> chat \<Rightarrow> fault + (bool \<times> chat)" where
  "userUpdateState B u w = bind_res (sqlText (updateStateSql u)) (\<lambda>sql. Inr (dbUpdate B sql w))"

definition resetStateSql :: string where
  "resetStateSql =
     ''update user set state = '' @ [CHR 0x27] @ ''offline'' @ [CHR 0x27] @ '' where state = '' @
     [CHR 0x27] @ ''online'' @ [CHR 0x27]"

definition userResetState :: "backend \<Rightarrow> chat \<Rightarrow> chat" where
  "userResetState B w = snd (dbUpdate B resetStateSql w)"

section \<open>FriendModel\<close>

definition insertFriendSql :: "int \<Rightarrow> int \<Rightarrow> string" where
  "insertFriendSql i j = ''insert into friend values('' @ dumpInt i @ '','' @ dumpInt j @ '')''"

definition friendInsert :: "backend \<Rightarrow> int \<Rightarrow> int \<Rightarrow> chat \<Rightarrow> fault + chat" where
  "friendInsert B i j w = bind_res (sqlText (insertFriendSql i j)) (\<lambda>sql. Inr (snd (dbUpdate B sql w)))"

definition selectFriendsSql :: "int \<Rightarrow> string" where
  "selectFriendsSql i =
     ''select a.id,a.name,a.state from  user a inner join friend b on b.friendid = a.id  where b.userid ='' @ dumpInt i"

text \<open>The loops over the rows of a result.\<close>

fun readRows :: "(string option list \<Rightarrow> fault + 'a) \<Rightarrow> string option list list \<Rightarrow> fault + 'a list" where
  "readRows f [] = Inr []"
| "readRows f (row # rows) = bind_res (f row) (\<lambda>a. bind_res (readRows f rows) (\<lambda>as. Inr (a # as)))"

definition friendOfRow :: "string option list \<Rightarrow> fault + chat_user" where
  "friendOfRow row =
     bind_res (fieldInt row 0) (\<lambda>i.
     bind_res (fieldText row 1) (\<lambda>nm.
     bind_res (fieldText row 2) (\<lambda>st.
     Inr (newUser\<lparr>us_id := i, us_name := nm, us_state := st\<rparr>))))"

text \<open>A query whose rows are read one by one; a null result counts as none.\<close>

definition readAll :: "(string option list \<Rightarrow> fault + 'a) \<Rightarrow> (string option list) list option \<times> chat \<Rightarrow>
    fault + ('a list \<times> chat)" where
  "readAll f r =
     (case r of (rows, w) \<Rightarrow> bind_res (readRows f (case rows of None \<Rightarrow> [] | Some rows \<Rightarrow> rows)) (\<lambda>as. Inr (as, w)))"

definition friendQuery :: "backend \<Rightarrow> int \<Rightarrow> chat \<Rightarrow> fault + (chat_user list \<times> chat)" where
  "friendQuery B i w = bind_res (sqlText (selectFriendsSql i)) (\<lambda>sql. readAll friendOfRow (dbQuery B sql w))"

section \<open>GroupModel\<close>

definition createGroupSql :: "group \<Rightarrow> string" where
  "createGroupSql g =
     ''insert into allgroup (groupname,groupdesc) values('' @ [CHR 0x27] @ cstr (gr_name g) @ [CHR 0x27] @ '','' @
     [CHR 0x27] @ cstr (gr_desc g) @ [CHR 0x27] @ '')''"

definition groupCreate :: "backend \<Rightarrow> group \<Rightarrow> chat \<Rightarrow> fault + (bool \<times> group \<times> chat)" where
  "groupCreate B g w =
     bind_res (sqlText (createGroupSql g)) (\<lambda>sql.
     case dbUpdate B sql w of (ok, w) \<Rightarrow>
       Inr (if ok then (True, g\<lparr>gr_id := toInt32 (db_insert_id B (ch_log w))\<rparr>, w) else (False, g, w)))"

definition addGroupSql :: "int \<Rightarrow> int \<Rightarrow> string \<Rightarrow> string" where
  "addGroupSql userid groupid role =
     ''insert into groupuser values('' @ dumpInt groupid @ '','' @ dumpInt userid @ '','' @
     [CHR 0x27] @ cstr role @ [CHR 0x27] @ '')''"

definition groupAdd :: "backend \<Rightarrow> int \<Rightarrow> int \<Rightarrow> string \<Rightarrow> chat \<Rightarrow> fault + chat" where
  "groupAdd B userid groupid role w =
     bind_res (sqlText (addGroupSql userid groupid role)) (\<lambda>sql. Inr (snd (dbUpdate B sql w)))"

text \<open>The line continuation in the string literals keeps the blanks of the next line.\<close>

definition selectGroupsSql :: "int \<Rightarrow> string" where
  "selectGroupsSql i =
     ''select a.id,a.groupname,a.groupdesc from allgroup a inner join '' @ replicate 12 (CHR '' '') @
     ''groupuser b on a.id=b.groupid where b.userid='' @ dumpInt i"

definition groupOfRow :: "string option list \<Rightarrow> fault + group" where
  "groupOfRow row =
     bind_res (fieldInt row 0) (\<lambda>i.
     bind_res (fieldText row 1) (\<lambda>nm.
     bind_res (fieldText row 2) (\<lambda>desc.
     Inr (newGroup i nm desc))))"

definition selectMembersSql :: "int \<Rightarrow> string" where
  "selectMembersSql g =
     ''select a.id,a.name,a.state,b.grouprole from user a inner join groupuser b '' @ replicate 8 (CHR '' '') @
     ''on a.id=b.userid where b.groupid='' @ dumpInt g"

definition memberOfRow :: "string option list \<Rightarrow> fault + group_user" where
  "memberOfRow row =
     bind_res (fieldInt row 0) (\<lambda>i.
     bind_res (fieldText row 1) (\<lambda>nm.
     bind_res (fieldText row 2) (\<lambda>st.
     bind_res (fieldText row 3) (\<lambda>role.
     Inr (newGroupUser\<lparr>us_id := i, us_name := nm, us_state := st, gu_role := role\<rparr>)))))"

text \<open>The second loop of \<open>queryGroups\<close>, on the connection of the first.\<close>

fun queryMembers :: "backend \<Rightarrow> group list \<Rightarrow> chat \<Rightarrow> fault + (group list \<times> chat)" where
  "queryMembers B [] w = Inr ([], w)"
| "queryMembers B (g # gs) w =
     bind_res (sqlText (selectMembersSql (gr_id g))) (\<lambda>sql.
     bind_res (readAll memberOfRow (mysqlQuery B sql w)) (\<lambda>(us, w).
     bind_res (queryMembers B gs w) (\<lambda>(gs, w).
     Inr (g\<lparr>gr_users := gr_users g @ us\<rparr> # gs, w))))"

definition groupQuery :: "backend \<Rightarrow> int \<Rightarrow> chat \<Rightarrow> fault + (group list \<times> chat)" where
  "groupQuery B i w =
     bind_res (sqlText (selectGroupsSql i)) (\<lambda>sql.
     bind_res (readAll groupOfRow (dbQuery B sql w)) (\<lambda>(gs, w).
     queryMembers B gs w))"

definition selectGroupUsersSql :: "int \<Rightarrow> int \<Rightarrow> string" where
  "selectGroupUsersSql userid groupid =
     ''select userid from groupuser where groupid = '' @ dumpInt groupid @ '' and userid != '' @ dumpInt userid"

definition groupQueryUsers :: "backend \<Rightarrow> int \<Rightarrow> int \<Rightarrow> chat \<Rightarrow> fault + (int list \<times> chat)" where
  "groupQueryUsers B userid groupid w =
     bind_res (sqlText (selectGroupUsersSql userid groupid)) (\<lambda>sql. readAll (\<lambda>row. fieldInt row 0) (dbQuery B sql w))"

section \<open>OfflineMsgModel\<close>

definition insertOfflineSql :: "int \<Rightarrow> string \<Rightarrow> string" where
  "insertOfflineSql i msg =
     ''insert into offlinemessage values('' @ dumpInt i @ '','' @ [CHR 0x27] @ cstr msg @ [CHR 0x27] @ '')''"

definition offlineInsert :: "backend \<Rightarrow> int \<Rightarrow> string \<Rightarrow> chat \<Rightarrow> fault + chat" where
  "offlineInsert B i msg w = bind_res (sqlText (insertOfflineSql i msg)) (\<lambda>sql. Inr (snd (dbUpdate B sql w)))"

definition deleteOfflineSql :: "int \<Rightarrow> string" where
  "deleteOfflineSql i = ''delete from offlinemessage where userid='' @ dumpInt i"

definition offlineRemove :: "backend \<Rightarrow> int \<Rightarrow> chat \<Rightarrow> fault + chat" where
  "offlineRemove B i w = bind_res (sqlText (deleteOfflineSql i)) (\<lambda>sql. Inr (snd (dbUpdate B sql w)))"

definition selectOfflineSql :: "int \<Rightarrow> string" where
  "selectOfflineSql i = ''select message from  offlinemessage where userid ='' @ dumpInt i"

definition offlineQuery :: "backend \<Rightarrow> int \<Rightarrow> chat \<Rightarrow> fault + (string list \<times> chat)" where
  "offlineQuery B i w =
     bind_res (sqlText (selectOfflineSql i)) (\<lambda>sql. readAll (\<lambda>row. fieldText row 0) (dbQuery B sql w))"

end
