(* ===== verification/ChatService.thy ===== *)
theory ChatService
  imports ChatModel
begin

text \<open>
  \<^verbatim>\<open>class ChatService\<close> of \<^verbatim>\<open>CHAT/src/server/chatservice.cpp\<close>, \<^verbatim>\<open>class ChatServer\<close> of
  \<^verbatim>\<open>chatserver.cpp\<close> and \<^verbatim>\<open>main.cpp\<close>: the handlers of the messages of \<^verbatim>\<open>public.hpp\<close>. A handler
  takes the connection, the parsed message and the state. The theory follows one handler at a
  time; the locking of \<^verbatim>\<open>_userConnMap\<close> is the subject of the theory on the connection map.
\<close>

section \<open>The messages\<close>

definition LOGIN_MSG :: int where "LOGIN_MSG = 1"
definition LOGIN_MSG_ACK :: int where "LOGIN_MSG_ACK = 2"
definition LOGINOUT_MSG :: int where "LOGINOUT_MSG = 3"
definition REG_MSG :: int where "REG_MSG = 4"
definition REG_MSG_ACK :: int where "REG_MSG_ACK = 5"
definition ONE_CHAT_MSG :: int where "ONE_CHAT_MSG = 6"
definition ADD_FRIEND_MSG :: int where "ADD_FRIEND_MSG = 7"
definition CREATE_GROUP_MSG :: int where "CREATE_GROUP_MSG = 8"
definition ADD_GROUP_MSG :: int where "ADD_GROUP_MSG = 9"
definition GROUP_CHAT_MSG :: int where "GROUP_CHAT_MSG = 10"

lemmas msg_ids = LOGIN_MSG_def LOGIN_MSG_ACK_def LOGINOUT_MSG_def REG_MSG_def REG_MSG_ACK_def
  ONE_CHAT_MSG_def ADD_FRIEND_MSG_def CREATE_GROUP_MSG_def ADD_GROUP_MSG_def GROUP_CHAT_MSG_def

section \<open>Helpers\<close>

text \<open>\<^verbatim>\<open>js[k].get<int>()\<close> and \<^verbatim>\<open>string s = js[k]\<close>.\<close>

definition getInt :: "backend \<Rightarrow> json \<Rightarrow> string \<Rightarrow> fault + int" where
  "getInt B js k = bind_res (jsonAt js k) (jsonInt (be_floats B))"

definition getStr :: "json \<Rightarrow> string \<Rightarrow> fault + string" where
  "getStr js k = bind_res (jsonAt js k) jsonStr"

text \<open>\<^verbatim>\<open>_userConnMap\<close>: \<^verbatim>\<open>insert\<close> keeps an entry that is there.\<close>

definition umFind :: "int \<Rightarrow> (int \<times> nat) list \<Rightarrow> nat option" where
  "umFind k m = map_of m k"

definition umInsert :: "int \<Rightarrow> nat \<Rightarrow> (int \<times> nat) list \<Rightarrow> (int \<times> nat) list" where
  "umInsert k c m = (if umFind k m = None then (k, c) # m else m)"

definition umErase :: "int \<Rightarrow> (int \<times> nat) list \<Rightarrow> (int \<times> nat) list" where
  "umErase k m = filter (\<lambda>(k', c). k' \<noteq> k) m"

text \<open>\<^verbatim>\<open>conn->send(js.dump())\<close>.\<close>

definition sendJson :: "backend \<Rightarrow> nat \<Rightarrow> json \<Rightarrow> chat \<Rightarrow> fault + chat" where
  "sendJson B conn js w = bind_res (dumpJson (be_floats B) js) (\<lambda>s. Inr (effect (SendTo conn s) w))"

fun dumpAll :: "backend \<Rightarrow> json list \<Rightarrow> fault + string list" where
  "dumpAll B [] = Inr []"
| "dumpAll B (j # js) =
     bind_res (dumpJson (be_floats B) j) (\<lambda>s. bind_res (dumpAll B js) (\<lambda>ss. Inr (s # ss)))"

definition jsonStrings :: "string list \<Rightarrow> json" where
  "jsonStrings ss = JArray (map JString ss)"

section \<open>login\<close>

definition loginAck :: "int \<Rightarrow> json" where
  "loginAck errno = jsonSet ''errno'' (JInt errno) (jsonSet ''msgid'' (JInt LOGIN_MSG_ACK) JNull)"

definition loginUsed :: json where
  "loginUsed = jsonSet ''errmsg'' (JString ''This account is using,please input another one!'') (loginAck 2)"

definition loginWrong :: json where
  "loginWrong = jsonSet ''errmsg'' (JString ''Id or password is wrong! '') (loginAck 1)"

definition userJson :: "chat_user \<Rightarrow> json" where
  "userJson u =
     jsonSet ''state'' (JString (us_state u)) (jsonSet ''name'' (JString (us_name u)) (jsonSet ''id'' (JInt (us_id u)) JNull))"

definition memberJson :: "group_user \<Rightarrow> json" where
  "memberJson u =
     jsonSet ''role'' (JString (gu_role u))
       (jsonSet ''state'' (JString (us_state u)) (jsonSet ''name'' (JString (us_name u)) (jsonSet ''id'' (JInt (us_id u)) JNull)))"

definition groupJson :: "backend \<Rightarrow> group \<Rightarrow> fault + json" where
  "groupJson B g =
     bind_res (dumpAll B (map memberJson (gr_users g))) (\<lambda>us.
     Inr (jsonSet ''users'' (jsonStrings us)
       (jsonSet ''groupdesc'' (JString (gr_desc g))
         (jsonSet ''groupname'' (JString (gr_name g)) (jsonSet ''id'' (JInt (gr_id g)) JNull)))))"

fun groupsJson :: "backend \<Rightarrow> group list \<Rightarrow> fault + json list" where
  "groupsJson B [] = Inr []"
| "groupsJson B (g # gs) = bind_res (groupJson B g) (\<lambda>j. bind_res (groupsJson B gs) (\<lambda>js. Inr (j # js)))"

text \<open>The part after the state has been set: the response with messages, friends and groups.\<close>

definition loginResponse :: "backend \<Rightarrow> chat_user \<Rightarrow> chat \<Rightarrow> fault + (json \<times> chat)" where
  "loginResponse B u w =
     (let r = jsonSet ''name'' (JString (us_name u)) (jsonSet ''id'' (JInt (us_id u)) (loginAck 0))
      in bind_res (offlineQuery B (us_id u) w) (\<lambda>(vec, w).
         bind_res (if vec = [] then Inr (r, w)
                   else bind_res (offlineRemove B (us_id u) w) (\<lambda>w. Inr (jsonSet ''offlinemsg'' (jsonStrings vec) r, w)))
           (\<lambda>(r, w).
         bind_res (friendQuery B (us_id u) w) (\<lambda>(friends, w).
         bind_res (if friends = [] then Inr r
                   else bind_res (dumpAll B (map userJson friends)) (\<lambda>vec2. Inr (jsonSet ''friends'' (jsonStrings vec2) r)))
           (\<lambda>r.
         bind_res (groupQuery B (us_id u) w) (\<lambda>(groups, w).
         bind_res (if groups = [] then Inr r
                   else bind_res (groupsJson B groups) (\<lambda>gjs.
                        bind_res (dumpAll B gjs) (\<lambda>groupV. Inr (jsonSet ''groups'' (jsonStrings groupV) r))))
           (\<lambda>r.
         Inr (r, w))))))))"

definition login :: "backend \<Rightarrow> nat \<Rightarrow> json \<Rightarrow> chat \<Rightarrow> chat run" where
  "login B conn js w =
     bind_run (Some (getInt B js ''id'')) (\<lambda>i.
     bind_run (Some (getStr js ''password'')) (\<lambda>pwd.
     bind_run (Some (userQuery B i w)) (\<lambda>(u, w).
     if us_id u = i \<and> us_pwd u = pwd
     then if us_state u = ''online'' then Some (sendJson B conn loginUsed w)
          else let w = w\<lparr>ch_conns := umInsert i conn (ch_conns w)\<rparr>
               in bind_run (redisSubscribe B i w) (\<lambda>(ok, w).
                  let u = u\<lparr>us_state := ''online''\<rparr>
                  in bind_run (Some (userUpdateState B u w)) (\<lambda>(ok, w).
                     bind_run (Some (loginResponse B u w)) (\<lambda>(r, w).
                     Some (sendJson B conn r w))))
     else Some (sendJson B conn loginWrong w))))"

section \<open>The other handlers\<close>

definition regAck :: "int \<Rightarrow> json" where
  "regAck errno = jsonSet ''errno'' (JInt errno) (jsonSet ''msgid'' (JInt REG_MSG_ACK) JNull)"

definition reg :: "backend \<Rightarrow> nat \<Rightarrow> json \<Rightarrow> chat \<Rightarrow> chat run" where
  "reg B conn js w =
     bind_run (Some (getStr js ''name'')) (\<lambda>nm.
     bind_run (Some (getStr js ''password'')) (\<lambda>pwd.
     bind_run (Some (userInsert B (newUser\<lparr>us_name := nm, us_pwd := pwd\<rparr>) w)) (\<lambda>(ok, u, w).
     if ok then Some (sendJson B conn (jsonSet ''id'' (JInt (us_id u)) (regAck 0)) w)
     else Some (sendJson B conn (regAck 1) w))))"

definition loginout :: "backend \<Rightarrow> nat \<Rightarrow> json \<Rightarrow> chat \<Rightarrow> chat run" where
  "loginout B conn js w =
     bind_run (Some (getInt B js ''id'')) (\<lambda>i.
     let w = w\<lparr>ch_conns := umErase i (ch_conns w)\<rparr>
     in bind_run (redisUnsubscribe B i w) (\<lambda>(ok, w).
        bind_run (Some (userUpdateState B (newUser\<lparr>us_id := i\<rparr>) w)) (\<lambda>(ok, w).
        Some (Inr w))))"

text \<open>What becomes of a message for a user: sent here, published for another server, or stored.\<close>

definition forward :: "backend \<Rightarrow> int \<Rightarrow> json \<Rightarrow> chat \<Rightarrow> fault + chat" where
  "forward B i js w =
     (case umFind i (ch_conns w) of
        Some c \<Rightarrow> sendJson B c js w
      | None \<Rightarrow>
          bind_res (userQuery B i w) (\<lambda>(u, w).
          bind_res (dumpJson (be_floats B) js) (\<lambda>s.
          if us_state u = ''online'' then bind_res (redisPublish B i s w) (\<lambda>(ok, w). Inr w)
          else offlineInsert B i s w)))"

definition oneChat :: "backend \<Rightarrow> nat \<Rightarrow> json \<Rightarrow> chat \<Rightarrow> chat run" where
  "oneChat B conn js w = bind_run (Some (getInt B js ''to'')) (\<lambda>i. Some (forward B i js w))"

definition addFriend :: "backend \<Rightarrow> nat \<Rightarrow> json \<Rightarrow> chat \<Rightarrow> chat run" where
  "addFriend B conn js w =
     bind_run (Some (getInt B js ''id'')) (\<lambda>i.
     bind_run (Some (getInt B js ''friendid'')) (\<lambda>j.
     Some (friendInsert B i j w)))"

definition creatGroup :: "backend \<Rightarrow> nat \<Rightarrow> json \<Rightarrow> chat \<Rightarrow> chat run" where
  "creatGroup B conn js w =
     bind_run (Some (getInt B js ''id'')) (\<lambda>i.
     bind_run (Some (getStr js ''groupname'')) (\<lambda>nm.
     bind_run (Some (getStr js ''groupdesc'')) (\<lambda>desc.
     bind_run (Some (groupCreate B (newGroup (-1) nm desc) w)) (\<lambda>(ok, g, w).
     if ok then Some (groupAdd B i (gr_id g) ''creator'' w) else Some (Inr w)))))"

definition addGroup :: "backend \<Rightarrow> nat \<Rightarrow> json \<Rightarrow> chat \<Rightarrow> chat run" where
  "addGroup B conn js w =
     bind_run (Some (getInt B js ''id'')) (\<lambda>i.
     bind_run (Some (getInt B js ''groupid'')) (\<lambda>g.
     Some (groupAdd B i g ''normal'' w)))"

fun forwardAll :: "backend \<Rightarrow> int list \<Rightarrow> json \<Rightarrow> chat \<Rightarrow> fault + chat" where
  "forwardAll B [] js w = Inr w"
| "forwardAll B (i # is) js w = bind_res (forward B i js w) (forwardAll B is js)"

definition groupChat :: "backend \<Rightarrow> nat \<Rightarrow> json \<Rightarrow> chat \<Rightarrow> chat run" where
  "groupChat B conn js w =
     bind_run (Some (getInt B js ''id'')) (\<lambda>i.
     bind_run (Some (getInt B js ''groupid'')) (\<lambda>g.
     bind_run (Some (groupQueryUsers B i g w)) (\<lambda>(is, w).
     Some (forwardAll B is js w))))"

text \<open>The loop over the map stops at the first entry of the connection, in the map's own order.\<close>

definition clientCloseException :: "backend \<Rightarrow> nat \<Rightarrow> chat \<Rightarrow> chat run" where
  "clientCloseException B conn w =
     (let i = (case List.find (\<lambda>(k, c). c = conn) (um_order B (ch_conns w)) of None \<Rightarrow> -1 | Some (k, c) \<Rightarrow> k);
          w = (case List.find (\<lambda>(k, c). c = conn) (um_order B (ch_conns w)) of
                 None \<Rightarrow> w | Some (k, c) \<Rightarrow> w\<lparr>ch_conns := umErase k (ch_conns w)\<rparr>)
      in bind_run (redisUnsubscribe B i w) (\<lambda>(ok, w).
         if i \<noteq> -1
         then bind_run (Some (userUpdateState B (newUser\<lparr>us_id := i, us_state := ''offline''\<rparr>) w)) (\<lambda>(ok, w). Some (Inr w))
         else Some (Inr w)))"

definition serviceReset :: "backend \<Rightarrow> chat \<Rightarrow> chat" where
  "serviceReset B w = userResetState B w"

definition handlerRedisSubscribeMessage :: "backend \<Rightarrow> int \<Rightarrow> string \<Rightarrow> chat \<Rightarrow> fault + chat" where
  "handlerRedisSubscribeMessage B userid msg w =
     (case umFind userid (ch_conns w) of
        Some c \<Rightarrow> Inr (effect (SendTo c msg) w)
      | None \<Rightarrow> offlineInsert B userid msg w)"

section \<open>The table of handlers\<close>

type_synonym msg_handler = "nat \<Rightarrow> json \<Rightarrow> chat \<Rightarrow> chat run"

definition msgHandlerMap :: "backend \<Rightarrow> (int \<times> msg_handler) list" where
  "msgHandlerMap B =
     [(LOGIN_MSG, login B), (REG_MSG, reg B), (ONE_CHAT_MSG, oneChat B), (ADD_FRIEND_MSG, addFriend B),
      (CREATE_GROUP_MSG, creatGroup B), (ADD_GROUP_MSG, addGroup B), (GROUP_CHAT_MSG, groupChat B),
      (LOGINOUT_MSG, loginout B)]"

text \<open>The constructor: the handlers are in \<open>msgHandlerMap\<close>; redis is connected, then its handler set.\<close>

definition newChatService :: "backend \<Rightarrow> chat" where
  "newChatService B =
     (case redisConnect B \<lparr>ch_log = [], ch_conns = [], ch_pub = False, ch_sub = False, ch_notify = False\<rparr> of
        (ok, w) \<Rightarrow> if ok then init_notify_handler w else w)"

definition getHandler :: "backend \<Rightarrow> int \<Rightarrow> msg_handler" where
  "getHandler B msgid =
     (case map_of (msgHandlerMap B) msgid of
        None \<Rightarrow> (\<lambda>conn js w. Some (Inr w))
      | Some h \<Rightarrow> h)"

section \<open>class ChatServer\<close>

definition serverOnConnection :: "backend \<Rightarrow> bool \<Rightarrow> nat \<Rightarrow> chat \<Rightarrow> chat run" where
  "serverOnConnection B connected conn w =
     (if \<not> connected
      then bind_run (clientCloseException B conn w) (\<lambda>w. Some (Inr (effect (ShutdownConn conn) w)))
      else Some (Inr w))"

text \<open>\<open>buf\<close> is what \<^verbatim>\<open>buffer->retrieveAllAsString()\<close> returned.\<close>

definition serverOnMessage :: "backend \<Rightarrow> nat \<Rightarrow> string \<Rightarrow> chat \<Rightarrow> chat run" where
  "serverOnMessage B conn buf w =
     bind_run (Some (parseJson (be_floats B) buf)) (\<lambda>js.
     bind_run (Some (getInt B js ''msgid'')) (\<lambda>msgid.
     getHandler B msgid conn js w))"

section \<open>main\<close>

text \<open>\<open>resetHandler\<close>, on SIGINT, resets the states and exits.\<close>

definition resetHandler :: "backend \<Rightarrow> chat \<Rightarrow> chat" where
  "resetHandler B w = serviceReset B w"

text \<open>The arguments of \<open>main\<close>: the address and the 16-bit port to listen on.\<close>

definition serverMain :: "string list \<Rightarrow> fault + (string \<times> 16 word)" where
  "serverMain argv =
     (if length argv < 3 then Inl ExitFailure
      else bind_res (atoi (argv ! 2)) (\<lambda>port. Inr (argv ! 1, word_of_int port)))"

end
