(* ===== verification/ChatDelivery.thy ===== *)
theory ChatDelivery
  imports ChatService
begin

text \<open>
  What becomes of a chat message. The interface the group chat rests on is stated as a locale:
  a delivery that hands a message over exactly once per call; its client, delivering to a list
  of users, is proved inside it. \<open>forward\<close>, the code's own delivery, provides it.
\<close>

section \<open>The interface\<close>

fun deliverAll :: "('k \<Rightarrow> 'w \<Rightarrow> fault + 'w) \<Rightarrow> 'k list \<Rightarrow> 'w \<Rightarrow> fault + 'w" where
  "deliverAll deliver [] w = Inr w"
| "deliverAll deliver (k # ks) w = bind_res (deliver k w) (deliverAll deliver ks)"

locale single_delivery =
  fixes ready :: "'w \<Rightarrow> bool"
    and deliver :: "'k \<Rightarrow> 'w \<Rightarrow> fault + 'w"
    and trace :: "'w \<Rightarrow> 'e list"
    and for_user :: "'w \<Rightarrow> 'k \<Rightarrow> 'e \<Rightarrow> bool"
  assumes deliver_law: "ready w \<Longrightarrow> deliver k w = Inr w' \<Longrightarrow>
      \<exists>e. trace w' = trace w @ [e] \<and> for_user w k e \<and> ready w' \<and> for_user w' = for_user w"
begin

lemma deliverAll_each_once:
  "ready w \<Longrightarrow> deliverAll deliver ks w = Inr w' \<Longrightarrow>
     \<exists>es. trace w' = trace w @ es \<and> list_all2 (for_user w) ks es \<and> ready w'"
proof (induction ks arbitrary: w)
  case Nil
  then show ?case by simp
next
  case (Cons k ks)
  from Cons.prems(2) obtain w1 where w1: "deliver k w = Inr w1" "deliverAll deliver ks w1 = Inr w'"
    by (auto simp: bind_res_Inr_iff)
  from deliver_law [OF Cons.prems(1) w1(1)] obtain e where
    e: "trace w1 = trace w @ [e]" "for_user w k e" "ready w1" "for_user w1 = for_user w" by blast
  from Cons.IH [OF e(3) w1(2)] obtain es where "trace w' = trace w1 @ es" "list_all2 (for_user w1) ks es" "ready w'" by blast
  with e show ?case by (intro exI [of _ "e # es"]) simp
qed

lemma deliverAll_count:
  "ready w \<Longrightarrow> deliverAll deliver ks w = Inr w' \<Longrightarrow> length (trace w') = length (trace w) + length ks"
  using deliverAll_each_once by (fastforce dest: list_all2_lengthD)

end

section \<open>The log of deliveries\<close>

text \<open>The ways out of the server: to a connection, to redis, into the table of offline messages.\<close>

definition offlinePrefix :: string where
  "offlinePrefix = ''insert into offlinemessage ''"

definition isDelivery :: "effect \<Rightarrow> bool" where
  "isDelivery e =
     (case e of
        SendTo c s \<Rightarrow> True
      | RedisPublish i s ok \<Rightarrow> True
      | DbStatement q ok \<Rightarrow> take 27 q = offlinePrefix
      | _ \<Rightarrow> False)"

definition deliveries :: "effect list \<Rightarrow> effect list" where
  "deliveries log = filter isDelivery (rev log)"

lemma deliveries_append: "deliveries (es @ log) = deliveries log @ deliveries es"
  by (simp add: deliveries_def)

lemma deliveries_Cons: "deliveries (e # log) = deliveries log @ (if isDelivery e then [e] else [])"
  by (simp add: deliveries_def)

text \<open>An effect that hands the text \<open>s\<close> to user \<open>i\<close>, given who is connected here.\<close>

definition handsOver :: "(int \<times> nat) list \<Rightarrow> string \<Rightarrow> int \<Rightarrow> effect \<Rightarrow> bool" where
  "handsOver conns s i e =
     (case umFind i conns of
        Some c \<Rightarrow> e = SendTo c s
      | None \<Rightarrow> (\<exists>ok. e = RedisPublish i (cstr s) ok) \<or> (\<exists>ok. e = DbStatement (insertOfflineSql i s) ok))"

text \<open>The database can be reached.\<close>

definition db_reachable :: "backend \<Rightarrow> bool" where
  "db_reachable B \<longleftrightarrow> (\<forall>log. db_connect B log)"

section \<open>The models leave the rest of the state alone\<close>

text \<open>\<open>logged es w\<close> is the state \<open>w\<close> with the effects \<open>es\<close> added.\<close>

definition logged :: "effect list \<Rightarrow> chat \<Rightarrow> chat" where
  "logged es w = w\<lparr>ch_log := es @ ch_log w\<rparr>"

lemma logged_simps [simp]:
  "ch_log (logged es w) = es @ ch_log w" "ch_conns (logged es w) = ch_conns w" "ch_pub (logged es w) = ch_pub w"
  "ch_sub (logged es w) = ch_sub w" "ch_notify (logged es w) = ch_notify w"
  by (simp_all add: logged_def)

lemma logged_logged: "logged es (logged fs w) = logged (es @ fs) w"
  by (simp add: logged_def)

lemma effect_logged: "effect e w = logged [e] w"
  by (simp add: effect_def logged_def)

lemma afterWrites_logged: "afterWrites ws w = logged (map RedisWrite ws) w"
  by (simp add: afterWrites_def logged_def)

lemmas to_logged = effect_logged afterWrites_logged logged_logged

text \<open>The statements a connection runs when it is opened.\<close>

lemma mysqlConnect_logged:
  "fst (mysqlConnect B w) = db_connect B (ch_log w)"
  "\<exists>es. snd (mysqlConnect B w) = logged es w \<and> deliveries es = []"
proof -
  have d: "\<not> isDelivery (DbConnect b)" "\<not> isDelivery (DbStatement ''set names utf8'' ok)" for b ok
    by (simp_all add: isDelivery_def offlinePrefix_def)
  show "fst (mysqlConnect B w) = db_connect B (ch_log w)" by (simp add: mysqlConnect_def Let_def)
  show "\<exists>es. snd (mysqlConnect B w) = logged es w \<and> deliveries es = []"
  proof (cases "db_connect B (ch_log w)")
    case True
    then have "\<exists>ok. snd (mysqlConnect B w) = logged [DbStatement ''set names utf8'' ok, DbConnect True] w"
      by (auto simp: mysqlConnect_def Let_def to_logged)
    moreover have "deliveries [DbStatement ''set names utf8'' ok, DbConnect True] = []" for ok
      using d by (simp add: deliveries_def)
    ultimately show ?thesis by blast
  next
    case False
    then have "snd (mysqlConnect B w) = logged [DbConnect False] w" by (simp add: mysqlConnect_def Let_def to_logged)
    moreover have "deliveries [DbConnect False] = []" using d by (simp add: deliveries_def)
    ultimately show ?thesis by blast
  qed
qed

lemma dbUpdate_logged:
  "\<exists>es. snd (dbUpdate B sql w) = logged es w \<and>
     (if db_connect B (ch_log w)
      then \<exists>fs. es = DbStatement sql (db_exec B (fs @ ch_log w) sql) # fs \<and> deliveries fs = [] else deliveries es = [])"
proof -
  from mysqlConnect_logged(2) [of B w] obtain es where c: "snd (mysqlConnect B w) = logged es w" "deliveries es = []" by blast
  show ?thesis
  proof (cases "db_connect B (ch_log w)")
    case True
    with mysqlConnect_logged(1) [of B w] c have "mysqlConnect B w = (True, logged es w)" by (simp add: prod_eq_iff)
    then have "snd (dbUpdate B sql w) = logged (DbStatement sql (db_exec B (es @ ch_log w) sql) # es) w"
      by (simp add: dbUpdate_def mysqlUpdate_def Let_def to_logged)
    with True c(2) show ?thesis by auto
  next
    case False
    with mysqlConnect_logged(1) [of B w] c have "mysqlConnect B w = (False, logged es w)" by (simp add: prod_eq_iff)
    then have "snd (dbUpdate B sql w) = logged es w" by (simp add: dbUpdate_def)
    with False c(2) show ?thesis by auto
  qed
qed

lemma dbQuery_logged:
  assumes "take 27 sql \<noteq> offlinePrefix"
  shows "\<exists>es. snd (dbQuery B sql w) = logged es w \<and> deliveries es = []"
proof -
  from mysqlConnect_logged(2) [of B w] obtain es where c: "snd (mysqlConnect B w) = logged es w" "deliveries es = []" by blast
  then obtain ok where m: "mysqlConnect B w = (ok, logged es w)" by (cases "mysqlConnect B w") auto
  have d: "deliveries (DbStatement sql ok' # es) = []" for ok'
    using assms c(2) by (simp add: deliveries_Cons isDelivery_def)
  have "snd (dbQuery B sql w) = logged es w \<or> (\<exists>ok'. snd (dbQuery B sql w) = logged (DbStatement sql ok' # es) w)"
    by (cases ok) (auto simp: dbQuery_def m mysqlQuery_def Let_def to_logged)
  with c(2) d show ?thesis by blast
qed

lemma sqlText_Inr: "sqlText q = Inr sql \<longleftrightarrow> sql = q \<and> length q < 1024"
  by (auto simp: sqlText_def sqlBuf_def)

lemma userQuery_snd: "userQuery B i w = Inr (u, w') \<Longrightarrow> w' = snd (dbQuery B (selectUserSql i) w)"
  by (cases "dbQuery B (selectUserSql i) w")
    (auto simp: userQuery_def bind_res_Inr_iff sqlText_Inr split: option.splits list.splits)

lemma userQuery_logged:
  assumes "userQuery B i w = Inr (u, w')"
  shows "\<exists>es. w' = logged es w \<and> deliveries es = []"
proof -
  have "take 27 (selectUserSql i) \<noteq> offlinePrefix" by (simp add: selectUserSql_def offlinePrefix_def)
  from dbQuery_logged [OF this, of B w] userQuery_snd [OF assms] show ?thesis by simp
qed

section \<open>forward hands over once\<close>

lemma offlineInsert_logged:
  assumes "offlineInsert B i s w = Inr w'" "db_connect B (ch_log w)"
  shows "\<exists>fs. w' = logged (DbStatement (insertOfflineSql i s) (db_exec B (fs @ ch_log w) (insertOfflineSql i s)) # fs) w \<and>
    deliveries fs = []"
proof -
  from assms(1) have "w' = snd (dbUpdate B (insertOfflineSql i s) w)"
    by (auto simp: offlineInsert_def bind_res_Inr_iff sqlText_Inr)
  with assms(2) dbUpdate_logged [of B "insertOfflineSql i s" w] show ?thesis by auto
qed

lemma insert_delivers: "isDelivery (DbStatement (insertOfflineSql i s) ok)"
  by (simp add: isDelivery_def insertOfflineSql_def offlinePrefix_def)

text \<open>
  The three ways a message goes, exactly: what is added to the log, with the answer of redis or of
  the database, which the code does not look at.
\<close>

definition routed :: "backend \<Rightarrow> int \<Rightarrow> string \<Rightarrow> chat \<Rightarrow> effect list \<Rightarrow> bool" where
  "routed B i s w es \<longleftrightarrow>
     (case umFind i (ch_conns w) of
        Some c \<Rightarrow> es = [SendTo c s]
      | None \<Rightarrow>
          \<exists>u fs. userQuery B i w = Inr (u, logged fs w) \<and> deliveries fs = [] \<and>
            (if us_state u = ''online'' then es = RedisPublish i (cstr s) (rd_publish B (fs @ ch_log w) i (cstr s)) # fs
             else \<exists>gs. deliveries gs = [] \<and>
               es = DbStatement (insertOfflineSql i s) (db_exec B (gs @ fs @ ch_log w) (insertOfflineSql i s)) # gs @ fs))"

lemma forward_routed:
  assumes "db_reachable B" "dumpJson (be_floats B) js = Inr s" "forward B i js w = Inr w'"
  shows "\<exists>es. w' = logged es w \<and> routed B i s w es"
proof (cases "umFind i (ch_conns w)")
  case (Some c)
  with assms show ?thesis by (auto simp: forward_def sendJson_def to_logged routed_def)
next
  case None
  with assms obtain u w1 where u: "userQuery B i w = Inr (u, w1)"
      "(if us_state u = ''online'' then bind_res (redisPublish B i s w1) (\<lambda>(ok, w). Inr w) else offlineInsert B i s w1) = Inr w'"
    by (auto simp: forward_def bind_res_Inr_iff)
  from userQuery_logged [OF u(1)] obtain fs where fs: "w1 = logged fs w" "deliveries fs = []" by blast
  show ?thesis
  proof (cases "us_state u = ''online''")
    case True
    with u(2) have "w' = logged (RedisPublish i (cstr s) (rd_publish B (fs @ ch_log w) i (cstr s)) # fs) w"
      by (auto simp: bind_res_Inr_iff redisPublish_def Let_def fs to_logged split: if_splits)
    with u(1) fs None True show ?thesis by (auto simp: routed_def)
  next
    case False
    with u(2) have "offlineInsert B i s w1 = Inr w'" by simp
    from offlineInsert_logged [OF this] assms(1) obtain gs where
      "w' = logged (DbStatement (insertOfflineSql i s) (db_exec B (gs @ ch_log w1) (insertOfflineSql i s)) # gs) w1" "deliveries gs = []"
      unfolding db_reachable_def by blast
    with u(1) fs None False show ?thesis by (auto simp: routed_def logged_logged)
  qed
qed

lemma routed_hands_over:
  assumes "routed B i s w es"
  shows "\<exists>e. deliveries es = [e] \<and> handsOver (ch_conns w) s i e"
proof (cases "umFind i (ch_conns w)")
  case (Some c)
  with assms show ?thesis by (simp add: routed_def deliveries_def isDelivery_def handsOver_def)
next
  case None
  have "isDelivery (RedisPublish i (cstr s) ok)" for ok by (simp add: isDelivery_def)
  with None assms insert_delivers [of i s] show ?thesis
    by (auto simp: routed_def deliveries_Cons deliveries_append handsOver_def split: if_splits)
qed

lemma forward_logged:
  assumes "db_reachable B" "dumpJson (be_floats B) js = Inr s" "forward B i js w = Inr w'"
  shows "\<exists>es e. w' = logged es w \<and> deliveries es = [e] \<and> handsOver (ch_conns w) s i e"
  using forward_routed [OF assms] routed_hands_over by blast

text \<open>The state the interface speaks of: the backend, the message and the server.\<close>

definition routeReady :: "backend \<times> json \<times> string \<times> chat \<Rightarrow> bool" where
  "routeReady r = (case r of (B, js, s, w) \<Rightarrow> db_reachable B \<and> dumpJson (be_floats B) js = Inr s)"

definition routeDeliver :: "int \<Rightarrow> backend \<times> json \<times> string \<times> chat \<Rightarrow> fault + (backend \<times> json \<times> string \<times> chat)" where
  "routeDeliver i r = (case r of (B, js, s, w) \<Rightarrow> bind_res (forward B i js w) (\<lambda>w. Inr (B, js, s, w)))"

definition routeTrace :: "backend \<times> json \<times> string \<times> chat \<Rightarrow> effect list" where
  "routeTrace r = (case r of (B, js, s, w) \<Rightarrow> deliveries (ch_log w))"

definition routeFor :: "backend \<times> json \<times> string \<times> chat \<Rightarrow> int \<Rightarrow> effect \<Rightarrow> bool" where
  "routeFor r = (case r of (B, js, s, w) \<Rightarrow> handsOver (ch_conns w) s)"

interpretation route: single_delivery routeReady routeDeliver routeTrace routeFor
proof unfold_locales
  fix r r' :: "backend \<times> json \<times> string \<times> chat" and i
  assume "routeReady r" "routeDeliver i r = Inr r'"
  moreover obtain B js s w where "r = (B, js, s, w)" by (cases r) auto
  ultimately obtain w' where r: "r = (B, js, s, w)" "r' = (B, js, s, w')" "db_reachable B"
      "dumpJson (be_floats B) js = Inr s" "forward B i js w = Inr w'"
    by (auto simp: routeReady_def routeDeliver_def bind_res_Inr_iff)
  from forward_logged [OF r(3,4,5)] show "\<exists>e. routeTrace r' = routeTrace r @ [e] \<and> routeFor r i e \<and>
      routeReady r' \<and> routeFor r' = routeFor r"
    by (auto simp: r(1,2) routeTrace_def routeFor_def routeReady_def r(3,4) deliveries_append)
qed

lemma forwardAll_route:
  "forwardAll B is js w = Inr w' \<Longrightarrow> deliverAll routeDeliver is (B, js, s, w) = Inr (B, js, s, w')"
  by (induction "is" arbitrary: w) (auto simp: bind_res_Inr_iff routeDeliver_def)

section \<open>forward returns\<close>

text \<open>
  What the schema of \<^verbatim>\<open>chat.sql\<close> and the server's own INSERTs give: a row of the table
  \<^verbatim>\<open>user\<close> has its four fields, none of them NULL, the first a number.
\<close>

definition user_rows_ok :: "backend \<Rightarrow> bool" where
  "user_rows_ok B \<longleftrightarrow> (\<forall>log i ok row rows.
     db_rows B (DbStatement (selectUserSql i) ok # log) = Some (row # rows) \<longrightarrow> (\<exists>u. userOfRow row = Inr u))"

lemma length_insertOfflineSql: "length (insertOfflineSql i s) = 38 + length (dumpInt i) + length (cstr s)"
  by (simp add: insertOfflineSql_def)

lemma userQuery_returns:
  assumes "user_rows_ok B" "length (selectUserSql i) < 1024"
  shows "\<exists>u w'. userQuery B i w = Inr (u, w')"
proof -
  have "\<exists>u. userOfRow row = Inr u" if d: "dbQuery B (selectUserSql i) w = (Some (row # rows), w')" for row rows w'
  proof -
    from d have "\<exists>ok log. db_rows B (DbStatement (selectUserSql i) ok # log) = Some (row # rows)"
      by (auto simp: dbQuery_def mysqlQuery_def Let_def split: prod.splits if_splits)
    with assms(1) show ?thesis unfolding user_rows_ok_def by blast
  qed
  with assms(2) show ?thesis
    by (cases "dbQuery B (selectUserSql i) w")
      (fastforce simp: userQuery_def sqlText_def sqlBuf_def split: option.splits list.splits)
qed

lemma forward_returns:
  assumes "user_rows_ok B" "ch_pub w" "dumpJson (be_floats B) js = Inr s" "length (insertOfflineSql i s) < 1024"
  shows "\<exists>w'. forward B i js w = Inr w'"
proof (cases "umFind i (ch_conns w)")
  case (Some c)
  with assms(3) show ?thesis by (simp add: forward_def sendJson_def)
next
  case None
  have "length (selectUserSql i) < 1024" using assms(4) by (simp add: length_insertOfflineSql selectUserSql_def)
  from userQuery_returns [OF assms(1) this, of w] obtain u w1 where u: "userQuery B i w = Inr (u, w1)" by blast
  with userQuery_logged [OF u] assms(2) have "ch_pub w1" by auto
  with None u assms(3,4) show ?thesis
    by (simp add: forward_def redisPublish_def Let_def offlineInsert_def sqlText_def sqlBuf_def)
qed

lemma forwardAll_returns:
  assumes "db_reachable B" "user_rows_ok B" "dumpJson (be_floats B) js = Inr s"
  shows "ch_pub w \<Longrightarrow> \<forall>i \<in> set is. length (insertOfflineSql i s) < 1024 \<Longrightarrow> \<exists>w'. forwardAll B is js w = Inr w'"
proof (induction "is" arbitrary: w)
  case (Cons i "is")
  then obtain w1 where w1: "forward B i js w = Inr w1" using forward_returns [OF assms(2) _ assms(3)] by fastforce
  from forward_logged [OF assms(1,3) w1] Cons.prems(1) have "ch_pub w1" by auto
  with Cons w1 show ?case by simp
qed simp

lemma forwardAll_logged:
  assumes "db_reachable B" "dumpJson (be_floats B) js = Inr s" "forwardAll B is js w = Inr w'"
  shows "\<exists>es hs. w' = logged es w \<and> deliveries es = hs \<and> list_all2 (handsOver (ch_conns w) s) is hs"
proof -
  have "routeReady (B, js, s, w)" using assms(1,2) by (simp add: routeReady_def)
  from route.deliverAll_each_once [OF this forwardAll_route [OF assms(3)]] obtain hs where
    hs: "deliveries (ch_log w') = deliveries (ch_log w) @ hs" "list_all2 (handsOver (ch_conns w) s) is hs"
    by (auto simp: routeTrace_def routeFor_def)
  have "\<exists>es. w' = logged es w" using assms(3)
  proof (induction "is" arbitrary: w)
    case Nil
    then show ?case by (auto simp: logged_def intro: exI [of _ "[]"])
  next
    case (Cons i "is")
    then obtain w1 where w1: "forward B i js w = Inr w1" "forwardAll B is js w1 = Inr w'" by (auto simp: bind_res_Inr_iff)
    with forward_logged [OF assms(1,2) w1(1)] Cons.IH [OF w1(2)] show ?case by (auto simp: logged_logged)
  qed
  with hs show ?thesis by (auto simp: deliveries_append)
qed

section \<open>Properties\<close>

text \<open>
  C25: A one-to-one message goes one way, once. When the addressee is connected to this server its
  text is sent on that connection and nothing else is done. Otherwise the database is asked: if
  the user is online, which means at another server, the text is published on the user's redis
  channel, and if not, it is inserted as an offline message; nothing else leaves the server.
  Whether redis or the database took it is not looked at: a refused one is not tried again, nor
  the other way instead. The handler returns, provided the text fits the statement buffer.
\<close>

theorem one_chat_hands_over_once:
  assumes "db_reachable B" "user_rows_ok B" "ch_pub w"
    and "getInt B js ''to'' = Inr i" "dumpJson (be_floats B) js = Inr s" "length (insertOfflineSql i s) < 1024"
  shows "\<exists>es. oneChat B conn js w = Some (Inr (logged es w)) \<and>
    (case umFind i (ch_conns w) of
       Some c \<Rightarrow> es = [SendTo c s]
     | None \<Rightarrow>
         \<exists>u fs. userQuery B i w = Inr (u, logged fs w) \<and> deliveries fs = [] \<and>
           (if us_state u = ''online'' then es = RedisPublish i (cstr s) (rd_publish B (fs @ ch_log w) i (cstr s)) # fs
            else \<exists>gs. deliveries gs = [] \<and>
              es = DbStatement (insertOfflineSql i s) (db_exec B (gs @ fs @ ch_log w) (insertOfflineSql i s)) # gs @ fs))"
proof -
  obtain w' where w': "forward B i js w = Inr w'" using forward_returns [OF assms(2,3,5,6)] by blast
  from forward_routed [OF assms(1,5) w'] w' assms(4) show ?thesis by (auto simp: oneChat_def routed_def)
qed

definition chatMessage :: json where
  "chatMessage = JObject [(''id'', JInt 1), (''msg'', JString ''hi''), (''msgid'', JInt 6), (''to'', JInt 3)]"

text \<open>The printed form of ASCII strings, for the examples.\<close>

lemma dumpString_ascii:
  "list_all (\<lambda>c. 32 \<le> byte c \<and> byte c < 127 \<and> c \<noteq> dquote \<and> c \<noteq> backslash) s \<Longrightarrow> dumpString s = Inr ([dquote] @ s @ [dquote])"
proof -
  have "list_all (\<lambda>c. 32 \<le> byte c \<and> byte c < 127 \<and> c \<noteq> dquote \<and> c \<noteq> backslash) s \<Longrightarrow> dumpEscaped 0 cp s = Inr s" for cp
  proof (induction s arbitrary: cp)
    case Nil
    then show ?case by (simp add: utf8Accept_def)
  next
    case (Cons c s)
    then have c: "byte c < 127" "32 \<le> byte c" "byte c \<noteq> 34" "byte c \<noteq> 92"
      using byte_eqI [of c dquote] byte_eqI [of c backslash] byte_special by auto
    then have "decode 0 cp (byte c) = (0, byte c)"
      by (simp add: decode_start byteClass_nth utf8d_first low_bits)
    with Cons c show ?case by (simp add: utf8Accept_def escaped_def)
  qed
  then show "list_all (\<lambda>c. 32 \<le> byte c \<and> byte c < 127 \<and> c \<noteq> dquote \<and> c \<noteq> backslash) s \<Longrightarrow> ?thesis"
    by (simp add: dumpString_def utf8Accept_def)
qed

lemma chatMessage_dump: "\<exists>s. dumpJson F chatMessage = Inr s \<and> length s < 200"
proof -
  have "dumpInt 1 = ''1''" "dumpInt 6 = ''6''" "dumpInt 3 = ''3''" by code_simp+
  then show ?thesis
    by (simp add: chatMessage_def dumpString_ascii byte_def dquote_def backslash_def)
qed

lemma sampleBackend_ok: "db_reachable sampleBackend" "user_rows_ok sampleBackend"
  by (simp_all add: sampleBackend_def db_reachable_def user_rows_ok_def)

text \<open>User 3 is connected here, at another server, or nowhere.\<close>

definition bobBackend :: backend where
  "bobBackend = sampleBackend\<lparr>db_rows := (\<lambda>log. case log of
     DbStatement q ok # _ \<Rightarrow> if q = selectUserSql 3 then Some [[Some ''3'', Some ''bob'', Some ''pw'', Some ''online'']] else Some []
   | _ \<Rightarrow> None)\<rparr>"

lemma chat_users:
  "userQuery bobBackend 3 w = Inr (\<lparr>us_id = 3, us_name = ''bob'', us_pwd = ''pw'', us_state = ''online''\<rparr>,
     snd (dbQuery bobBackend (selectUserSql 3) w))"
  "userQuery sampleBackend 3 w = Inr (newUser, snd (dbQuery sampleBackend (selectUserSql 3) w))"
proof -
  have i: "dumpInt 3 = ''3''" "atoi ''3'' = Inr 3" by code_simp+
  show "userQuery bobBackend 3 w = Inr (\<lparr>us_id = 3, us_name = ''bob'', us_pwd = ''pw'', us_state = ''online''\<rparr>,
     snd (dbQuery bobBackend (selectUserSql 3) w))"
    "userQuery sampleBackend 3 w = Inr (newUser, snd (dbQuery sampleBackend (selectUserSql 3) w))"
    by (simp_all add: userQuery_def sqlText_def sqlBuf_def dbQuery_def mysqlConnect_def mysqlQuery_def bobBackend_def sampleBackend_def
        Let_def userOfRow_def fieldInt_def fieldText_def selectUserSql_def i)
qed

lemma bobBackend_ok: "db_reachable bobBackend" "user_rows_ok bobBackend"
proof -
  have "atoi ''3'' = Inr 3" by code_simp
  then have bob: "\<exists>u. userOfRow [Some ''3'', Some ''bob'', Some ''pw'', Some ''online''] = Inr u"
    by (simp add: userOfRow_def fieldInt_def fieldText_def)
  have "row = [Some ''3'', Some ''bob'', Some ''pw'', Some ''online'']"
    if "db_rows bobBackend (DbStatement q ok # log) = Some (row # rows)" for q ok log row rows
    using that by (simp add: bobBackend_def split: if_splits)
  with bob show "user_rows_ok bobBackend" unfolding user_rows_ok_def by blast
  show "db_reachable bobBackend" by (simp add: bobBackend_def sampleBackend_def db_reachable_def)
qed

theorem one_chat_hands_over_once_witness:
  "\<exists>s. (\<exists>w. w = freshChat\<lparr>ch_conns := [(3, 9)]\<rparr> \<and> oneChat sampleBackend 5 chatMessage w = Some (Inr (logged [SendTo 9 s] w))) \<and>
     (\<exists>fs. oneChat bobBackend 5 chatMessage freshChat = Some (Inr (logged (RedisPublish 3 (cstr s) True # fs) freshChat))) \<and>
     (\<exists>fs. oneChat sampleBackend 5 chatMessage freshChat =
        Some (Inr (logged (DbStatement (insertOfflineSql 3 s) True # fs) freshChat)))"
proof -
  obtain s where s: "dumpJson plainFloats chatMessage = Inr s" "length s < 200" using chatMessage_dump by blast
  have "dumpInt 3 = ''3''" by code_simp
  with s(2) length_cstr [of s] have len: "length (insertOfflineSql 3 s) < 1024" by (simp add: length_insertOfflineSql)
  have B: "be_floats sampleBackend = plainFloats" "be_floats bobBackend = plainFloats"
      "rd_publish bobBackend log i t" "db_exec sampleBackend log q" for log i t q
    by (simp_all add: sampleBackend_def bobBackend_def)
  have to: "getInt sampleBackend chatMessage ''to'' = Inr 3" "getInt bobBackend chatMessage ''to'' = Inr 3"
    by (simp_all add: getInt_def jsonAt_def chatMessage_def jsonInt_def toInt32_def)
  let ?w = "freshChat\<lparr>ch_conns := [(3, 9)]\<rparr>"
  have f: "ch_pub freshChat" "ch_pub ?w" "umFind 3 (ch_conns freshChat) = None" "umFind 3 (ch_conns ?w) = Some 9"
    by (simp_all add: freshChat_def umFind_def)
  have "oneChat sampleBackend 5 chatMessage ?w = Some (Inr (logged [SendTo 9 s] ?w))"
    using one_chat_hands_over_once [OF sampleBackend_ok f(2) to(1) _ len, of 5] s(1) f(4) B(1) by auto
  moreover have "\<exists>fs. oneChat bobBackend 5 chatMessage freshChat = Some (Inr (logged (RedisPublish 3 (cstr s) True # fs) freshChat))"
    using one_chat_hands_over_once [OF bobBackend_ok f(1) to(2) _ len, of 5] s(1) f(3) B(2,3) chat_users(1) [of freshChat] by auto
  moreover have "\<exists>fs. oneChat sampleBackend 5 chatMessage freshChat =
      Some (Inr (logged (DbStatement (insertOfflineSql 3 s) True # fs) freshChat))"
    using one_chat_hands_over_once [OF sampleBackend_ok f(1) to(1) _ len, of 5] s(1) f(3) B(1,4) chat_users(2) [of freshChat]
    by (auto simp: newUser_def)
  ultimately show ?thesis by blast
qed

text \<open>
  C26: A message to a group is handed over once to every member the database names, in that
  order, and to nobody else: one delivery per member, each to the member's connection here, to
  its redis channel, or into the table of offline messages.
\<close>

theorem group_chat_reaches_members:
  assumes "db_reachable B" "user_rows_ok B" "ch_pub w1" "dumpJson (be_floats B) js = Inr s"
    and "getInt B js ''id'' = Inr i" "getInt B js ''groupid'' = Inr g"
    and "groupQueryUsers B i g w = Inr (is, w1)" "\<forall>i \<in> set is. length (insertOfflineSql i s) < 1024"
  shows "\<exists>w' hs. groupChat B conn js w = Some (Inr w') \<and> ch_conns w' = ch_conns w1 \<and>
    deliveries (ch_log w') = deliveries (ch_log w1) @ hs \<and> list_all2 (handsOver (ch_conns w1) s) is hs"
proof -
  obtain w' where w': "forwardAll B is js w1 = Inr w'"
    using forwardAll_returns [OF assms(1,2,4,3,8)] by blast
  from forwardAll_logged [OF assms(1,4) w'] obtain es hs where
    "w' = logged es w1" "deliveries es = hs" "list_all2 (handsOver (ch_conns w1) s) is hs" by blast
  with w' assms(5,6,7) show ?thesis by (auto simp: groupChat_def deliveries_append)
qed

text \<open>A database in which groups have the members 3 and 4, and the table of users is empty.\<close>

definition groupBackend :: backend where
  "groupBackend = sampleBackend\<lparr>db_rows := (\<lambda>log. case log of
     DbStatement q ok # _ \<Rightarrow> if take 13 q = ''select userid'' then Some [[Some ''3''], [Some ''4'']] else Some []
   | _ \<Rightarrow> None)\<rparr>"

lemma groupBackend_ok: "db_reachable groupBackend" "user_rows_ok groupBackend"
  by (simp_all add: groupBackend_def sampleBackend_def db_reachable_def user_rows_ok_def selectUserSql_def)

definition groupMessage :: json where
  "groupMessage = JObject [(''groupid'', JInt 1), (''id'', JInt 2)]"

theorem group_chat_reaches_members_witness:
  "\<exists>w' e1 e2. groupChat groupBackend 5 groupMessage freshChat = Some (Inr w') \<and> deliveries (ch_log w') = [e1, e2]"
proof -
  have i: "dumpInt 1 = ''1''" "dumpInt 2 = ''2''" "dumpInt 3 = ''3''" "dumpInt 4 = ''4''" by code_simp+
  then obtain s where s: "dumpJson (be_floats groupBackend) groupMessage = Inr s" "length s < 200"
    by (simp add: groupMessage_def dumpString_ascii byte_def dquote_def backslash_def)
  have at: "atoi ''3'' = Inr 3" "atoi ''4'' = Inr 4" by code_simp+
  obtain w1 where w1: "groupQueryUsers groupBackend 2 1 freshChat = Inr ([3, 4], w1)" "ch_pub w1" "deliveries (ch_log w1) = []"
    by (simp add: groupQueryUsers_def selectGroupUsersSql_def i sqlText_def sqlBuf_def dbQuery_def mysqlConnect_def
        mysqlQuery_def groupBackend_def sampleBackend_def readAll_def fieldInt_def at freshChat_def effect_def Let_def
        deliveries_def isDelivery_def offlinePrefix_def)
  have "\<forall>i \<in> set [3, 4]. length (insertOfflineSql i s) < 1024"
    using s(2) length_cstr [of s] by (simp add: length_insertOfflineSql i)
  moreover have "getInt groupBackend groupMessage ''id'' = Inr 2" "getInt groupBackend groupMessage ''groupid'' = Inr 1"
    by (simp_all add: getInt_def jsonAt_def groupMessage_def jsonInt_def toInt32_def)
  ultimately show ?thesis
    using group_chat_reaches_members [OF groupBackend_ok w1(2) s(1) _ _ w1(1)] w1(3)
    by (fastforce simp: list_all2_Cons1)
qed

text \<open>
  C37: An offline message that is too long overruns the statement buffer: for an addressee who
  is not online anywhere, \<^verbatim>\<open>oneChat\<close> writes past \<^verbatim>\<open>char sql[1024]\<close> exactly when the text of the
  message and the digits of the addressee together have 986 bytes or more. Any client can send
  such a text.
\<close>

theorem long_offline_message_overflows:
  assumes "getInt B js ''to'' = Inr i" "dumpJson (be_floats B) js = Inr s"
    and "umFind i (ch_conns w) = None" "userQuery B i w = Inr (u, w1)" "us_state u \<noteq> ''online''"
  shows "oneChat B conn js w = Some (Inl OutOfBounds) \<longleftrightarrow> 986 \<le> length (dumpInt i) + length (cstr s)"
  using assms
  by (auto simp: oneChat_def forward_def offlineInsert_def sqlText_def sqlBuf_def length_insertOfflineSql)

theorem long_offline_message_overflows_witness:
  "oneChat sampleBackend 5 (JObject [(''msg'', JString (replicate 1000 (CHR ''a''))), (''to'', JInt 3)]) freshChat =
     Some (Inl OutOfBounds)"
proof -
  let ?js = "JObject [(''msg'', JString (replicate 1000 (CHR ''a''))), (''to'', JInt 3)]"
  have i: "dumpInt 3 = ''3''" by code_simp
  have str: "dumpString (replicate 1000 (CHR ''a'')) = Inr ([dquote] @ replicate 1000 (CHR ''a'') @ [dquote])"
    by (rule dumpString_ascii) (simp add: list_all_iff byte_def dquote_def backslash_def)
  define a where "a = ''{'' @ [dquote] @ ''msg'' @ [dquote] @ '':'' @ [dquote]"
  define b where "b = [dquote] @ '','' @ [dquote] @ ''to'' @ [dquote] @ '':3}''"
  have s: "dumpJson (be_floats sampleBackend) ?js = Inr (a @ replicate 1000 (CHR ''a'') @ b)"
    by (simp add: str dumpString_ascii byte_def i a_def b_def dquote_def backslash_def)
  have s2: "CHR 0x00 \<notin> set (a @ b)" by (simp add: a_def b_def dquote_def)
  have "CHR 0x00 \<notin> set (a @ replicate 1000 (CHR ''a'') @ b)" using s2 by auto
  then have "986 \<le> length (dumpInt 3) + length (cstr (a @ replicate 1000 (CHR ''a'') @ b))" by (simp add: cstr_id)
  moreover have "getInt sampleBackend ?js ''to'' = Inr 3"
    by (simp add: getInt_def jsonAt_def jsonInt_def toInt32_def)
  moreover have "userQuery sampleBackend 3 freshChat = Inr (newUser, snd (dbQuery sampleBackend (selectUserSql 3) freshChat))"
    by (simp add: userQuery_def selectUserSql_def i sqlText_def sqlBuf_def dbQuery_def mysqlConnect_def
        mysqlQuery_def sampleBackend_def Let_def)
  ultimately show ?thesis
    using long_offline_message_overflows [OF _ s, of 3 freshChat] by (simp add: freshChat_def umFind_def newUser_def)
qed

end
