(* ===== verification/ChatOffline.thy ===== *)
theory ChatOffline
  imports ChatDelivery "HOL-Library.Multiset"
begin

text \<open>
  The table of offline messages: what \<^verbatim>\<open>OfflineMsgModel\<close> stores is what the next login gets.
  The contract is a locale, a mailbox per user; the model provides it for a database that
  behaves as MySQL documents. The documented behaviour is stated on the log of statements.
\<close>

section \<open>The interface\<close>

fun putAll :: "('u \<Rightarrow> 'm \<Rightarrow> 'w \<Rightarrow> fault + 'w) \<Rightarrow> ('u \<times> 'm) list \<Rightarrow> 'w \<Rightarrow> fault + 'w" where
  "putAll put [] w = Inr w"
| "putAll put ((u, m) # ps) w = bind_res (put u m w) (putAll put ps)"

definition collect :: "('u \<Rightarrow> 'w \<Rightarrow> fault + ('m list \<times> 'w)) \<Rightarrow> ('u \<Rightarrow> 'w \<Rightarrow> fault + 'w) \<Rightarrow> 'u \<Rightarrow> 'w \<Rightarrow>
    fault + ('m list \<times> 'w)" where
  "collect fetch clear u w = bind_res (fetch u w) (\<lambda>(ms, w). bind_res (clear u w) (\<lambda>w. Inr (ms, w)))"

text \<open>The messages of a list that are for user \<open>u\<close>.\<close>

definition addressed :: "'u \<Rightarrow> ('u \<times> 'm) list \<Rightarrow> 'm multiset" where
  "addressed u ps = mset (map snd (filter (\<lambda>p. fst p = u) ps))"

locale mailbox =
  fixes ok :: "'w \<Rightarrow> bool"
    and valid :: "'u \<Rightarrow> 'm \<Rightarrow> bool"
    and put :: "'u \<Rightarrow> 'm \<Rightarrow> 'w \<Rightarrow> fault + 'w"
    and fetch :: "'u \<Rightarrow> 'w \<Rightarrow> fault + ('m list \<times> 'w)"
    and clear :: "'u \<Rightarrow> 'w \<Rightarrow> fault + 'w"
    and box :: "'w \<Rightarrow> 'u \<Rightarrow> 'm multiset"
    and user_ok :: "'u \<Rightarrow> bool"
  assumes put_law: "ok w \<Longrightarrow> valid u m \<Longrightarrow> \<exists>w'. put u m w = Inr w' \<and> ok w' \<and> (\<forall>v. box w' v = (if v = u then box w u + {#m#} else box w v))"
    and fetch_law: "ok w \<Longrightarrow> user_ok u \<Longrightarrow> \<exists>ms w'. fetch u w = Inr (ms, w') \<and> ok w' \<and> mset ms = box w u \<and> box w' = box w"
    and clear_law: "ok w \<Longrightarrow> user_ok u \<Longrightarrow> \<exists>w'. clear u w = Inr w' \<and> ok w' \<and> (\<forall>v. box w' v = (if v = u then {#} else box w v))"
begin

lemma putAll_box:
  "ok w \<Longrightarrow> \<forall>(u, m) \<in> set ps. valid u m \<Longrightarrow>
     \<exists>w'. putAll put ps w = Inr w' \<and> ok w' \<and> (\<forall>v. box w' v = box w v + addressed v ps)"
proof (induction ps arbitrary: w)
  case Nil
  then show ?case by (simp add: addressed_def)
next
  case (Cons p ps)
  obtain u m where p: "p = (u, m)" by fastforce
  with Cons.prems put_law [of w u m] obtain w1 where w1: "put u m w = Inr w1" "ok w1"
      "\<forall>v. box w1 v = (if v = u then box w u + {#m#} else box w v)" by auto
  from Cons.IH [OF w1(2)] Cons.prems(2) obtain w' where w': "putAll put ps w1 = Inr w'" "ok w'"
      "\<forall>v. box w' v = box w1 v + addressed v ps" by auto
  have "box w' v = box w v + addressed v (p # ps)" for v
    using w1(3) w'(3) by (simp add: addressed_def p)
  with w1(1) w'(1,2) show ?case by (simp add: p)
qed

lemma collect_box:
  assumes "ok w" "user_ok u"
  shows "\<exists>ms w'. collect fetch clear u w = Inr (ms, w') \<and> ok w' \<and> mset ms = box w u \<and>
    (\<forall>v. box w' v = (if v = u then {#} else box w v))"
proof -
  from fetch_law [OF assms] obtain ms w1 where f: "fetch u w = Inr (ms, w1)" "ok w1" "mset ms = box w u" "box w1 = box w"
    by blast
  from clear_law [OF f(2) assms(2)] obtain w' where "clear u w1 = Inr w'" "ok w'"
      "\<forall>v. box w' v = (if v = u then {#} else box w1 v)" by blast
  with f show ?thesis by (simp add: collect_def)
qed

lemma put_then_collect:
  assumes "ok w" "\<forall>(u, m) \<in> set ps. valid u m" "user_ok u"
  shows "\<exists>w1 ms w'. putAll put ps w = Inr w1 \<and> collect fetch clear u w1 = Inr (ms, w') \<and> ok w' \<and>
    mset ms = box w u + addressed u ps \<and> box w' u = {#} \<and> (\<forall>v. v \<noteq> u \<longrightarrow> box w' v = box w v + addressed v ps)"
proof -
  from putAll_box [OF assms(1,2)] obtain w1 where w1: "putAll put ps w = Inr w1" "ok w1"
      "\<forall>v. box w1 v = box w v + addressed v ps" by blast
  from collect_box [OF w1(2) assms(3)] w1 show ?thesis by auto
qed

end

section \<open>What MySQL documents\<close>

text \<open>
  String literals (MySQL Reference Manual, 9.1.1): backslash sequences, and a doubled quote; a
  single quote ends the literal.
\<close>

definition squote :: char where "squote = CHR 0x27"

definition sqlEscape :: "char \<Rightarrow> string" where
  "sqlEscape d =
     (if d = CHR ''0'' then [CHR 0x00] else if d = CHR ''b'' then [CHR 0x08] else if d = CHR ''n'' then [CHR 0x0A]
      else if d = CHR ''r'' then [CHR 0x0D] else if d = CHR ''t'' then [CHR 0x09] else if d = CHR ''Z'' then [CHR 0x1A]
      else if d = CHR ''%'' \<or> d = CHR ''_'' then [backslash, d] else [d])"

fun sqlUnquote :: "string \<Rightarrow> string option" where
  "sqlUnquote [] = Some []"
| "sqlUnquote (c # s) =
     (if c = backslash
      then (case s of [] \<Rightarrow> None | d # s' \<Rightarrow> map_option ((@) (sqlEscape d)) (sqlUnquote s'))
      else if c = squote
      then (case s of [] \<Rightarrow> None | d # s' \<Rightarrow> if d = squote then map_option ((#) squote) (sqlUnquote s') else None)
      else map_option ((#) c) (sqlUnquote s))"

text \<open>The literal of an INSERT for user \<open>i\<close>, if the statement is one.\<close>

definition insertPrefix :: "int \<Rightarrow> string" where
  "insertPrefix i = ''insert into offlinemessage values('' @ dumpInt i @ '','' @ [squote]"

definition literalOf :: "int \<Rightarrow> string \<Rightarrow> string option" where
  "literalOf i q =
     (let p = length (insertPrefix i)
      in if p + 2 \<le> length q \<and> take p q = insertPrefix i \<and> drop (length q - 2) q = [squote] @ '')''
         then Some (take (length q - 2 - p) (drop p q)) else None)"

text \<open>The rows of user \<open>i\<close> after the statements of a log, the oldest first.\<close>

fun storedOffline :: "int \<Rightarrow> effect list \<Rightarrow> string list" where
  "storedOffline i [] = []"
| "storedOffline i (DbStatement q True # log) =
     (if q = deleteOfflineSql i then []
      else case literalOf i q of
             None \<Rightarrow> storedOffline i log
           | Some lit \<Rightarrow> (case sqlUnquote lit of None \<Rightarrow> storedOffline i log | Some v \<Rightarrow> storedOffline i log @ [v]))"
| "storedOffline i (_ # log) = storedOffline i log"

text \<open>
  A SELECT returns the rows in some order. The table is this server's alone. Reading and
  deleting work, and so does inserting a text the column takes: \<^verbatim>\<open>varchar(500)\<close> of ASCII
  characters without quote or backslash.
\<close>

definition plainText :: "string \<Rightarrow> bool" where
  "plainText s \<longleftrightarrow> length s \<le> 500 \<and> list_all (\<lambda>c. 0 < byte c \<and> byte c < 128 \<and> c \<noteq> squote \<and> c \<noteq> backslash) s"

definition offline_documented :: "backend \<Rightarrow> bool" where
  "offline_documented B \<longleftrightarrow>
     (\<forall>log i. \<exists>vs. mset vs = mset (storedOffline i log) \<and>
        db_rows B (DbStatement (selectOfflineSql i) True # log) = Some (map (\<lambda>v. [Some v]) vs)) \<and>
     (\<forall>log i. db_exec B log (selectOfflineSql i) \<and> db_exec B log (deleteOfflineSql i)) \<and>
     (\<forall>log i s. plainText s \<longrightarrow> db_exec B log (insertOfflineSql i s))"

section \<open>The model provides it\<close>

lemma sqlUnquote_plain: "plainText s \<Longrightarrow> sqlUnquote s = Some s"
  by (induction s) (auto simp: plainText_def)

lemma cstr_plain: "plainText s \<Longrightarrow> cstr s = s"
proof -
  assume "plainText s"
  then have "CHR 0x00 \<notin> set s" by (auto simp: plainText_def list_all_iff byte_def)
  then show ?thesis by (rule cstr_id)
qed

lemma dumpInt_head: "\<exists>c ds. dumpInt i = c # ds \<and> list_all isDigit ds \<and> (isDigit c \<or> c = CHR ''-'')"
  using decimal_digits [of "nat i"] decimal_digits [of "nat (- i)"] by (auto simp: dumpInt_def)

lemma dumpInt_chars: "c \<in> set (dumpInt i) \<Longrightarrow> isDigit c \<or> c = CHR ''-''"
  using dumpInt_head [of i] by (auto simp: list_all_iff)

lemma not_digit: "\<not> isDigit (CHR ''-'')" "\<not> isDigit (CHR '','')"
  by (simp_all add: isDigit_def byte_def)

lemma dumpInt_inj: "dumpInt i = dumpInt j \<Longrightarrow> i = j"
proof -
  have no_minus: "decimal n \<noteq> CHR ''-'' # s" for n s
    using decimal_digits [of n] not_digit(1) by auto
  assume e: "dumpInt i = dumpInt j"
  show ?thesis
  proof (cases "i < 0")
    case True
    with e [symmetric] no_minus [of "nat j" "decimal (nat (- i))"] have "j < 0" by (auto simp: dumpInt_def split: if_splits)
    with True e decimal_inj [of "nat (- i)" "nat (- j)"] show ?thesis by (simp add: dumpInt_def)
  next
    case False
    with e no_minus [of "nat i" "decimal (nat (- j))"] have "\<not> j < 0" by (auto simp: dumpInt_def)
    with False e decimal_inj [of "nat i" "nat j"] show ?thesis by (simp add: dumpInt_def)
  qed
qed

lemma dumpInt_prefix: "dumpInt i @ CHR '','' # s = dumpInt j @ CHR '','' # t \<Longrightarrow> i = j"
proof -
  have "CHR '','' \<notin> set (dumpInt k)" for k using dumpInt_chars [of "CHR '',''" k] not_digit by auto
  then have t: "takeWhile (\<lambda>c. c \<noteq> CHR '','') (dumpInt k @ CHR '','' # u) = dumpInt k" for k u
    by (subst takeWhile_append2) auto
  assume "dumpInt i @ CHR '','' # s = dumpInt j @ CHR '','' # t"
  then have "dumpInt i = dumpInt j" using t by metis
  then show ?thesis by (rule dumpInt_inj)
qed

lemma literalOf_insert: "literalOf i (insertOfflineSql i s) = Some (cstr s)"
proof -
  have "insertOfflineSql i s = insertPrefix i @ cstr s @ [squote] @ '')''"
    by (simp add: insertOfflineSql_def insertPrefix_def squote_def)
  then show ?thesis by (simp add: literalOf_def)
qed

lemma literalOf_other: "i \<noteq> j \<Longrightarrow> literalOf i (insertOfflineSql j s) = None"
proof (rule ccontr)
  assume "i \<noteq> j" "literalOf i (insertOfflineSql j s) \<noteq> None"
  then have "take (length (insertPrefix i)) (insertOfflineSql j s) = insertPrefix i"
    by (auto simp: literalOf_def Let_def split: if_splits)
  then obtain r where "insertOfflineSql j s = insertPrefix i @ r" by (metis append_take_drop_id)
  then have "dumpInt j @ CHR '','' # squote # (cstr s @ [squote] @ '')'') = dumpInt i @ CHR '','' # squote # r"
    by (simp add: insertOfflineSql_def insertPrefix_def squote_def)
  with dumpInt_prefix \<open>i \<noteq> j\<close> show False by blast
qed

lemma literalOf_not_insert: "take 7 q \<noteq> ''insert '' \<Longrightarrow> literalOf i q = None"
proof (rule ccontr)
  assume "take 7 q \<noteq> ''insert ''" "literalOf i q \<noteq> None"
  then have "take (length (insertPrefix i)) q = insertPrefix i"
    by (auto simp: literalOf_def Let_def split: if_splits)
  then obtain r where "q = insertPrefix i @ r" by (metis append_take_drop_id)
  with \<open>take 7 q \<noteq> ''insert ''\<close> show False by (simp add: insertPrefix_def)
qed

lemma storedOffline_insert:
  assumes "plainText s"
  shows "storedOffline i (DbStatement (insertOfflineSql j s) True # log) =
    (if i = j then storedOffline i log @ [s] else storedOffline i log)"
proof -
  have "insertOfflineSql j s \<noteq> deleteOfflineSql i" by (simp add: insertOfflineSql_def deleteOfflineSql_def)
  then show ?thesis
    using literalOf_insert [of j s] literalOf_other [of i j s] sqlUnquote_plain [OF assms] cstr_plain [OF assms] by simp
qed

lemma deleteOfflineSql_inj: "deleteOfflineSql i = deleteOfflineSql j \<Longrightarrow> i = j"
  by (rule dumpInt_inj) (simp add: deleteOfflineSql_def)

lemma storedOffline_delete:
  "storedOffline i (DbStatement (deleteOfflineSql j) True # log) = (if i = j then [] else storedOffline i log)"
proof -
  have "literalOf i (deleteOfflineSql j) = None"
    by (rule literalOf_not_insert) (simp add: deleteOfflineSql_def)
  with deleteOfflineSql_inj [of j i] show ?thesis by auto
qed

lemma storedOffline_skip:
  "take 7 q \<noteq> ''insert '' \<Longrightarrow> take 7 q \<noteq> ''delete '' \<Longrightarrow> storedOffline i (DbStatement q ok # log) = storedOffline i log"
  by (cases ok) (auto simp: literalOf_not_insert deleteOfflineSql_def)

section \<open>The model is a mailbox\<close>

lemma plainText_length: "plainText s \<Longrightarrow> length (cstr s) \<le> 500"
  using cstr_plain [of s] by (simp add: plainText_def)

lemma length_dumpInt: "fitsInt i \<Longrightarrow> length (dumpInt i) \<le> 11"
proof -
  assume "fitsInt i"
  then have "nat i < 10 ^ 10" "nat (- i) < 10 ^ 10" by (auto simp: fitsInt_def)
  then have "length (decimal (nat i)) \<le> 10" "length (decimal (nat (- i))) \<le> 10" by (simp_all add: length_decimal)
  then show ?thesis by (simp add: dumpInt_def)
qed

text \<open>Opening a connection and reading do not touch the table.\<close>

lemma connect_offline:
  assumes "db_reachable B"
  shows "\<exists>w1. mysqlConnect B w = (True, w1) \<and> (\<forall>i. storedOffline i (ch_log w1) = storedOffline i (ch_log w))"
proof -
  have "mysqlConnect B w = (True, snd (mysqlConnect B w))"
    using assms by (simp add: mysqlConnect_def db_reachable_def Let_def)
  moreover have "storedOffline i (ch_log (snd (mysqlConnect B w))) = storedOffline i (ch_log w)" for i
    using assms by (simp add: mysqlConnect_def db_reachable_def Let_def storedOffline_skip)
  ultimately show ?thesis by blast
qed

definition mailOk :: "backend \<times> chat \<Rightarrow> bool" where
  "mailOk r \<longleftrightarrow> db_reachable (fst r) \<and> offline_documented (fst r)"

definition mailPut :: "int \<Rightarrow> string \<Rightarrow> backend \<times> chat \<Rightarrow> fault + (backend \<times> chat)" where
  "mailPut i s r = bind_res (offlineInsert (fst r) i s (snd r)) (\<lambda>w. Inr (fst r, w))"

definition mailFetch :: "int \<Rightarrow> backend \<times> chat \<Rightarrow> fault + (string list \<times> (backend \<times> chat))" where
  "mailFetch i r = bind_res (offlineQuery (fst r) i (snd r)) (\<lambda>(vec, w). Inr (vec, (fst r, w)))"

definition mailClear :: "int \<Rightarrow> backend \<times> chat \<Rightarrow> fault + (backend \<times> chat)" where
  "mailClear i r = bind_res (offlineRemove (fst r) i (snd r)) (\<lambda>w. Inr (fst r, w))"

definition mailBox :: "backend \<times> chat \<Rightarrow> int \<Rightarrow> string multiset" where
  "mailBox r i = mset (storedOffline i (ch_log (snd r)))"

definition mailValid :: "int \<Rightarrow> string \<Rightarrow> bool" where
  "mailValid i s \<longleftrightarrow> fitsInt i \<and> plainText s"

lemma readRows_texts: "readRows (\<lambda>row. fieldText row 0) (map (\<lambda>v. [Some v]) vs) = Inr vs"
  by (induction vs) (simp_all add: fieldText_def)

lemma offlineInsert_box:
  assumes "mailOk (B, w)" "mailValid i s"
  shows "\<exists>w'. offlineInsert B i s w = Inr w' \<and>
    (\<forall>j. storedOffline j (ch_log w') = (if j = i then storedOffline j (ch_log w) @ [s] else storedOffline j (ch_log w)))"
proof -
  from assms(1) connect_offline [of B w] obtain w1 where w1: "mysqlConnect B w = (True, w1)"
      "\<And>j. storedOffline j (ch_log w1) = storedOffline j (ch_log w)"
    by (auto simp: mailOk_def)
  from assms(2) length_dumpInt [of i] plainText_length [of s] have "length (insertOfflineSql i s) < 1024"
    by (simp add: mailValid_def length_insertOfflineSql)
  moreover from assms have "db_exec B (ch_log w1) (insertOfflineSql i s)"
    by (simp add: mailOk_def mailValid_def offline_documented_def)
  ultimately have "offlineInsert B i s w = Inr (effect (DbStatement (insertOfflineSql i s) True) w1)"
    by (simp add: offlineInsert_def sqlText_def sqlBuf_def dbUpdate_def w1(1) mysqlUpdate_def Let_def)
  moreover from assms(2) have "plainText s" by (simp add: mailValid_def)
  ultimately show ?thesis using w1(2) by (simp add: storedOffline_insert del: storedOffline.simps)
qed

lemma offlineQuery_box:
  assumes "mailOk (B, w)" "fitsInt i"
  shows "\<exists>vec w'. offlineQuery B i w = Inr (vec, w') \<and> mset vec = mset (storedOffline i (ch_log w)) \<and>
    (\<forall>j. storedOffline j (ch_log w') = storedOffline j (ch_log w))"
proof -
  from assms(1) connect_offline [of B w] obtain w1 where w1: "mysqlConnect B w = (True, w1)"
      "\<And>j. storedOffline j (ch_log w1) = storedOffline j (ch_log w)"
    by (auto simp: mailOk_def)
  from assms(1) obtain vs where vs: "mset vs = mset (storedOffline i (ch_log w1))"
      "db_rows B (DbStatement (selectOfflineSql i) True # ch_log w1) = Some (map (\<lambda>v. [Some v]) vs)"
      "db_exec B (ch_log w1) (selectOfflineSql i)"
    unfolding mailOk_def offline_documented_def by (metis fst_conv)
  from length_dumpInt [OF assms(2)] have "length (selectOfflineSql i) < 1024" by (simp add: selectOfflineSql_def)
  with vs(2,3) w1(1) have "offlineQuery B i w = Inr (vs, effect (DbStatement (selectOfflineSql i) True) w1)"
    by (simp add: offlineQuery_def sqlText_def sqlBuf_def dbQuery_def mysqlQuery_def Let_def readAll_def readRows_texts)
  moreover have "storedOffline j (DbStatement (selectOfflineSql i) True # ch_log w1) = storedOffline j (ch_log w1)" for j
    by (rule storedOffline_skip) (simp_all add: selectOfflineSql_def)
  ultimately show ?thesis using vs(1) w1(2) by simp
qed

lemma offlineRemove_box:
  assumes "mailOk (B, w)" "fitsInt i"
  shows "\<exists>w'. offlineRemove B i w = Inr w' \<and>
    (\<forall>j. storedOffline j (ch_log w') = (if j = i then [] else storedOffline j (ch_log w)))"
proof -
  from assms(1) connect_offline [of B w] obtain w1 where w1: "mysqlConnect B w = (True, w1)"
      "\<And>j. storedOffline j (ch_log w1) = storedOffline j (ch_log w)"
    by (auto simp: mailOk_def)
  from length_dumpInt [OF assms(2)] have "length (deleteOfflineSql i) < 1024" by (simp add: deleteOfflineSql_def)
  moreover from assms have "db_exec B (ch_log w1) (deleteOfflineSql i)"
    by (simp add: mailOk_def offline_documented_def)
  ultimately have "offlineRemove B i w = Inr (effect (DbStatement (deleteOfflineSql i) True) w1)"
    by (simp add: offlineRemove_def sqlText_def sqlBuf_def dbUpdate_def w1(1) mysqlUpdate_def Let_def)
  then show ?thesis using w1(2) by (simp add: storedOffline_delete del: storedOffline.simps)
qed

interpretation mail: mailbox mailOk mailValid mailPut mailFetch mailClear mailBox fitsInt
proof unfold_locales
  fix r u m
  assume "mailOk r" "mailValid u m"
  with offlineInsert_box [of "fst r" "snd r" u m] show "\<exists>w'. mailPut u m r = Inr w' \<and> mailOk w' \<and>
      (\<forall>v. mailBox w' v = (if v = u then mailBox r u + {#m#} else mailBox r v))"
    by (auto simp: mailPut_def mailBox_def mailOk_def)
next
  fix r u
  assume a: "mailOk r" "fitsInt u"
  with offlineQuery_box [of "fst r" "snd r" u] show "\<exists>ms w'. mailFetch u r = Inr (ms, w') \<and> mailOk w' \<and>
      mset ms = mailBox r u \<and> mailBox w' = mailBox r"
    by (auto simp: mailFetch_def mailBox_def mailOk_def fun_eq_iff)
  from a offlineRemove_box [of "fst r" "snd r" u] show "\<exists>w'. mailClear u r = Inr w' \<and> mailOk w' \<and>
      (\<forall>v. mailBox w' v = (if v = u then {#} else mailBox r v))"
    by (auto simp: mailClear_def mailBox_def mailOk_def)
qed

section \<open>Properties\<close>

lemma putAll_mail: "putAll mailPut ps (B, w) = bind_res (putAll (offlineInsert B) ps w) (\<lambda>w. Inr (B, w))"
proof (induction ps arbitrary: w)
  case (Cons p ps)
  then show ?case by (cases p; cases "offlineInsert B (fst p) (snd p) w") (simp_all add: mailPut_def)
qed simp

text \<open>
  C29: Offline messages survive: with a database that behaves as documented, whatever plain
  texts are stored for whatever users, the next query for a user returns exactly the texts
  stored for that user since the last removal, the removal empties that user's mailbox, and no
  other user's messages are touched.
\<close>

theorem offline_messages_roundtrip:
  assumes "db_reachable B" "offline_documented B" "\<forall>(u, m) \<in> set ps. fitsInt u \<and> plainText m" "fitsInt i"
  shows "\<exists>w1 vec w2 w3. putAll (offlineInsert B) ps w = Inr w1 \<and> offlineQuery B i w1 = Inr (vec, w2) \<and>
    offlineRemove B i w2 = Inr w3 \<and>
    mset vec = mset (storedOffline i (ch_log w)) + addressed i ps \<and>
    storedOffline i (ch_log w3) = [] \<and>
    (\<forall>j. j \<noteq> i \<longrightarrow> mset (storedOffline j (ch_log w3)) = mset (storedOffline j (ch_log w)) + addressed j ps)"
proof -
  from assms have "mailOk (B, w)" "\<forall>(u, m) \<in> set ps. mailValid u m" by (auto simp: mailOk_def mailValid_def)
  from mail.put_then_collect [OF this assms(4)] obtain r1 vec r3 where
    r: "putAll mailPut ps (B, w) = Inr r1" "collect mailFetch mailClear i r1 = Inr (vec, r3)"
      "mset vec = mailBox (B, w) i + addressed i ps" "mailBox r3 i = {#}"
      "\<forall>v. v \<noteq> i \<longrightarrow> mailBox r3 v = mailBox (B, w) v + addressed v ps" by blast
  from r(1) obtain w1 where w1: "putAll (offlineInsert B) ps w = Inr w1" "r1 = (B, w1)"
    by (auto simp: putAll_mail bind_res_Inr_iff)
  from r(2) obtain w2 w3 where "offlineQuery B i w1 = Inr (vec, w2)" "offlineRemove B i w2 = Inr w3" "r3 = (B, w3)"
    by (auto simp: collect_def mailFetch_def mailClear_def w1(2) bind_res_Inr_iff)
  with w1(1) r(3,4,5) show ?thesis by (auto simp: mailBox_def)
qed

lemma takeWhile_decimal: "takeWhile isDigit (decimal n) = decimal n"
  using decimal_digits [of n] by (auto simp: takeWhile_eq_all_conv list_all_iff)

lemma numeralValue_dumpInt: "numeralValue (dumpInt i) = i"
proof (cases "i < 0")
  case True
  then show ?thesis
    by (simp add: numeralValue_def signedDigits_def dumpInt_def isSpace_def byte_def readDecimal_decimal takeWhile_decimal)
next
  case False
  obtain c ds where d: "decimal (nat i) = c # ds" "isDigit c" "list_all isDigit ds" using decimal_digits by blast
  have t: "takeWhile isDigit (c # ds) = decimal (nat i)" using d by (auto simp: takeWhile_eq_all_conv list_all_iff)
  from d(2) have "\<not> isSpace c" "c \<noteq> CHR ''-''" "c \<noteq> CHR ''+''" by (auto simp: isSpace_def isDigit_def byte_def)
  then have "signedDigits (dumpInt i) = (False, decimal (nat i))"
    using False d(1) t by (simp add: signedDigits_def dumpInt_def)
  with False show ?thesis by (simp add: numeralValue_def readDecimal_decimal)
qed

lemma atoi_dumpInt: "fitsInt i \<Longrightarrow> atoi (dumpInt i) = Inr i"
  by (simp add: atoi_def numeralValue_dumpInt)

text \<open>A database that keeps the promises: it reads the user out of the statement.\<close>

definition mailBackend :: backend where
  "mailBackend = sampleBackend\<lparr>db_rows := (\<lambda>log. case log of
     DbStatement q ok # log' \<Rightarrow>
       Some (map (\<lambda>v. [Some v]) (storedOffline (numeralValue (drop 50 q)) log'))
   | _ \<Rightarrow> None)\<rparr>"

lemma mailBackend_ok: "db_reachable mailBackend" "offline_documented mailBackend"
proof -
  have "drop 50 (selectOfflineSql i) = dumpInt i" for i by (simp add: selectOfflineSql_def)
  then show "offline_documented mailBackend"
    by (auto simp: offline_documented_def mailBackend_def sampleBackend_def numeralValue_dumpInt)
  show "db_reachable mailBackend" by (simp add: db_reachable_def mailBackend_def sampleBackend_def)
qed

theorem offline_messages_roundtrip_witness:
  "\<exists>w1 w2. putAll (offlineInsert mailBackend) [(19, ''a''), (7, ''b''), (19, ''c'')] freshChat = Inr w1 \<and>
     (\<exists>vec. offlineQuery mailBackend 19 w1 = Inr (vec, w2) \<and> mset vec = {#''a'', ''c''#})"
proof -
  have "\<forall>(u, m) \<in> set [(19, ''a''), (7, ''b''), (19, ''c'')]. fitsInt u \<and> plainText m"
    by (simp add: fitsInt_def plainText_def byte_def squote_def backslash_def)
  from offline_messages_roundtrip [OF mailBackend_ok this, of 19 freshChat]
  show ?thesis by (auto simp: fitsInt_def addressed_def freshChat_def)
qed

end
