(* ===== verification/ChatLogin.thy ===== *)
theory ChatLogin
  imports ChatOffline
begin

text \<open>
  Logging in, and what a closed connection leaves behind. The first part follows, operation by
  operation, what the models and the redis client send to connections: nothing. On that rest
  the theorems on the answers a handler gives.
\<close>

section \<open>What is sent to connections\<close>

definition sends :: "effect list \<Rightarrow> (nat \<times> string) list" where
  "sends log = concat (map (\<lambda>e. case e of SendTo c s \<Rightarrow> [(c, s)] | _ \<Rightarrow> []) (rev log))"

lemma sends_simps [simp]: "sends [] = []" "sends (es @ log) = sends log @ sends es"
  "sends (SendTo c s # log) = sends log @ [(c, s)]"
  by (simp_all add: sends_def)

text \<open>The commands handed to hiredis for the subscribing context, each with whether it took it.\<close>

definition commands :: "effect list \<Rightarrow> (string \<times> bool) list" where
  "commands log = concat (map (\<lambda>e. case e of RedisAppend c ok \<Rightarrow> [(c, ok)] | _ \<Rightarrow> []) (rev log))"

lemma commands_simps [simp]: "commands [] = []" "commands (es @ log) = commands log @ commands es"
  "commands (RedisAppend c ok # log) = commands log @ [(c, ok)]" "sends (RedisAppend c ok # log) = sends log"
  "commands (SendTo k s # log) = commands log" "commands (ShutdownConn k # log) = commands log"
  by (simp_all add: commands_def sends_def)

lemma in_commands: "(c, ok) \<in> set (commands log) \<longleftrightarrow> RedisAppend c ok \<in> set log"
proof (induction log)
  case (Cons e log)
  then show ?case by (cases e) (auto simp: commands_def)
qed simp

text \<open>From \<open>w\<close> to \<open>w'\<close> only the log has grown, nothing was sent, and no command was given to redis.\<close>

definition quiet :: "chat \<Rightarrow> chat \<Rightarrow> bool" where
  "quiet w w' \<longleftrightarrow> (\<exists>es. w' = logged es w \<and> sends es = [] \<and> commands es = [])"

lemma quiet_refl [simp]: "quiet w w"
  by (auto simp: quiet_def logged_def intro: exI [of _ "[]"])

lemma quiet_trans: "quiet w w1 \<Longrightarrow> quiet w1 w2 \<Longrightarrow> quiet w w2"
  by (auto simp: quiet_def logged_logged)

lemma quiet_effect: "sends [e] = [] \<Longrightarrow> commands [e] = [] \<Longrightarrow> quiet w (effect e w)"
  by (auto simp: quiet_def effect_logged)

lemma quiet_sends: "quiet w w' \<Longrightarrow> sends (ch_log w') = sends (ch_log w)"
  by (auto simp: quiet_def)

lemma quiet_commands: "quiet w w' \<Longrightarrow> commands (ch_log w') = commands (ch_log w)"
  by (auto simp: quiet_def)

lemma quiet_state: "quiet w w' \<Longrightarrow> ch_conns w' = ch_conns w \<and> ch_pub w' = ch_pub w \<and> ch_sub w' = ch_sub w \<and> ch_notify w' = ch_notify w"
  by (auto simp: quiet_def)

lemma silent_effects [simp]:
  "sends [DbConnect b] = []" "sends [DbStatement q b] = []" "sends [RedisConnect b] = []" "sends [RedisAppend q b] = []"
  "sends [RedisWrite n] = []" "sends [RedisPublish i q b] = []" "sends [ShutdownConn c] = []"
  "commands [DbConnect b] = []" "commands [DbStatement q b] = []" "commands [RedisConnect b] = []"
  "commands [RedisWrite n] = []" "commands [RedisPublish i q b] = []"
  by (simp_all add: sends_def commands_def)

lemma mysqlConnect_quiet: "quiet w (snd (mysqlConnect B w))"
  by (auto simp: mysqlConnect_def Let_def intro: quiet_effect quiet_trans [OF quiet_effect quiet_effect])

lemma mysqlQuery_quiet: "quiet w (snd (mysqlQuery B q w))"
  by (simp add: mysqlQuery_def Let_def quiet_effect)

lemma dbUpdate_quiet: "dbUpdate B q w = (ok, w') \<Longrightarrow> quiet w w'"
proof -
  assume "dbUpdate B q w = (ok, w')"
  moreover have "quiet w1 (effect (DbStatement q b) w1)" for w1 b by (rule quiet_effect) simp_all
  ultimately show ?thesis using mysqlConnect_quiet [of w B] quiet_trans
    by (fastforce simp: dbUpdate_def mysqlUpdate_def Let_def split: prod.splits if_splits)
qed

lemma dbQuery_quiet: "quiet w (snd (dbQuery B q w))"
  using mysqlConnect_quiet [of w B] mysqlQuery_quiet
  by (auto simp: dbQuery_def split: prod.splits intro: quiet_trans)

lemma readAll_quiet: "readAll f (rows, w1) = Inr (vs, w') \<Longrightarrow> w' = w1"
  by (auto simp: readAll_def bind_res_Inr_iff)

lemma readAll_dbQuery_quiet: "readAll f (dbQuery B q w) = Inr (vs, w') \<Longrightarrow> quiet w w'"
  using dbQuery_quiet [of w B q] by (cases "dbQuery B q w") (auto dest: readAll_quiet)

lemma readAll_mysqlQuery_quiet: "readAll f (mysqlQuery B q w) = Inr (vs, w') \<Longrightarrow> quiet w w'"
  using mysqlQuery_quiet [of w B q] by (cases "mysqlQuery B q w") (auto dest: readAll_quiet)

lemma afterWrites_quiet: "quiet w (afterWrites ws w)"
proof -
  have "sends (map RedisWrite ws) = [] \<and> commands (map RedisWrite ws) = []"
    by (induction ws) (simp_all add: sends_def commands_def)
  then show ?thesis by (auto simp: quiet_def afterWrites_logged)
qed

section \<open>The models are quiet\<close>

lemma userInsert_quiet: "userInsert B u w = Inr (ok, u', w') \<Longrightarrow> quiet w w'"
  using dbUpdate_quiet [of B "insertUserSql u" w]
  by (cases "dbUpdate B (insertUserSql u) w") (auto simp: userInsert_def bind_res_Inr_iff sqlText_Inr split: if_splits)

lemma userQuery_quiet: "userQuery B i w = Inr (u, w') \<Longrightarrow> quiet w w'"
  using dbQuery_quiet by (auto dest: userQuery_snd)

lemma userUpdateState_quiet: "userUpdateState B u w = Inr (ok, w') \<Longrightarrow> quiet w w'"
  by (auto simp: userUpdateState_def bind_res_Inr_iff dest: dbUpdate_quiet)

lemma snd_dbUpdate_quiet: "quiet w (snd (dbUpdate B q w))"
  using dbUpdate_quiet by (metis prod.collapse)

lemma friendInsert_quiet: "friendInsert B i j w = Inr w' \<Longrightarrow> quiet w w'"
  by (auto simp: friendInsert_def bind_res_Inr_iff snd_dbUpdate_quiet)

lemma friendQuery_quiet: "friendQuery B i w = Inr (us, w') \<Longrightarrow> quiet w w'"
  by (auto simp: friendQuery_def bind_res_Inr_iff dest: readAll_dbQuery_quiet)

lemma groupCreate_quiet: "groupCreate B g w = Inr (ok, g', w') \<Longrightarrow> quiet w w'"
  using dbUpdate_quiet [of B "createGroupSql g" w]
  by (cases "dbUpdate B (createGroupSql g) w") (auto simp: groupCreate_def bind_res_Inr_iff sqlText_Inr split: if_splits)

lemma groupAdd_quiet: "groupAdd B i g r w = Inr w' \<Longrightarrow> quiet w w'"
  by (auto simp: groupAdd_def bind_res_Inr_iff snd_dbUpdate_quiet)

lemma queryMembers_quiet: "queryMembers B gs w = Inr (gs', w') \<Longrightarrow> quiet w w'"
proof (induction gs arbitrary: w gs')
  case (Cons g gs)
  from Cons.prems obtain us w1 gs1 where "readAll memberOfRow (mysqlQuery B (selectMembersSql (gr_id g)) w) = Inr (us, w1)"
      "queryMembers B gs w1 = Inr (gs1, w')"
    by (auto simp: bind_res_Inr_iff sqlText_Inr)
  with Cons.IH readAll_mysqlQuery_quiet quiet_trans show ?case by blast
qed simp

lemma groupQuery_quiet: "groupQuery B i w = Inr (gs, w') \<Longrightarrow> quiet w w'"
  by (auto simp: groupQuery_def bind_res_Inr_iff dest!: readAll_dbQuery_quiet queryMembers_quiet intro: quiet_trans)

lemma groupQueryUsers_quiet: "groupQueryUsers B i g w = Inr (is, w') \<Longrightarrow> quiet w w'"
  by (auto simp: groupQueryUsers_def bind_res_Inr_iff dest: readAll_dbQuery_quiet)

lemma offlineInsert_quiet: "offlineInsert B i s w = Inr w' \<Longrightarrow> quiet w w'"
  by (auto simp: offlineInsert_def bind_res_Inr_iff snd_dbUpdate_quiet)

lemma offlineRemove_quiet: "offlineRemove B i w = Inr w' \<Longrightarrow> quiet w w'"
  by (auto simp: offlineRemove_def bind_res_Inr_iff snd_dbUpdate_quiet)

lemma offlineQuery_quiet: "offlineQuery B i w = Inr (vec, w') \<Longrightarrow> quiet w w'"
  by (auto simp: offlineQuery_def bind_res_Inr_iff dest: readAll_dbQuery_quiet)

lemma redisPublish_quiet: "redisPublish B i s w = Inr (ok, w') \<Longrightarrow> quiet w w'"
  by (auto simp: redisPublish_def Let_def quiet_effect split: if_splits)

lemma redisFlush_quiet:
  assumes "redisFlush B w = Some (ok, w')"
  shows "quiet w w'"
proof -
  have "quiet w (snd r)" if "redisFlush B w = Some r" for r
  proof (rule redisFlush.raw_induct [where P = "\<lambda>B w r. quiet w (snd r)", OF _ that])
    fix f B w and r :: "bool \<times> chat"
    assume ih: "\<And>B w r. f B w = Some r \<Longrightarrow> quiet w (snd r)"
      and r: "(case rd_write B (ch_log w) of None \<Rightarrow> Some (False, effect (RedisWrite None) w)
        | Some n \<Rightarrow> let w' = effect (RedisWrite (Some n)) w
            in if pendingBytes B (ch_log w') = 0 then Some (True, w') else f B w') = Some r"
    have "quiet w (effect (RedisWrite n) w)" for n by (rule quiet_effect) simp_all
    moreover from r ih [of B _ r] have "quiet (effect (RedisWrite (rd_write B (ch_log w))) w) (snd r)"
      by (cases "rd_write B (ch_log w)") (auto simp: Let_def split: if_splits)
    ultimately show "quiet w (snd r)" using quiet_trans by blast
  qed
  with assms show ?thesis by fastforce
qed

text \<open>A command is handed to hiredis once; sending it is quiet.\<close>

lemma redisCommand_asks:
  assumes "redisCommand B cmd w = Some (Inr (ok, w'))"
  shows "quiet (effect (RedisAppend cmd (rd_append B (ch_log w) cmd)) w) w'"
proof -
  let ?w = "effect (RedisAppend cmd (rd_append B (ch_log w) cmd)) w"
  have "?w = w' \<or> redisFlush B ?w = Some (ok, w')"
    using assms unfolding redisCommand_def Let_def by (auto split: if_splits)
  then show ?thesis using redisFlush_quiet by auto
qed

abbreviation subscribeCmd :: "int \<Rightarrow> string" where
  "subscribeCmd i \<equiv> ''SUBSCRIBE '' @ dumpInt i"

abbreviation unsubscribeCmd :: "int \<Rightarrow> string" where
  "unsubscribeCmd i \<equiv> ''UNSUBSCRIBE '' @ dumpInt i"

lemma redisSubscribe_asks:
  "redisSubscribe B i w = Some (Inr (ok, w')) \<Longrightarrow>
     quiet (effect (RedisAppend (subscribeCmd i) (rd_append B (ch_log w) (subscribeCmd i))) w) w'"
  unfolding redisSubscribe_def by (rule redisCommand_asks)

lemma redisUnsubscribe_asks:
  "redisUnsubscribe B i w = Some (Inr (ok, w')) \<Longrightarrow>
     quiet (effect (RedisAppend (unsubscribeCmd i) (rd_append B (ch_log w) (unsubscribeCmd i))) w) w'"
  unfolding redisUnsubscribe_def by (rule redisCommand_asks)

text \<open>For the case analysis of a handler.\<close>

lemmas models_quiet = userInsert_quiet userQuery_quiet userUpdateState_quiet friendInsert_quiet friendQuery_quiet
  groupCreate_quiet groupAdd_quiet groupQuery_quiet groupQueryUsers_quiet offlineInsert_quiet offlineRemove_quiet
  offlineQuery_quiet redisPublish_quiet

section \<open>The response of a login\<close>

definition keyed :: "json \<Rightarrow> bool" where
  "keyed j \<longleftrightarrow> (case j of JNull \<Rightarrow> True | JObject m \<Rightarrow> True | _ \<Rightarrow> False)"

lemma keyed_jsonSet [simp]: "keyed JNull" "keyed (jsonSet k v j)"
  by (cases j; simp add: keyed_def)+

lemma jsonAt_jsonSet: "keyed j \<Longrightarrow> jsonAt (jsonSet k v j) k' = (if k = k' then Inr v else jsonAt j k')"
  by (cases j) (auto simp: keyed_def jsonAt_def map_of_objSet)

lemma keyed_loginAck [simp]: "keyed (loginAck e)"
  unfolding loginAck_def by (rule keyed_jsonSet)

lemma jsonAt_loginAck: "jsonAt (loginAck e) k =
    (if k = ''errno'' then Inr (JInt e) else if k = ''msgid'' then Inr (JInt LOGIN_MSG_ACK) else Inr JNull)"
  unfolding loginAck_def by (simp add: jsonAt_jsonSet del: jsonSet.simps) (simp add: jsonAt_def)

definition successFor :: "chat_user \<Rightarrow> json \<Rightarrow> bool" where
  "successFor u r \<longleftrightarrow> keyed r \<and> jsonAt r ''msgid'' = Inr (JInt LOGIN_MSG_ACK) \<and> jsonAt r ''errno'' = Inr (JInt 0) \<and>
     jsonAt r ''id'' = Inr (JInt (us_id u)) \<and> jsonAt r ''name'' = Inr (JString (us_name u))"

lemma successFor_jsonSet:
  "successFor u r \<Longrightarrow> k \<notin> {''msgid'', ''errno'', ''id'', ''name''} \<Longrightarrow> successFor u (jsonSet k v r)"
  by (simp add: successFor_def jsonAt_jsonSet)

lemma loginResponse_ok:
  assumes "loginResponse B u w = Inr (r, w')"
  shows "successFor u r \<and> quiet w w'"
proof -
  let ?r = "jsonSet ''name'' (JString (us_name u)) (jsonSet ''id'' (JInt (us_id u)) (loginAck 0))"
  have base: "successFor u ?r" by (simp add: successFor_def jsonAt_jsonSet jsonAt_loginAck)
  from assms obtain vec w1 r1 w2 fs w3 r2 gs where s:
      "offlineQuery B (us_id u) w = Inr (vec, w1)"
      "(if vec = [] then Inr (?r, w1) else bind_res (offlineRemove B (us_id u) w1) (\<lambda>w. Inr (jsonSet ''offlinemsg'' (jsonStrings vec) ?r, w))) = Inr (r1, w2)"
      "friendQuery B (us_id u) w2 = Inr (fs, w3)"
      "(if fs = [] then Inr r1 else bind_res (dumpAll B (map userJson fs)) (\<lambda>vec2. Inr (jsonSet ''friends'' (jsonStrings vec2) r1))) = Inr r2"
      "groupQuery B (us_id u) w3 = Inr (gs, w')"
      "(if gs = [] then Inr r2 else bind_res (groupsJson B gs) (\<lambda>gjs. bind_res (dumpAll B gjs) (\<lambda>gv. Inr (jsonSet ''groups'' (jsonStrings gv) r2)))) = Inr r"
    unfolding loginResponse_def Let_def by (auto simp: bind_res_Inr_iff)
  from s(2) base have "successFor u r1" "quiet w1 w2"
    by (auto simp: bind_res_Inr_iff successFor_jsonSet split: if_splits dest: models_quiet)
  moreover from s(4) \<open>successFor u r1\<close> have "successFor u r2"
    by (auto simp: bind_res_Inr_iff successFor_jsonSet split: if_splits)
  moreover from s(6) \<open>successFor u r2\<close> have "successFor u r"
    by (auto simp: bind_res_Inr_iff successFor_jsonSet split: if_splits)
  moreover from s(1,3,5) have "quiet w w1" "quiet w2 w3" "quiet w3 w'" by (auto dest: models_quiet)
  ultimately show ?thesis using quiet_trans by blast
qed

lemma refused_ack:
  "jsonAt loginUsed ''msgid'' = Inr (JInt LOGIN_MSG_ACK)" "jsonAt loginUsed ''errno'' = Inr (JInt 2)"
  "jsonAt loginWrong ''msgid'' = Inr (JInt LOGIN_MSG_ACK)" "jsonAt loginWrong ''errno'' = Inr (JInt 1)"
  by (simp_all add: loginUsed_def loginWrong_def jsonAt_jsonSet jsonAt_loginAck)

lemma sendJson_effect: "sendJson B c js w = Inr w' \<longleftrightarrow> (\<exists>s. dumpJson (be_floats B) js = Inr s \<and> w' = effect (SendTo c s) w)"
  by (auto simp: sendJson_def bind_res_Inr_iff)

section \<open>Properties\<close>

text \<open>
  C27: A login that returns answers its connection once and nobody else. The answer says 0
  exactly when the user that \<^verbatim>\<open>UserModel::query\<close> returns, the row or, when there is none, the
  default \<^verbatim>\<open>User\<close> with the number -1 and the empty password, has the number and the password
  of the message and is not already online. Then one SUBSCRIBE for the user's channel, and no
  other command, has been handed to hiredis, whose answer is not looked at, and the connection is
  entered for the user unless there is an entry already, which \<^verbatim>\<open>insert\<close> keeps. A refused
  login, 1 or 2, leaves the entries alone and asks redis nothing.
\<close>

theorem login_answers_once:
  assumes "login B conn js w = Some (Inr w')"
    and "getInt B js ''id'' = Inr i" "getStr js ''password'' = Inr pwd" "userQuery B i w = Inr (u, w1)"
  shows "\<exists>r s. sends (ch_log w') = sends (ch_log w) @ [(conn, s)] \<and> dumpJson (be_floats B) r = Inr s \<and>
    jsonAt r ''msgid'' = Inr (JInt LOGIN_MSG_ACK) \<and>
    (if us_id u = i \<and> us_pwd u = pwd \<and> us_state u \<noteq> ''online''
     then successFor u r \<and> ch_conns w' = umInsert i conn (ch_conns w) \<and>
       commands (ch_log w') = commands (ch_log w) @ [(subscribeCmd i, rd_append B (ch_log w1) (subscribeCmd i))]
     else jsonAt r ''errno'' = Inr (JInt (if us_id u = i \<and> us_pwd u = pwd then 2 else 1)) \<and> ch_conns w' = ch_conns w \<and>
       commands (ch_log w') = commands (ch_log w))"
proof -
  from assms(4) have q: "quiet w w1" by (rule userQuery_quiet)
  note q1 = quiet_sends [OF q] quiet_commands [OF q] quiet_state [OF q]
  consider (good) "us_id u = i" "us_pwd u = pwd" "us_state u \<noteq> ''online''"
    | (used) "us_id u = i" "us_pwd u = pwd" "us_state u = ''online''"
    | (wrong) "\<not> (us_id u = i \<and> us_pwd u = pwd)" by blast
  then show ?thesis
  proof cases
    case good
    let ?w = "w1\<lparr>ch_conns := umInsert i conn (ch_conns w1)\<rparr>"
    let ?a = "effect (RedisAppend (subscribeCmd i) (rd_append B (ch_log ?w) (subscribeCmd i))) ?w"
    let ?u = "u\<lparr>us_state := ''online''\<rparr>"
    from assms good obtain ok w2 ok' w3 r w4 where s: "redisSubscribe B i ?w = Some (Inr (ok, w2))"
        "userUpdateState B ?u w2 = Inr (ok', w3)" "loginResponse B ?u w3 = Inr (r, w4)" "sendJson B conn r w4 = Inr w'"
      unfolding login_def Let_def by (auto simp: bind_run_Inr_iff)
    from s(4) obtain t where t: "dumpJson (be_floats B) r = Inr t" "w' = effect (SendTo conn t) w4"
      by (auto simp: sendJson_effect)
    from loginResponse_ok [OF s(3)] have r: "successFor ?u r" and "quiet w3 w4" by auto
    with redisSubscribe_asks [OF s(1)] userUpdateState_quiet [OF s(2)] have "quiet ?a w4" using quiet_trans by blast
    note q4 = quiet_sends [OF this] quiet_commands [OF this] quiet_state [OF this]
    have "successFor u r" using r by (simp add: successFor_def)
    with good t q1 q4 show ?thesis by (auto simp: successFor_def)
  next
    case used
    with assms obtain s where "dumpJson (be_floats B) loginUsed = Inr s" "w' = effect (SendTo conn s) w1"
      by (auto simp: login_def sendJson_effect)
    with used q1 show ?thesis
      by (intro exI [of _ loginUsed] exI [of _ s]) (simp add: refused_ack)
  next
    case wrong
    with assms obtain s where "dumpJson (be_floats B) loginWrong = Inr s" "w' = effect (SendTo conn s) w1"
      by (auto simp: login_def sendJson_effect)
    with wrong q1 show ?thesis
      by (intro exI [of _ loginWrong] exI [of _ s]) (auto simp: refused_ack)
  qed
qed

text \<open>A database with one user, 7, who is offline and has neither messages nor friends nor groups.\<close>

definition loginBackend :: backend where
  "loginBackend = sampleBackend\<lparr>rd_write := (\<lambda>log. Some 100), db_rows := (\<lambda>log. case log of
     DbStatement q ok # _ \<Rightarrow>
       if q = selectUserSql 7 then Some [[Some ''7'', Some ''ann'', Some ''pw'', Some ''offline'']] else Some []
   | _ \<Rightarrow> None)\<rparr>"

definition loginMessage :: json where
  "loginMessage = JObject [(''id'', JInt 7), (''msgid'', JInt 1), (''password'', JString ''pw'')]"

lemma loginBackend_simps:
  "db_connect loginBackend log" "db_exec loginBackend log q" "rd_append loginBackend log c" "rd_write loginBackend log = Some 100"
  "rd_length loginBackend = length" "be_floats loginBackend = plainFloats"
  "db_rows loginBackend (DbStatement q ok # log) =
     (if q = selectUserSql 7 then Some [[Some ''7'', Some ''ann'', Some ''pw'', Some ''offline'']] else Some [])"
  by (simp_all add: loginBackend_def sampleBackend_def)

definition annUser :: chat_user where
  "annUser = \<lparr>us_id = 7, us_name = ''ann'', us_pwd = ''pw'', us_state = ''offline''\<rparr>"

lemma login_user:
  "userQuery loginBackend 7 w = Inr (annUser, snd (dbQuery loginBackend (selectUserSql 7) w))"
  "userQuery loginBackend (-1) w = Inr (newUser, snd (dbQuery loginBackend (selectUserSql (-1)) w))"
proof -
  have i: "dumpInt 7 = ''7''" "dumpInt (-1) = ''-1''" "atoi ''7'' = Inr 7" by code_simp+
  then have "length (selectUserSql 7) < 1024" "length (selectUserSql (-1)) < 1024" "selectUserSql 7 \<noteq> selectUserSql (-1)"
    by (simp_all add: selectUserSql_def)
  then show "userQuery loginBackend 7 w = Inr (annUser, snd (dbQuery loginBackend (selectUserSql 7) w))"
    "userQuery loginBackend (-1) w = Inr (newUser, snd (dbQuery loginBackend (selectUserSql (-1)) w))"
    by (simp_all add: userQuery_def sqlText_def sqlBuf_def dbQuery_def mysqlConnect_def mysqlQuery_def loginBackend_simps
        Let_def userOfRow_def fieldInt_def fieldText_def i newUser_def annUser_def)
qed

lemma loginBackend_no_rows:
  assumes "length q < 1024" "q \<noteq> selectUserSql 7"
  shows "readAll f (dbQuery loginBackend q w) = Inr ([], snd (dbQuery loginBackend q w))"
    "dbQuery loginBackend q w = (Some [], snd (dbQuery loginBackend q w))"
  using assms by (simp_all add: dbQuery_def mysqlConnect_def mysqlQuery_def loginBackend_simps Let_def readAll_def)

lemma login_subscribes: "ch_sub w \<Longrightarrow> \<exists>ok w'. redisSubscribe loginBackend i w = Some (Inr (ok, w'))"
proof -
  assume "ch_sub w"
  moreover have "write_progresses loginBackend" by (simp add: write_progresses_def loginBackend_simps)
  ultimately show ?thesis
    using redis_command_returns [of loginBackend w "''SUBSCRIBE '' @ dumpInt i"] unfolding redisSubscribe_def by auto
qed

text \<open>User 7, or the user that a query without an answer gives.\<close>

lemma login_response:
  assumes "u = annUser \<or> u = newUser"
  shows "\<exists>r w' s. loginResponse loginBackend (u\<lparr>us_state := st\<rparr>) w = Inr (r, w') \<and> dumpJson plainFloats r = Inr s"
proof -
  have i: "dumpInt 7 = ''7''" "dumpInt 2 = ''2''" "dumpInt 0 = ''0''" "dumpInt (-1) = ''-1''" by code_simp+
  from assms show ?thesis
    by (elim disjE) (simp_all add: loginResponse_def annUser_def newUser_def offlineQuery_def friendQuery_def groupQuery_def sqlText_def sqlBuf_def
      loginBackend_no_rows(1) selectOfflineSql_def selectFriendsSql_def selectGroupsSql_def selectUserSql_def i
      loginAck_def LOGIN_MSG_ACK_def dumpString_ascii byte_def dquote_def backslash_def less_list_code)
qed

lemma loginBackend_logs_in:
  assumes u: "u = annUser \<or> u = newUser" and js: "getInt loginBackend js ''id'' = Inr (us_id u)" "getStr js ''password'' = Inr (us_pwd u)"
    and "ch_sub w"
  shows "\<exists>w'. login loginBackend c js w = Some (Inr w')"
proof -
  let ?w = "snd (dbQuery loginBackend (selectUserSql (us_id u)) w)"
  let ?v = "?w\<lparr>ch_conns := umInsert (us_id u) c (ch_conns ?w)\<rparr>"
  let ?u = "u\<lparr>us_state := ''online''\<rparr>"
  have q: "userQuery loginBackend (us_id u) w = Inr (u, ?w)" using u login_user by (auto simp: annUser_def newUser_def)
  have "ch_sub ?v" using \<open>ch_sub w\<close> quiet_state [OF userQuery_quiet [OF q]] by simp
  then obtain ok w2 where w2: "redisSubscribe loginBackend (us_id u) ?v = Some (Inr (ok, w2))"
    using login_subscribes [of ?v] by blast
  have "dumpInt 7 = ''7''" "dumpInt (-1) = ''-1''" by code_simp+
  then have "length (updateStateSql ?u) < sqlBuf" using u by (auto simp: updateStateSql_def annUser_def newUser_def cstr_def sqlBuf_def)
  then obtain ok' w3 where w3: "userUpdateState loginBackend ?u w2 = Inr (ok', w3)"
    by (cases "dbUpdate loginBackend (updateStateSql ?u) w2") (auto simp: userUpdateState_def sqlText_def)
  from login_response [OF u] obtain r w4 s where "loginResponse loginBackend ?u w3 = Inr (r, w4)" "dumpJson plainFloats r = Inr s" by blast
  moreover have "us_state u \<noteq> ''online''" using u by (auto simp: annUser_def newUser_def)
  ultimately show ?thesis using q js w2 w3
    by (simp add: login_def sendJson_def loginBackend_simps Let_def)
qed

theorem login_answers_once_witness:
  "\<exists>w' s. login loginBackend 5 loginMessage freshChat = Some (Inr w') \<and> sends (ch_log w') = [(5, s)] \<and> ch_conns w' = [(7, 5)] \<and>
     commands (ch_log w') = [(subscribeCmd 7, True)]"
proof -
  have m: "getInt loginBackend loginMessage ''id'' = Inr 7" "getStr loginMessage ''password'' = Inr ''pw''"
    by (simp_all add: getInt_def getStr_def jsonAt_def loginMessage_def jsonInt_def toInt32_def jsonStr_def)
  then obtain w' where w': "login loginBackend 5 loginMessage freshChat = Some (Inr w')"
    using loginBackend_logs_in [of annUser loginMessage freshChat 5] by (auto simp: annUser_def freshChat_def)
  show ?thesis using login_answers_once [OF w' m login_user(1)] w'
    by (auto simp: annUser_def umInsert_def umFind_def freshChat_def loginBackend_simps)
qed

end
