(* ===== verification/ChatServer.thy ===== *)
theory ChatServer
  imports ChatLogin
begin

text \<open>
  The server as a whole: the steps its threads take, one after the other, the states they
  reach, and what a closed connection or a missing redis does. The steps of different
  threads are taken to be atomic here; what happens when they are not is the subject of the
  theory on the lock.
\<close>

section \<open>Putting it together\<close>

text \<open>What \<^verbatim>\<open>main\<close> and the constructor of \<^verbatim>\<open>ChatServer\<close> ask of the external muduo, the latest first.\<close>

datatype wiring =
    OnInterrupt
  | MakeServer string "16 word" string
  | SetConnectionCallback
  | SetMessageCallback
  | SetThreadNum int
  | StartServer
  | RunLoop

definition newChatServer :: "string \<Rightarrow> 16 word \<Rightarrow> string \<Rightarrow> wiring list \<Rightarrow> wiring list" where
  "newChatServer ip port nm log =
     SetThreadNum 2 # SetMessageCallback # SetConnectionCallback # MakeServer ip port nm # log"

definition chatServerStart :: "wiring list \<Rightarrow> wiring list" where
  "chatServerStart log = StartServer # log"

definition chatServerMain :: "string list \<Rightarrow> fault + wiring list" where
  "chatServerMain argv =
     bind_res (serverMain argv) (\<lambda>(ip, port).
     Inr (RunLoop # chatServerStart (newChatServer ip port ''ChatServer'' [OnInterrupt])))"

section \<open>Steps\<close>

inductive server_step :: "backend \<Rightarrow> chat \<Rightarrow> chat \<Rightarrow> bool" for B where
  message: "serverOnMessage B conn buf w = Some (Inr w') \<Longrightarrow> server_step B w w'"
| connection: "serverOnConnection B up conn w = Some (Inr w') \<Longrightarrow> server_step B w w'"
| notification: "handlerRedisSubscribeMessage B i msg w = Inr w' \<Longrightarrow> server_step B w w'"

inductive_cases server_stepE: "server_step B w w'"

inductive server_reaches :: "backend \<Rightarrow> chat \<Rightarrow> bool" for B where
  start: "server_reaches B (newChatService B)"
| step: "server_reaches B w \<Longrightarrow> server_step B w w' \<Longrightarrow> server_reaches B w'"

section \<open>How the handlers change the state\<close>

text \<open>Only the log has grown, by the commands \<open>cs\<close> to redis and by other effects.\<close>

definition grows :: "(string \<times> bool) list \<Rightarrow> chat \<Rightarrow> chat \<Rightarrow> bool" where
  "grows cs w w' \<longleftrightarrow> (\<exists>es. w' = logged es w \<and> commands es = cs)"

abbreviation logs :: "chat \<Rightarrow> chat \<Rightarrow> bool" where
  "logs \<equiv> grows []"

lemma logs_refl [simp]: "logs w w"
  by (auto simp: grows_def logged_def intro: exI [of _ "[]"])

lemma grows_effect: "commands [e] = cs \<Longrightarrow> grows cs w (effect e w)"
  by (auto simp: grows_def effect_logged)

lemma logs_effect [simp]: "logs w (effect (SendTo c s) w)" "logs w (effect (ShutdownConn c) w)"
  by (rule grows_effect, simp)+

lemma grows_trans: "grows cs w w1 \<Longrightarrow> grows ds w1 w2 \<Longrightarrow> grows (cs @ ds) w w2"
  by (auto simp: grows_def logged_logged)

lemma logs_trans: "logs w w1 \<Longrightarrow> logs w1 w2 \<Longrightarrow> logs w w2"
  using grows_trans by fastforce

lemma quiet_logs: "quiet w w' \<Longrightarrow> logs w w'"
  by (auto simp: quiet_def grows_def)

lemma asks_grows: "quiet (effect (RedisAppend c ok) w) w' \<Longrightarrow> grows [(c, ok)] w w'"
  using grows_trans [OF grows_effect quiet_logs, of "RedisAppend c ok" "[(c, ok)]" w w'] by simp

lemma sendJson_logs: "sendJson B c js w = Inr w' \<Longrightarrow> logs w w'"
  by (auto simp: sendJson_effect)

lemmas models_log = models_quiet [THEN quiet_logs] sendJson_logs

lemma forward_logs: "forward B i js w = Inr w' \<Longrightarrow> logs w w'"
proof (cases "umFind i (ch_conns w)")
  case (Some c)
  then show "forward B i js w = Inr w' \<Longrightarrow> logs w w'" by (auto simp: forward_def dest: models_log)
next
  case None
  assume "forward B i js w = Inr w'"
  with None obtain u w1 s where u: "userQuery B i w = Inr (u, w1)"
      "(if us_state u = ''online'' then bind_res (redisPublish B i s w1) (\<lambda>(ok, w). Inr w) else offlineInsert B i s w1) = Inr w'"
    by (auto simp: forward_def bind_res_Inr_iff)
  from u(2) have "logs w1 w'" by (auto simp: bind_res_Inr_iff split: if_splits dest: models_log)
  with u(1) models_log(2) logs_trans show "logs w w'" by blast
qed

lemma forwardAll_logs: "forwardAll B is js w = Inr w' \<Longrightarrow> logs w w'"
  by (induction "is" arbitrary: w) (auto simp: bind_res_Inr_iff dest!: forward_logs intro: logs_trans)

text \<open>The table of connections, as the handlers change it, with the command that goes with the change.\<close>

definition subscribed :: "effect list \<Rightarrow> int \<Rightarrow> bool" where
  "subscribed log i \<longleftrightarrow> (\<exists>ok. RedisAppend (''SUBSCRIBE '' @ dumpInt i) ok \<in> set log)"

inductive conns_change :: "nat \<Rightarrow> chat \<Rightarrow> chat \<Rightarrow> bool" for conn where
  keep: "logs w w' \<Longrightarrow> conns_change conn w w'"
| enter: "grows [(subscribeCmd i, ok)] (w\<lparr>ch_conns := umInsert i conn (ch_conns w)\<rparr>) w' \<Longrightarrow> conns_change conn w w'"
| leave: "grows [(unsubscribeCmd i, ok)] (w\<lparr>ch_conns := umErase i (ch_conns w)\<rparr>) w' \<Longrightarrow> conns_change conn w w'"
| unknown: "grows [(unsubscribeCmd (-1), ok)] w w' \<Longrightarrow> conns_change conn w w'"

lemma grows_conns: "grows cs w w1 \<Longrightarrow> grows ds (w1\<lparr>ch_conns := m\<rparr>) w' \<Longrightarrow> grows (cs @ ds) (w\<lparr>ch_conns := m\<rparr>) w'"
  unfolding grows_def logged_def by clarsimp (metis append_assoc commands_simps(2))

lemma grows_subscribed: "grows cs w w' \<Longrightarrow> (subscribeCmd i, ok) \<in> set cs \<Longrightarrow> subscribed (ch_log w') i"
  by (auto simp: subscribed_def grows_def in_commands)

lemma grows_state: "grows cs w w' \<Longrightarrow> ch_conns w' = ch_conns w \<and> ch_pub w' = ch_pub w \<and> ch_sub w' = ch_sub w \<and>
    ch_notify w' = ch_notify w \<and> commands (ch_log w') = commands (ch_log w) @ cs"
  by (auto simp: grows_def)

text \<open>What \<open>login\<close> asks for before it enters the connection.\<close>

definition acceptsLogin :: "backend \<Rightarrow> json \<Rightarrow> chat \<Rightarrow> int \<Rightarrow> bool" where
  "acceptsLogin B js w i \<longleftrightarrow>
     (\<exists>u w1. getInt B js ''id'' = Inr i \<and> userQuery B i w = Inr (u, w1) \<and> us_id u = i \<and>
        getStr js ''password'' = Inr (us_pwd u) \<and> us_state u \<noteq> ''online'')"

lemma login_cases:
  assumes "login B conn js w = Some (Inr w')"
  shows "\<not> (\<exists>i. acceptsLogin B js w i) \<and> logs w w' \<or>
    (\<exists>i ok. acceptsLogin B js w i \<and> grows [(subscribeCmd i, ok)] (w\<lparr>ch_conns := umInsert i conn (ch_conns w)\<rparr>) w')"
proof -
  from assms obtain i pwd u w1 where b: "getInt B js ''id'' = Inr i" "getStr js ''password'' = Inr pwd"
      "userQuery B i w = Inr (u, w1)"
    unfolding login_def by (auto simp: bind_run_Inr_iff)
  have q: "logs w w1" using b(3) by (rule models_log)
  show ?thesis
  proof (cases "us_id u = i \<and> us_pwd u = pwd \<and> us_state u \<noteq> ''online''")
    case True
    let ?w = "w1\<lparr>ch_conns := umInsert i conn (ch_conns w1)\<rparr>"
    from assms b True obtain ok w2 ok' w3 r w4 where s: "redisSubscribe B i ?w = Some (Inr (ok, w2))"
        "userUpdateState B (u\<lparr>us_state := ''online''\<rparr>) w2 = Inr (ok', w3)"
        "loginResponse B (u\<lparr>us_state := ''online''\<rparr>) w3 = Inr (r, w4)" "sendJson B conn r w4 = Inr w'"
      unfolding login_def Let_def by (auto simp: bind_run_Inr_iff)
    from s loginResponse_ok [OF s(3)] have "logs w2 w3" "logs w3 w4" "logs w4 w'"
      by (auto dest: models_log quiet_logs)
    then have "logs w2 w'" using logs_trans by blast
    with asks_grows [OF redisSubscribe_asks [OF s(1)]] obtain ok where "grows [(subscribeCmd i, ok)] ?w w'"
      using grows_trans by fastforce
    with q grows_state [OF q] have "grows [(subscribeCmd i, ok)] (w\<lparr>ch_conns := umInsert i conn (ch_conns w)\<rparr>) w'"
      using grows_conns by fastforce
    with True b show ?thesis by (auto simp: acceptsLogin_def)
  next
    case False
    with assms b have "sendJson B conn loginUsed w1 = Inr w' \<or> sendJson B conn loginWrong w1 = Inr w'"
      unfolding login_def by (auto simp: bind_run_Inr_iff split: if_splits)
    then have "logs w1 w'" using sendJson_logs by blast
    with q have "logs w w'" using logs_trans by blast
    moreover have "\<not> acceptsLogin B js w k" for k using False b by (auto simp: acceptsLogin_def)
    ultimately show ?thesis by blast
  qed
qed

lemma login_change: "login B conn js w = Some (Inr w') \<Longrightarrow> conns_change conn w w'"
  using login_cases by (blast intro: conns_change.keep conns_change.enter)

lemma loginout_erases:
  assumes "loginout B conn js w = Some (Inr w')"
  shows "\<exists>i ok. getInt B js ''id'' = Inr i \<and> grows [(unsubscribeCmd i, ok)] (w\<lparr>ch_conns := umErase i (ch_conns w)\<rparr>) w'"
proof -
  from assms obtain i ok w1 ok' where s: "getInt B js ''id'' = Inr i"
      "redisUnsubscribe B i (w\<lparr>ch_conns := umErase i (ch_conns w)\<rparr>) = Some (Inr (ok, w1))"
      "userUpdateState B (newUser\<lparr>us_id := i\<rparr>) w1 = Inr (ok', w')"
    unfolding loginout_def Let_def by (auto simp: bind_run_Inr_iff)
  from s(3) have "logs w1 w'" by (rule models_log)
  with asks_grows [OF redisUnsubscribe_asks [OF s(2)]] s(1) show ?thesis using grows_trans by fastforce
qed

lemma loginout_change: "loginout B conn js w = Some (Inr w') \<Longrightarrow> conns_change conn w w'"
  using loginout_erases by (blast intro: conns_change.leave)

lemma others_log:
  "reg B conn js w = Some (Inr w') \<Longrightarrow> logs w w'"
  "oneChat B conn js w = Some (Inr w') \<Longrightarrow> logs w w'"
  "addFriend B conn js w = Some (Inr w') \<Longrightarrow> logs w w'"
  "creatGroup B conn js w = Some (Inr w') \<Longrightarrow> logs w w'"
  "addGroup B conn js w = Some (Inr w') \<Longrightarrow> logs w w'"
  "groupChat B conn js w = Some (Inr w') \<Longrightarrow> logs w w'"
  by (auto simp: reg_def oneChat_def addFriend_def creatGroup_def addGroup_def groupChat_def bind_run_Inr_iff
      split: if_splits dest!: models_log forward_logs forwardAll_logs intro: logs_trans)

lemmas others_change = others_log [THEN conns_change.keep]

lemma getHandler_cases:
  assumes "getHandler B msgid conn js w = r"
  obtains "r = login B conn js w" | "r = reg B conn js w" | "r = oneChat B conn js w" | "r = addFriend B conn js w"
    | "r = creatGroup B conn js w" | "r = addGroup B conn js w" | "r = groupChat B conn js w" | "r = loginout B conn js w"
    | "r = Some (Inr w)"
  using assms by (auto simp: getHandler_def msgHandlerMap_def split: if_splits)

lemma message_change:
  assumes "serverOnMessage B conn buf w = Some (Inr w')"
  shows "conns_change conn w w'"
proof -
  from assms obtain js msgid where "getHandler B msgid conn js w = Some (Inr w')"
    unfolding serverOnMessage_def by (auto simp: bind_run_Inr_iff)
  then show ?thesis
    by (cases rule: getHandler_cases) (auto intro: login_change loginout_change others_change conns_change.keep)
qed

section \<open>Closing\<close>

text \<open>The entry \<open>clientCloseException\<close> finds: the first of the connection, in the order of the map.\<close>

definition closeEntry :: "backend \<Rightarrow> nat \<Rightarrow> (int \<times> nat) list \<Rightarrow> (int \<times> nat) option" where
  "closeEntry B conn m = List.find (\<lambda>(k, c). c = conn) (um_order B m)"

lemma closeEntry_Some: "closeEntry B conn m = Some (k, c) \<Longrightarrow> c = conn \<and> (k, c) \<in> set (um_order B m)"
  by (auto simp: closeEntry_def find_Some_iff dest: nth_mem)

lemma closeEntry_None: "closeEntry B conn m = None \<Longrightarrow> (k, conn) \<notin> set (um_order B m)"
  by (auto simp: closeEntry_def find_None_iff)

definition withoutEntry :: "(int \<times> nat) option \<Rightarrow> (int \<times> nat) list \<Rightarrow> (int \<times> nat) list" where
  "withoutEntry e m = (case e of None \<Rightarrow> m | Some (k, c) \<Rightarrow> umErase k m)"

text \<open>What the entry's user, or -1 without an entry, is unsubscribed from.\<close>

definition closeUser :: "(int \<times> nat) option \<Rightarrow> int" where
  "closeUser e = (case e of None \<Rightarrow> - 1 | Some (k, c) \<Rightarrow> k)"

lemma close_effect:
  assumes "clientCloseException B conn w = Some (Inr w')"
  shows "\<exists>ok. quiet (effect (RedisAppend (unsubscribeCmd (closeUser (closeEntry B conn (ch_conns w)))) ok)
      (w\<lparr>ch_conns := withoutEntry (closeEntry B conn (ch_conns w)) (ch_conns w)\<rparr>)) w'"
proof -
  let ?e = "closeEntry B conn (ch_conns w)"
  let ?w = "w\<lparr>ch_conns := withoutEntry ?e (ch_conns w)\<rparr>"
  define i where "i = closeUser ?e"
  have w: "(case ?e of None \<Rightarrow> w | Some (k, c) \<Rightarrow> w\<lparr>ch_conns := umErase k (ch_conns w)\<rparr>) = ?w"
    by (simp add: withoutEntry_def split: option.splits prod.splits)
  from assms obtain ok w1 where s: "redisUnsubscribe B i ?w = Some (Inr (ok, w1))"
      "(if i \<noteq> - 1 then bind_run (Some (userUpdateState B (newUser\<lparr>us_id := i, us_state := ''offline''\<rparr>) w1)) (\<lambda>(ok, w). Some (Inr w))
        else Some (Inr w1)) = Some (Inr w')"
    unfolding clientCloseException_def Let_def closeEntry_def [symmetric] w closeUser_def [symmetric] i_def [symmetric]
    by (auto simp: bind_run_Inr_iff)
  from s(2) have "quiet w1 w'" by (auto simp: bind_run_Inr_iff split: if_splits dest: models_quiet)
  with redisUnsubscribe_asks [OF s(1)] have "quiet (effect (RedisAppend (unsubscribeCmd i)
      (rd_append B (ch_log ?w) (unsubscribeCmd i))) ?w) w'" by (rule quiet_trans)
  then show ?thesis by (auto simp: i_def)
qed

lemma connection_change:
  assumes "serverOnConnection B up conn w = Some (Inr w')"
  shows "conns_change conn w w'"
proof (cases up)
  case True
  with assms show ?thesis by (simp add: serverOnConnection_def conns_change.keep)
next
  case False
  let ?e = "closeEntry B conn (ch_conns w)"
  from False assms obtain w1 where w1: "clientCloseException B conn w = Some (Inr w1)" "w' = effect (ShutdownConn conn) w1"
    by (auto simp: serverOnConnection_def bind_run_Inr_iff)
  from close_effect [OF w1(1)] obtain ok where
    "grows [(unsubscribeCmd (closeUser ?e), ok)] (w\<lparr>ch_conns := withoutEntry ?e (ch_conns w)\<rparr>) w1"
    using asks_grows by blast
  then have l: "grows [(unsubscribeCmd (closeUser ?e), ok)] (w\<lparr>ch_conns := withoutEntry ?e (ch_conns w)\<rparr>) w'"
    using grows_trans [OF _ logs_effect(2) [of w1 conn]] w1(2) by fastforce
  show ?thesis
  proof (cases ?e)
    case None
    with l show ?thesis by (intro conns_change.unknown) (simp add: withoutEntry_def closeUser_def)
  next
    case (Some e)
    with l show ?thesis by (cases e) (auto simp: withoutEntry_def closeUser_def intro: conns_change.leave)
  qed
qed

lemma notification_logs: "handlerRedisSubscribeMessage B i msg w = Inr w' \<Longrightarrow> logs w w'"
  by (auto simp: handlerRedisSubscribeMessage_def split: option.splits dest: models_log)

section \<open>The invariant\<close>

text \<open>The last command about the channel of user \<open>i\<close> is a SUBSCRIBE.\<close>

definition wanted :: "int \<Rightarrow> (string \<times> bool) list \<Rightarrow> bool" where
  "wanted i cs \<longleftrightarrow> (\<exists>xs ok ys. cs = xs @ (subscribeCmd i, ok) # ys \<and> unsubscribeCmd i \<notin> fst ` set ys)"

lemma wanted_now: "wanted i (cs @ [(subscribeCmd i, ok)])"
  unfolding wanted_def by fastforce

lemma wanted_later: "wanted i cs \<Longrightarrow> unsubscribeCmd i \<notin> fst ` set ds \<Longrightarrow> wanted i (cs @ ds)"
proof -
  assume "wanted i cs" "unsubscribeCmd i \<notin> fst ` set ds"
  then obtain xs ok ys where "cs = xs @ (subscribeCmd i, ok) # ys" "unsubscribeCmd i \<notin> fst ` set ys"
    unfolding wanted_def by blast
  with \<open>unsubscribeCmd i \<notin> fst ` set ds\<close> show ?thesis
    unfolding wanted_def by (intro exI [of _ xs] exI [of _ ok] exI [of _ "ys @ ds"]) auto
qed

definition server_inv :: "chat \<Rightarrow> bool" where
  "server_inv w \<longleftrightarrow> distinct (map fst (ch_conns w)) \<and>
     (\<forall>(i, c) \<in> set (ch_conns w). i \<noteq> - 1 \<longrightarrow> wanted i (commands (ch_log w))) \<and>
     (ch_notify w \<longleftrightarrow> ch_sub w) \<and> (ch_sub w \<longrightarrow> ch_pub w)"

lemma distinct_umInsert: "distinct (map fst m) \<Longrightarrow> distinct (map fst (umInsert k c m))"
  by (auto simp: umInsert_def umFind_def map_of_eq_None_iff)

lemma in_umErase: "(k, c) \<in> set (umErase i m) \<Longrightarrow> (k, c) \<in> set m"
  by (auto simp: umErase_def)

lemma distinct_umErase: "distinct (map fst m) \<Longrightarrow> distinct (map fst (umErase k m))"
  by (induction m) (auto simp: umErase_def)

text \<open>An entry keeps its SUBSCRIBE as long as the commands that follow are about others.\<close>

lemma inv_grows:
  assumes "grows cs (w\<lparr>ch_conns := m\<rparr>) w'" "server_inv w" "distinct (map fst m)"
    and "\<And>i c. (i, c) \<in> set m \<Longrightarrow> i \<noteq> - 1 \<Longrightarrow>
      (i, c) \<in> set (ch_conns w) \<and> unsubscribeCmd i \<notin> fst ` set cs \<or> (\<exists>ok. cs = [(subscribeCmd i, ok)])"
  shows "server_inv w'"
proof -
  from grows_state [OF assms(1)] have s: "ch_conns w' = m" "ch_pub w' = ch_pub w" "ch_sub w' = ch_sub w"
      "ch_notify w' = ch_notify w" "commands (ch_log w') = commands (ch_log w) @ cs" by simp_all
  have "wanted i (commands (ch_log w'))" if "(i, c) \<in> set m" "i \<noteq> - 1" for i c
    using assms(4) [OF that] assms(2) s(5) wanted_later wanted_now that(2) by (auto simp: server_inv_def)
  with s assms(2,3) show ?thesis by (auto simp: server_inv_def)
qed

lemma inv_logs: "server_inv w \<Longrightarrow> logs w w' \<Longrightarrow> server_inv w'"
  using inv_grows [where cs = "[]" and m = "ch_conns w" and w = w and w' = w'] by (auto simp: server_inv_def)

lemma dumpInt_eq: "dumpInt i = dumpInt j \<longleftrightarrow> i = j"
  by (auto dest: dumpInt_inj)

lemma inv_change:
  assumes "conns_change conn w w'" "server_inv w"
  shows "server_inv w'"
  using assms
proof cases
  case keep
  from inv_logs [OF assms(2) keep] show ?thesis .
next
  case (enter i ok)
  have "distinct (map fst (umInsert i conn (ch_conns w)))" using assms(2) by (simp add: server_inv_def distinct_umInsert)
  then show ?thesis
    by (intro inv_grows [OF enter assms(2)]) (auto simp: umInsert_def split: if_splits)
next
  case (leave i ok)
  have "distinct (map fst (umErase i (ch_conns w)))" using assms(2) by (simp add: server_inv_def distinct_umErase)
  then show ?thesis
    by (intro inv_grows [OF leave assms(2)]) (auto simp: umErase_def dumpInt_eq)
next
  case (unknown ok)
  then have "grows [(unsubscribeCmd (- 1), ok)] (w\<lparr>ch_conns := ch_conns w\<rparr>) w'" by simp
  from inv_grows [OF this assms(2)] assms(2) show ?thesis by (auto simp: server_inv_def dumpInt_eq)
qed

lemma inv_step: "server_step B w w' \<Longrightarrow> server_inv w \<Longrightarrow> server_inv w'"
  by (elim server_stepE) (blast intro: inv_change message_change connection_change conns_change.keep notification_logs)+

lemma inv_start: "server_inv (newChatService B)"
  by (simp add: server_inv_def newChatService_def redisConnect_def init_notify_handler_def Let_def)

section \<open>Properties\<close>


text \<open>A message with an identifier and a password, on the database with one user.\<close>

lemma loginMessage_fields:
  "getInt loginBackend loginMessage ''msgid'' = Inr LOGIN_MSG"
  "getInt loginBackend loginMessage ''id'' = Inr 7" "getStr loginMessage ''password'' = Inr ''pw''"
  by (simp_all add: getInt_def getStr_def jsonAt_def loginMessage_def jsonInt_def toInt32_def jsonStr_def LOGIN_MSG_def)

lemma loginMessage_text: "\<exists>s. dumpJson plainFloats loginMessage = Inr s \<and> parseJson plainFloats s = Inr loginMessage"
proof -
  have i: "dumpInt 7 = ''7''" "dumpInt 1 = ''1''" by code_simp+
  then obtain s where s: "dumpJson plainFloats loginMessage = Inr s"
    by (simp add: loginMessage_def dumpString_ascii byte_def dquote_def backslash_def)
  moreover have "json_ok loginMessage" by (simp add: loginMessage_def less_list_code)
  ultimately show ?thesis using parse_dumped [of loginMessage plainFloats s "[]"] by simp
qed

text \<open>The server with that database after the message.\<close>

lemma server_after_login:
  obtains s w where "dumpJson plainFloats loginMessage = Inr s" "parseJson plainFloats s = Inr loginMessage"
    "serverOnMessage loginBackend 5 s (newChatService loginBackend) = Some (Inr w)" "ch_conns w = [(7, 5)]"
proof -
  from loginMessage_text obtain s where s: "dumpJson plainFloats loginMessage = Inr s" "parseJson plainFloats s = Inr loginMessage" by blast
  let ?w = "newChatService loginBackend"
  have w: "ch_sub ?w" "ch_conns ?w = []"
    by (simp_all add: newChatService_def redisConnect_def init_notify_handler_def Let_def loginBackend_def sampleBackend_def)
  then obtain w' where l: "login loginBackend 5 loginMessage ?w = Some (Inr w')"
    using loginBackend_logs_in [of annUser loginMessage ?w 5] loginMessage_fields by (auto simp: annUser_def)
  then have r: "serverOnMessage loginBackend 5 s ?w = Some (Inr w')"
    by (simp add: serverOnMessage_def s loginBackend_simps loginMessage_fields getHandler_def msgHandlerMap_def)
  have "acceptsLogin loginBackend loginMessage ?w 7"
    unfolding acceptsLogin_def using login_user(1) [of ?w] loginMessage_fields by (auto simp: annUser_def)
  with login_cases [OF l] loginMessage_fields have "ch_conns w' = [(7, 5)]"
    by (auto simp: acceptsLogin_def w umInsert_def umFind_def dest!: grows_state)
  from that [OF s r this] show thesis .
qed


lemma umErase_one:
  "distinct (map fst m) \<Longrightarrow> (k, c) \<in> set m \<Longrightarrow> mset m = add_mset (k, c) (mset (umErase k m))"
proof (induction m)
  case (Cons e m)
  show ?case
  proof (cases "e = (k, c)")
    case True
    with Cons.prems(1) have "\<forall>(k', c') \<in> set m. k' \<noteq> k" by force
    then have "umErase k m = m" by (auto simp: umErase_def filter_id_conv)
    with True show ?thesis by (simp add: umErase_def)
  next
    case False
    with Cons.prems have "fst e \<noteq> k" by (cases e) force
    moreover from False Cons have "mset m = add_mset (k, c) (mset (umErase k m))" by simp
    ultimately show ?thesis by (cases e) (simp add: umErase_def)
  qed
qed simp

text \<open>
  C36: When a connection goes down, exactly one of the users entered for it leaves the table, if
  there is one; nothing is sent, and then the connection is shut down. A connection on which
  two users have logged in therefore leaves an entry behind that nothing removes: later
  messages for that user are sent to a closed connection.
\<close>

theorem close_forgets_one_entry:
  assumes "serverOnConnection B False conn w = Some (Inr w')" "distinct (map fst (ch_conns w))"
    and "\<forall>m. mset (um_order B m) = mset m"
  shows "(if conn \<in> snd ` set (ch_conns w)
      then \<exists>k. mset (ch_conns w) = add_mset (k, conn) (mset (ch_conns w'))
      else ch_conns w' = ch_conns w) \<and>
    (\<exists>log. ch_log w' = ShutdownConn conn # log) \<and> sends (ch_log w') = sends (ch_log w)"
proof -
  let ?e = "closeEntry B conn (ch_conns w)"
  from assms(1) obtain w1 where w1: "clientCloseException B conn w = Some (Inr w1)" "w' = effect (ShutdownConn conn) w1"
    by (auto simp: serverOnConnection_def bind_run_Inr_iff)
  from close_effect [OF w1(1)] obtain ok where q: "quiet (effect (RedisAppend (unsubscribeCmd (closeUser ?e)) ok)
      (w\<lparr>ch_conns := withoutEntry ?e (ch_conns w)\<rparr>)) w1" by blast
  from quiet_state [OF q] quiet_sends [OF q] w1(2)
  have w': "ch_conns w' = withoutEntry ?e (ch_conns w)" "ch_log w' = ShutdownConn conn # ch_log w1" "sends (ch_log w1) = sends (ch_log w)"
    by simp_all
  have "set (um_order B (ch_conns w)) = set (ch_conns w)" using assms(3) by (metis set_mset_mset)
  then have "if conn \<in> snd ` set (ch_conns w)
      then \<exists>k. mset (ch_conns w) = add_mset (k, conn) (mset (ch_conns w')) else ch_conns w' = ch_conns w"
    using closeEntry_Some [of B conn "ch_conns w"] closeEntry_None [of B conn "ch_conns w"] umErase_one [OF assms(2)]
    by (cases ?e) (force simp: w'(1) withoutEntry_def)+
  moreover have "sends (ch_log w') = sends (ch_log w)" using w'(2,3) by (simp add: sends_def)
  ultimately show ?thesis using w'(2) by blast
qed

definition twoLogins :: chat where
  "twoLogins = freshChat\<lparr>ch_conns := [(7, 5), (8, 5)]\<rparr>"

lemma twoLogins_close: "\<exists>w. serverOnConnection sampleBackend False 5 twoLogins = Some (Inr w)"
proof -
  let ?w = "twoLogins\<lparr>ch_conns := [(8, 5)]\<rparr>"
  have f: "List.find (\<lambda>(k, c). c = 5) (um_order sampleBackend (ch_conns twoLogins)) = Some (7, 5)"
    by (simp add: twoLogins_def sampleBackend_def)
  have m: "umErase 7 (ch_conns twoLogins) = [(8, 5)]" by (simp add: twoLogins_def umErase_def)
  let ?c = "''UNSUBSCRIBE '' @ dumpInt 7"
  obtain ok ws where "redisFlush sampleBackend (effect (RedisAppend ?c True) ?w) = Some (ok, afterWrites ws (effect (RedisAppend ?c True) ?w))"
    using redisFlush_returns [OF sampleBackend_progresses] by blast
  then obtain ok w1 where r: "redisUnsubscribe sampleBackend 7 ?w = Some (Inr (ok, w1))"
    by (simp add: redisUnsubscribe_def redisCommand_def twoLogins_def freshChat_def Let_def sampleBackend_def)
  have i: "dumpInt 7 = ''7''" by code_simp
  obtain ok' w2 where "userUpdateState sampleBackend (newUser\<lparr>us_id := 7, us_state := ''offline''\<rparr>) w1 = Inr (ok', w2)"
    by (cases "dbUpdate sampleBackend (updateStateSql (newUser\<lparr>us_id := 7, us_state := ''offline''\<rparr>)) w1")
      (auto simp: userUpdateState_def sqlText_def sqlBuf_def updateStateSql_def i cstr_def)
  with r show ?thesis by (simp add: serverOnConnection_def clientCloseException_def f m Let_def)
qed

theorem close_forgets_one_entry_witness:
  "\<exists>w k. serverOnConnection sampleBackend False 5 twoLogins = Some (Inr w) \<and> ch_conns w = [(k, 5)]"
proof -
  obtain w where w: "serverOnConnection sampleBackend False 5 twoLogins = Some (Inr w)" using twoLogins_close by blast
  have "distinct (map fst (ch_conns twoLogins))" "\<forall>m. mset (um_order sampleBackend m) = mset m"
    by (simp_all add: twoLogins_def sampleBackend_def)
  from close_forgets_one_entry [OF w this] obtain k where "add_mset (7, 5) {#(8, 5)#} = add_mset (k, 5) (mset (ch_conns w))"
    by (auto simp: twoLogins_def)
  then have "mset (ch_conns w) = {#(8, 5)#} \<or> mset (ch_conns w) = {#(7, 5)#}"
    by (auto simp: add_eq_conv_ex)
  then have "\<exists>k. ch_conns w = [(k, 5)]" by auto
  with w show ?thesis by blast
qed

text \<open>
  C40: Without redis the server works until the first connection closes: when the subscribing
  context could not be made at the start, no state the server reaches has one, and every
  closed connection, every logout and every successful login dereferences the null context.
\<close>

theorem without_redis_a_close_crashes:
  assumes "server_reaches B w" "\<not> ch_sub (newChatService B)"
  shows "serverOnConnection B False conn w = Some (Inl NullDeref) \<and>
    (getInt B js ''id'' = Inr i \<longrightarrow> loginout B conn js w = Some (Inl NullDeref))"
proof -
  have same: "ch_sub w' = ch_sub w" if c: "conns_change c w w'" for c w w'
    using c by cases (auto dest: grows_state)
  have step: "ch_sub w' = ch_sub w" if "server_step B w w'" for w w'
    using that
  proof cases
    case (message conn buf)
    then show ?thesis by (rule same [OF message_change])
  next
    case (connection up conn)
    then show ?thesis by (rule same [OF connection_change])
  next
    case (notification i msg)
    then show ?thesis by (rule same [OF conns_change.keep [OF notification_logs]])
  qed
  from assms(1) have "\<not> ch_sub w" by induction (use assms(2) step in auto)
  then show ?thesis
    by (auto simp: serverOnConnection_def clientCloseException_def loginout_def redisUnsubscribe_def redisCommand_def Let_def
        split: option.splits)
qed

theorem without_redis_a_close_crashes_witness:
  "\<exists>w. server_reaches (sampleBackend\<lparr>rd_connect := (\<lambda>log. False)\<rparr>) w \<and>
     serverOnConnection (sampleBackend\<lparr>rd_connect := (\<lambda>log. False)\<rparr>) False 5 w = Some (Inl NullDeref)"
proof -
  let ?B = "sampleBackend\<lparr>rd_connect := (\<lambda>log. False)\<rparr>"
  have "\<not> ch_sub (newChatService ?B)" by (simp add: newChatService_def redisConnect_def Let_def)
  with without_redis_a_close_crashes [OF server_reaches.start [of ?B]] show ?thesis
    using server_reaches.start by blast
qed

end
