(* ===== verification/ChatAuth.thy ===== *)
theory ChatAuth
  imports ChatServer
begin

text \<open>
  Who may speak for whom: the server along the messages it has handled, where the entries of the
  table of connections come from, and what the handlers do not ask.
\<close>

section \<open>Runs with their events\<close>

datatype server_event = Got nat string | Changed bool nat | Notified int string

inductive server_run :: "backend \<Rightarrow> server_event list \<Rightarrow> chat \<Rightarrow> bool" for B where
  start: "server_run B [] (newChatService B)"
| got: "server_run B es w \<Longrightarrow> serverOnMessage B conn buf w = Some (Inr w') \<Longrightarrow> server_run B (es @ [Got conn buf]) w'"
| changed: "server_run B es w \<Longrightarrow> serverOnConnection B up conn w = Some (Inr w') \<Longrightarrow> server_run B (es @ [Changed up conn]) w'"
| notified: "server_run B es w \<Longrightarrow> handlerRedisSubscribeMessage B i msg w = Inr w' \<Longrightarrow> server_run B (es @ [Notified i msg]) w'"

lemma server_run_reaches: "server_run B es w \<Longrightarrow> server_reaches B w"
  by (induction rule: server_run.induct)
    (blast intro: server_reaches.intros server_step.intros)+

section \<open>Where entries come from\<close>

text \<open>
  A message that logs user \<open>i\<close> in, when it is handled in state \<open>w\<close>: it has the number and
  the password of the row that the database gives for \<open>i\<close>, which is not online; or the
  database gives no row, and the message has the number and the password of a default \<^verbatim>\<open>User\<close>.
\<close>

definition loginFor :: "backend \<Rightarrow> string \<Rightarrow> chat \<Rightarrow> int \<Rightarrow> bool" where
  "loginFor B buf w i \<longleftrightarrow>
     (\<exists>js pwd. parseJson (be_floats B) buf = Inr js \<and> getInt B js ''msgid'' = Inr LOGIN_MSG \<and>
        getInt B js ''id'' = Inr i \<and> getStr js ''password'' = Inr pwd \<and>
        (case fst (dbQuery B (selectUserSql i) w) of
           Some (row # rows) \<Rightarrow> \<exists>u. userOfRow row = Inr u \<and> us_id u = i \<and> us_pwd u = pwd \<and> us_state u \<noteq> ''online''
         | _ \<Rightarrow> i = -1 \<and> pwd = []))"

lemma accepted_user:
  assumes "acceptsLogin B js w i"
  shows "\<exists>pwd. getInt B js ''id'' = Inr i \<and> getStr js ''password'' = Inr pwd \<and>
    (case fst (dbQuery B (selectUserSql i) w) of
       Some (row # rows) \<Rightarrow> \<exists>u. userOfRow row = Inr u \<and> us_id u = i \<and> us_pwd u = pwd \<and> us_state u \<noteq> ''online''
     | _ \<Rightarrow> i = -1 \<and> pwd = [])"
proof -
  from assms obtain u w1 where u: "getInt B js ''id'' = Inr i" "userQuery B i w = Inr (u, w1)" "us_id u = i"
      "getStr js ''password'' = Inr (us_pwd u)" "us_state u \<noteq> ''online''" by (auto simp: acceptsLogin_def)
  then show ?thesis
    by (cases "dbQuery B (selectUserSql i) w")
      (auto simp: userQuery_def bind_res_Inr_iff sqlText_Inr newUser_def split: option.splits list.splits)
qed

lemma grows_entries: "grows cs w w' \<Longrightarrow> ch_conns w' = ch_conns w"
  using grows_state by blast

lemma other_handlers:
  assumes "getHandler B msgid conn js w = Some (Inr w')" "msgid \<noteq> LOGIN_MSG"
  shows "set (ch_conns w') \<subseteq> set (ch_conns w)"
proof -
  from assms have "loginout B conn js w = Some (Inr w') \<or> logs w w'"
    using others_log unfolding getHandler_def msgHandlerMap_def by (simp split: if_splits)
  then have "(\<exists>i cs. grows cs (w\<lparr>ch_conns := umErase i (ch_conns w)\<rparr>) w') \<or> logs w w'"
    using loginout_erases by fast
  then show ?thesis by (auto dest!: grows_entries simp: umErase_def)
qed

lemma message_origin:
  assumes "serverOnMessage B conn buf w = Some (Inr w')" "(i, c) \<in> set (ch_conns w')"
  shows "(i, c) \<in> set (ch_conns w) \<or> c = conn \<and> loginFor B buf w i"
proof -
  from assms(1) obtain js msgid where p: "parseJson (be_floats B) buf = Inr js" "getInt B js ''msgid'' = Inr msgid"
      and h: "getHandler B msgid conn js w = Some (Inr w')"
    unfolding serverOnMessage_def by (auto simp: bind_run_Inr_iff)
  show ?thesis
  proof (cases "msgid = LOGIN_MSG")
    case True
    with h have "login B conn js w = Some (Inr w')" by (simp add: getHandler_def msgHandlerMap_def)
    from login_cases [OF this] show ?thesis
    proof (elim disjE exE conjE)
      assume "logs w w'"
      with assms(2) show ?thesis by (simp add: grows_entries)
    next
      fix k ok assume k: "acceptsLogin B js w k" "grows [(subscribeCmd k, ok)] (w\<lparr>ch_conns := umInsert k conn (ch_conns w)\<rparr>) w'"
      from assms(2) grows_entries [OF k(2)] have "(i, c) \<in> set (ch_conns w) \<or> i = k \<and> c = conn"
        by (auto simp: umInsert_def split: if_splits)
      with accepted_user [OF k(1)] p True show ?thesis by (auto simp: loginFor_def)
    qed
  next
    case False
    from other_handlers [OF h False] assms(2) show ?thesis by blast
  qed
qed

lemma connection_origin:
  "serverOnConnection B up conn w = Some (Inr w') \<Longrightarrow> set (ch_conns w') \<subseteq> set (ch_conns w)"
proof (cases up)
  case False
  assume "serverOnConnection B up conn w = Some (Inr w')"
  with False obtain w1 where c: "clientCloseException B conn w = Some (Inr w1)" "w' = effect (ShutdownConn conn) w1"
    by (auto simp: serverOnConnection_def bind_run_Inr_iff)
  from close_effect [OF c(1)] have "ch_conns w' = withoutEntry (closeEntry B conn (ch_conns w)) (ch_conns w)"
    using c(2) by (auto dest!: quiet_state)
  then show ?thesis by (auto simp: withoutEntry_def umErase_def split: option.splits)
qed (simp add: serverOnConnection_def)

text \<open>A message that logs user \<open>i\<close> out.\<close>

definition logoutFor :: "backend \<Rightarrow> string \<Rightarrow> int \<Rightarrow> bool" where
  "logoutFor B buf i \<longleftrightarrow>
     (\<exists>js. parseJson (be_floats B) buf = Inr js \<and> getInt B js ''msgid'' = Inr LOGINOUT_MSG \<and> getInt B js ''id'' = Inr i)"

lemma logout_removes:
  assumes "serverOnMessage B conn buf w = Some (Inr w')" "logoutFor B buf i"
  shows "(i, c) \<notin> set (ch_conns w')"
proof -
  from assms obtain js where js: "parseJson (be_floats B) buf = Inr js" "getInt B js ''msgid'' = Inr LOGINOUT_MSG" "getInt B js ''id'' = Inr i"
    by (auto simp: logoutFor_def)
  with assms(1) have "loginout B conn js w = Some (Inr w')"
    by (simp add: serverOnMessage_def getHandler_def msgHandlerMap_def LOGIN_MSG_def REG_MSG_def ONE_CHAT_MSG_def ADD_FRIEND_MSG_def
        CREATE_GROUP_MSG_def ADD_GROUP_MSG_def GROUP_CHAT_MSG_def LOGINOUT_MSG_def)
  from loginout_erases [OF this] js(3) have "ch_conns w' = umErase i (ch_conns w)" by (auto dest: grows_entries)
  then show ?thesis by (simp add: umErase_def)
qed

definition loggedIn :: "backend \<Rightarrow> server_event list \<Rightarrow> int \<Rightarrow> nat \<Rightarrow> bool" where
  "loggedIn B es i c \<longleftrightarrow>
     (\<exists>es1 buf es2 w0. es = es1 @ Got c buf # es2 \<and> server_run B es1 w0 \<and> loginFor B buf w0 i \<and>
        (\<forall>c' buf'. Got c' buf' \<in> set es2 \<longrightarrow> \<not> logoutFor B buf' i))"

lemma loggedIn_now: "server_run B es w \<Longrightarrow> loginFor B buf w i \<Longrightarrow> loggedIn B (es @ [Got c buf]) i c"
  unfolding loggedIn_def by (intro exI [of _ es] exI [of _ buf] exI [of _ "[]"] exI [of _ w]) simp

lemma loggedIn_later:
  assumes "loggedIn B es i c" "\<forall>c' buf'. e = Got c' buf' \<longrightarrow> \<not> logoutFor B buf' i"
  shows "loggedIn B (es @ [e]) i c"
proof -
  from assms(1) obtain es1 buf es2 w0 where "es = es1 @ Got c buf # es2" "server_run B es1 w0" "loginFor B buf w0 i"
      "\<forall>c' buf'. Got c' buf' \<in> set es2 \<longrightarrow> \<not> logoutFor B buf' i"
    unfolding loggedIn_def by blast
  with assms(2) show ?thesis unfolding loggedIn_def
    by (intro exI [of _ es1] exI [of _ buf] exI [of _ "es2 @ [e]"] exI [of _ w0]) auto
qed

lemma entries_loggedIn: "server_run B es w \<Longrightarrow> (i, c) \<in> set (ch_conns w) \<Longrightarrow> loggedIn B es i c"
proof (induction arbitrary: i c rule: server_run.induct)
  case start
  then show ?case by (simp add: newChatService_def redisConnect_def init_notify_handler_def Let_def split: if_splits)
next
  case (got es w conn buf w')
  from message_origin [OF got.hyps(2) got.prems] show ?case
  proof (elim disjE conjE)
    assume "(i, c) \<in> set (ch_conns w)"
    moreover have "\<not> logoutFor B buf i" using logout_removes [OF got.hyps(2)] got.prems by blast
    ultimately show ?thesis using got.IH by (intro loggedIn_later) auto
  qed (use got.hyps(1) loggedIn_now in blast)
next
  case (changed es w up conn w')
  with connection_origin [OF changed.hyps(2)] show ?case by (intro loggedIn_later) auto
next
  case (notified es w k msg w')
  with notification_logs [OF notified.hyps(2)] show ?case by (intro loggedIn_later) (auto simp: grows_entries)
qed

section \<open>Properties\<close>

text \<open>
  C8: Nobody is in the table of connections without having logged in: for every entry of a
  state the server reaches there was a message, on that very connection, that named the user
  and, at that moment, the password of the user's row, which was not online; or the entry is for
  the number -1, the password was empty, and the database gave no row for -1. No message handled
  since then has logged the user out.
\<close>

theorem entries_come_from_logins:
  assumes "server_run B es w" "(i, c) \<in> set (ch_conns w)"
  shows "\<exists>es1 buf es2 w0. es = es1 @ Got c buf # es2 \<and> server_run B es1 w0 \<and> loginFor B buf w0 i \<and>
    (\<forall>c' buf'. Got c' buf' \<in> set es2 \<longrightarrow> \<not> logoutFor B buf' i)"
  using assms entries_loggedIn unfolding loggedIn_def by blast

theorem entries_come_from_logins_witness:
  "\<exists>s w. dumpJson plainFloats loginMessage = Inr s \<and> server_run loginBackend [Got 5 s] w \<and> ch_conns w = [(7, 5)] \<and>
     loginFor loginBackend s (newChatService loginBackend) 7"
proof -
  obtain s w where s: "dumpJson plainFloats loginMessage = Inr s"
      "serverOnMessage loginBackend 5 s (newChatService loginBackend) = Some (Inr w)" "ch_conns w = [(7, 5)]"
    by (rule server_after_login)
  from server_run.got [OF server_run.start s(2)] have r: "server_run loginBackend [Got 5 s] w" by simp
  obtain w0 where "server_run loginBackend [] w0" "loginFor loginBackend s w0 7"
    using entries_come_from_logins [OF r, of 7 5] s(3) by (auto simp: Cons_eq_append_conv)
  moreover have "w0 = newChatService loginBackend" if "server_run loginBackend [] w0" for w0
    using that by cases auto
  ultimately show ?thesis using s(1,3) r by blast
qed

text \<open>
  C39: A login under the number -1 with an empty password is accepted whenever the database gives
  no row, also because it cannot be reached: \<^verbatim>\<open>UserModel::query\<close> then returns a default \<^verbatim>\<open>User\<close>,
  whose fields are just these. The connection is entered, and the channel of the user who does
  not exist is subscribed to.
\<close>

theorem nobody_logs_in_as_minus_one:
  assumes "getInt B js ''id'' = Inr (-1)" "getStr js ''password'' = Inr ''''"
    and "fst (dbQuery B (selectUserSql (-1)) w) \<in> {None, Some []}" "login B conn js w = Some (Inr w')"
  shows "ch_conns w' = umInsert (-1) conn (ch_conns w) \<and> subscribed (ch_log w') (-1)"
proof -
  have "dumpInt (-1) = ''-1''" by code_simp
  then have "userQuery B (-1) w = Inr (newUser, snd (dbQuery B (selectUserSql (-1)) w))"
    using assms(3) by (cases "dbQuery B (selectUserSql (-1)) w") (auto simp: userQuery_def sqlText_def sqlBuf_def selectUserSql_def)
  with assms(1,2) have "acceptsLogin B js w (-1)" by (auto simp: acceptsLogin_def newUser_def)
  with login_cases [OF assms(4)] assms(1) show ?thesis
    by (auto simp: acceptsLogin_def dest: grows_entries grows_subscribed)
qed

theorem nobody_logs_in_as_minus_one_witness:
  "\<exists>w'. login loginBackend 5 (JObject [(''id'', JInt (-1)), (''password'', JString '''')]) freshChat = Some (Inr w') \<and> ch_conns w' = [(-1, 5)]"
proof -
  let ?js = "JObject [(''id'', JInt (-1)), (''password'', JString '''')]"
  have m: "getInt loginBackend ?js ''id'' = Inr (-1)" "getStr ?js ''password'' = Inr ''''"
    by (simp_all add: getInt_def getStr_def jsonAt_def jsonInt_def toInt32_def jsonStr_def)
  then obtain w' where w': "login loginBackend 5 ?js freshChat = Some (Inr w')"
    using loginBackend_logs_in [of newUser ?js freshChat 5] by (auto simp: newUser_def freshChat_def)
  have "dumpInt 7 = ''7''" "dumpInt (-1) = ''-1''" by code_simp+
  then have "fst (dbQuery loginBackend (selectUserSql (-1)) freshChat) = Some []"
    by (simp add: dbQuery_def mysqlConnect_def mysqlQuery_def loginBackend_simps Let_def selectUserSql_def)
  with nobody_logs_in_as_minus_one [OF m _ w'] w' show ?thesis by (auto simp: freshChat_def umInsert_def umFind_def)
qed

text \<open>
  Apart from logging in and registering, no handler looks at the connection a message came
  on: any connection, logged in or not, gets the same done. So anyone may speak in the name of
  anyone, and a message with a user's number logs that user out, on whatever connection it comes.
\<close>

theorem requests_are_not_authenticated:
  assumes "parseJson (be_floats B) buf = Inr js" "getInt B js ''msgid'' = Inr msgid" "msgid \<notin> {LOGIN_MSG, REG_MSG}"
  shows "serverOnMessage B conn buf w = serverOnMessage B conn' buf w \<and>
    (\<forall>i w'. msgid = LOGINOUT_MSG \<and> getInt B js ''id'' = Inr i \<and> serverOnMessage B conn buf w = Some (Inr w') \<longrightarrow>
       umFind i (ch_conns w') = None)"
proof -
  have "serverOnMessage B conn buf w = serverOnMessage B conn' buf w"
    using assms by (simp add: serverOnMessage_def getHandler_def msgHandlerMap_def
        oneChat_def addFriend_def creatGroup_def addGroup_def groupChat_def loginout_def)
  moreover have "umFind i (ch_conns w') = None"
    if "msgid = LOGINOUT_MSG" "getInt B js ''id'' = Inr i" "serverOnMessage B conn buf w = Some (Inr w')" for i w'
  proof -
    have "logoutFor B buf i" using assms(1,2) that(1,2) by (auto simp: logoutFor_def)
    with logout_removes [OF that(3)] show ?thesis by (auto simp: umFind_def map_of_eq_None_iff)
  qed
  ultimately show ?thesis by blast
qed

theorem requests_are_not_authenticated_witness:
  "\<exists>s. dumpJson plainFloats chatMessage = Inr s \<and>
     serverOnMessage sampleBackend 5 s freshChat = serverOnMessage sampleBackend 6 s freshChat"
proof -
  obtain s where s: "dumpJson plainFloats chatMessage = Inr s" using chatMessage_dump by (auto simp: sampleBackend_def)
  moreover have "json_ok chatMessage" by (simp add: chatMessage_def less_list_code)
  ultimately have p: "parseJson (be_floats sampleBackend) s = Inr chatMessage"
    using parse_dumped [of chatMessage plainFloats s "[]"] by (simp add: sampleBackend_def)
  have "getInt sampleBackend chatMessage ''msgid'' = Inr ONE_CHAT_MSG"
    by (simp add: getInt_def jsonAt_def chatMessage_def jsonInt_def toInt32_def ONE_CHAT_MSG_def)
  from requests_are_not_authenticated [OF p this, of 5 freshChat 6] s show ?thesis
    by (auto simp: ONE_CHAT_MSG_def LOGIN_MSG_def REG_MSG_def)
qed

end
