(* ===== verification/ChatLock.thy ===== *)
theory ChatLock
  imports ChatServer
begin

text \<open>
  \<^verbatim>\<open>_connMutex\<close> of \<^verbatim>\<open>chatservice.cpp\<close>: the parts of the handlers that touch \<^verbatim>\<open>_userConnMap\<close>,
  cut into the steps other threads can come between. Four of them hold the lock. \<open>login\<close>
  and \<open>groupChat\<close> say \<^verbatim>\<open>unique_lock<mutex>(_connMutex);\<close>, which declares a new variable of
  that name and locks nothing: they are modelled as they behave.

  An iterator is the key it stands at and whether it is valid: erasing its entry invalidates it,
  and so does an insertion that rehashes. Whether an insertion does so is left open. Using an
  invalid iterator is undefined: there is no step for it. Two threads that are about to touch the
  map, one of them to change it, race; what C++ says of the run then is nothing, so the state
  records whether the steps taken so far were free of it.
\<close>

section \<open>The state\<close>

text \<open>What a thread does with the map under the lock.\<close>

datatype lock_job = JobDeliver int | JobLogout int | JobChat int | JobClose nat

text \<open>
  \<open>AtInsert\<close> and the two positions of the group loop are outside the lock; at \<open>AtGroupSend\<close>
  and \<open>LockedSend\<close> the iterator has been compared with \<^verbatim>\<open>end()\<close> and is about to be used.
\<close>

datatype conn_pc =
    Away
  | AtInsert int nat
  | AtGroup "int list"
  | AtGroupSend int "int list"
  | WantLock lock_job
  | Locked lock_job
  | LockedSend int
  | Unlocking

text \<open>\<open>cs_it\<close> says of each thread whether its iterator is valid, \<open>cs_raced\<close> is history.\<close>

record conn_state =
  cs_owner :: "nat option"
  cs_conns :: "(int \<times> nat) list"
  cs_pc :: "nat \<Rightarrow> conn_pc"
  cs_it :: "nat \<Rightarrow> bool"
  cs_sent :: "nat list"
  cs_raced :: bool

definition newConnState :: "(int \<times> nat) list \<Rightarrow> conn_state" where
  "newConnState m = \<lparr>cs_owner = None, cs_conns = m, cs_pc = (\<lambda>t. Away), cs_it = (\<lambda>t. False), cs_sent = [], cs_raced = False\<rparr>"

definition goto :: "nat \<Rightarrow> conn_pc \<Rightarrow> conn_state \<Rightarrow> conn_state" where
  "goto t pc s = s\<lparr>cs_pc := (cs_pc s)(t := pc)\<rparr>"

text \<open>\<^verbatim>\<open>find\<close> gives thread \<open>t\<close> a valid iterator, which is then compared with \<^verbatim>\<open>end()\<close>.\<close>

definition foundBy :: "nat \<Rightarrow> conn_state \<Rightarrow> conn_state" where
  "foundBy t s = s\<lparr>cs_it := (cs_it s)(t := True)\<rparr>"

fun standsAt :: "int \<Rightarrow> conn_pc \<Rightarrow> bool" where
  "standsAt k (AtGroupSend i is) \<longleftrightarrow> i = k"
| "standsAt k (LockedSend i) \<longleftrightarrow> i = k"
| "standsAt k pc \<longleftrightarrow> False"

text \<open>\<^verbatim>\<open>erase\<close> invalidates the iterators at the entry.\<close>

definition eraseEntry :: "int \<Rightarrow> conn_state \<Rightarrow> conn_state" where
  "eraseEntry k s = s\<lparr>cs_conns := umErase k (cs_conns s), cs_it := (\<lambda>u. cs_it s u \<and> \<not> standsAt k (cs_pc s u))\<rparr>"

section \<open>The steps\<close>

text \<open>
  \<^verbatim>\<open>{ unique_lock<mutex>(_connMutex); _userConnMap.insert({id,conn}); }\<close> in \<open>login\<close>: the entry is
  there already, or it fits into the table, or the table is rehashed for it.
\<close>

inductive login_step :: "nat \<Rightarrow> conn_state \<Rightarrow> conn_state \<Rightarrow> bool" where
  arrive: "cs_pc s t = Away \<Longrightarrow> login_step t s (goto t (AtInsert i c) s)"
| insert_conn: "cs_pc s t = AtInsert i c \<Longrightarrow> login_step t s (goto t Away (s\<lparr>cs_conns := umInsert i c (cs_conns s)\<rparr>))"
| insert_rehash: "cs_pc s t = AtInsert i c \<Longrightarrow> umFind i (cs_conns s) = None \<Longrightarrow>
    login_step t s (goto t Away (s\<lparr>cs_conns := umInsert i c (cs_conns s), cs_it := (\<lambda>u. False)\<rparr>))"

text \<open>The loop of \<open>groupChat\<close>: \<^verbatim>\<open>find\<close>, and then \<^verbatim>\<open>it->second->send\<close> or the database.\<close>

inductive group_step :: "nat \<Rightarrow> conn_state \<Rightarrow> conn_state \<Rightarrow> bool" where
  arrive: "cs_pc s t = Away \<Longrightarrow> group_step t s (goto t (AtGroup is) s)"
| found: "cs_pc s t = AtGroup (i # is) \<Longrightarrow> umFind i (cs_conns s) \<noteq> None \<Longrightarrow>
    group_step t s (goto t (AtGroupSend i is) (foundBy t s))"
| missing: "cs_pc s t = AtGroup (i # is) \<Longrightarrow> umFind i (cs_conns s) = None \<Longrightarrow> group_step t s (goto t (AtGroup is) s)"
| send: "cs_pc s t = AtGroupSend i is \<Longrightarrow> cs_it s t \<Longrightarrow> umFind i (cs_conns s) = Some c \<Longrightarrow>
    group_step t s (goto t (AtGroup is) (s\<lparr>cs_sent := c # cs_sent s\<rparr>))"
| finish: "cs_pc s t = AtGroup [] \<Longrightarrow> group_step t s (goto t Away s)"

text \<open>The constructor and the destructor of a \<^verbatim>\<open>unique_lock<mutex> lock(_connMutex)\<close>.\<close>

inductive lock_step :: "nat \<Rightarrow> conn_state \<Rightarrow> conn_state \<Rightarrow> bool" where
  arrive: "cs_pc s t = Away \<Longrightarrow> lock_step t s (goto t (WantLock j) s)"
| acquire: "cs_pc s t = WantLock j \<Longrightarrow> cs_owner s = None \<Longrightarrow> lock_step t s (goto t (Locked j) (s\<lparr>cs_owner := Some t\<rparr>))"
| release: "cs_pc s t = Unlocking \<Longrightarrow> lock_step t s (goto t Away (s\<lparr>cs_owner := None\<rparr>))"

text \<open>
  \<open>handlerRedisSubscribeMessage\<close> and \<open>oneChat\<close>: \<^verbatim>\<open>find\<close> and \<^verbatim>\<open>send\<close>; the first also
  stores the message of an absent user before it unlocks.
\<close>

inductive deliver_step :: "nat \<Rightarrow> conn_state \<Rightarrow> conn_state \<Rightarrow> bool" where
  found: "cs_pc s t = Locked j \<Longrightarrow> j = JobDeliver i \<or> j = JobChat i \<Longrightarrow> umFind i (cs_conns s) \<noteq> None \<Longrightarrow>
    deliver_step t s (goto t (LockedSend i) (foundBy t s))"
| missing: "cs_pc s t = Locked j \<Longrightarrow> j = JobDeliver i \<or> j = JobChat i \<Longrightarrow> umFind i (cs_conns s) = None \<Longrightarrow>
    deliver_step t s (goto t Unlocking s)"
| send: "cs_pc s t = LockedSend i \<Longrightarrow> cs_it s t \<Longrightarrow> umFind i (cs_conns s) = Some c \<Longrightarrow>
    deliver_step t s (goto t Unlocking (s\<lparr>cs_sent := c # cs_sent s\<rparr>))"

text \<open>\<open>loginout\<close> and \<open>clientCloseException\<close>: the lookup and the \<^verbatim>\<open>erase\<close>, all under the lock.\<close>

inductive erase_step :: "backend \<Rightarrow> nat \<Rightarrow> conn_state \<Rightarrow> conn_state \<Rightarrow> bool" for B where
  logout: "cs_pc s t = Locked (JobLogout i) \<Longrightarrow> erase_step B t s (goto t Unlocking (eraseEntry i s))"
| close: "cs_pc s t = Locked (JobClose conn) \<Longrightarrow>
    erase_step B t s (goto t Unlocking
      (case List.find (\<lambda>(k, c). c = conn) (um_order B (cs_conns s)) of None \<Rightarrow> s | Some (k, c) \<Rightarrow> eraseEntry k s))"

section \<open>Data races\<close>

text \<open>What a thread is about to do with the map.\<close>

datatype map_access = NoAccess | Reads | Writes

fun access :: "conn_pc \<Rightarrow> map_access" where
  "access (AtInsert i c) = Writes"
| "access (AtGroup (i # is)) = Reads"
| "access (AtGroupSend i is) = Reads"
| "access (Locked (JobDeliver i)) = Reads"
| "access (Locked (JobChat i)) = Reads"
| "access (Locked (JobLogout i)) = Writes"
| "access (Locked (JobClose c)) = Writes"
| "access (LockedSend i) = Reads"
| "access pc = NoAccess"

definition races :: "conn_state \<Rightarrow> nat \<Rightarrow> nat \<Rightarrow> bool" where
  "races s t u \<longleftrightarrow> t \<noteq> u \<and> access (cs_pc s t) \<noteq> NoAccess \<and> access (cs_pc s u) \<noteq> NoAccess \<and>
     (access (cs_pc s t) = Writes \<or> access (cs_pc s u) = Writes)"

definition handler_step :: "backend \<Rightarrow> nat \<Rightarrow> conn_state \<Rightarrow> conn_state \<Rightarrow> bool" where
  "handler_step B t s s' \<longleftrightarrow> login_step t s s' \<or> group_step t s s' \<or> lock_step t s s' \<or> deliver_step t s s' \<or> erase_step B t s s'"

definition noteRace :: "conn_state \<Rightarrow> nat \<Rightarrow> conn_state \<Rightarrow> conn_state" where
  "noteRace s t s' = s'\<lparr>cs_raced := cs_raced s \<or> (\<exists>u. races s t u)\<rparr>"

inductive conn_step :: "backend \<Rightarrow> nat \<Rightarrow> conn_state \<Rightarrow> conn_state \<Rightarrow> bool" for B t where
  taken: "handler_step B t s s' \<Longrightarrow> conn_step B t s (noteRace s t s')"

inductive conn_reaches :: "backend \<Rightarrow> (int \<times> nat) list \<Rightarrow> conn_state \<Rightarrow> bool" for B m where
  start: "conn_reaches B m (newConnState m)"
| step: "conn_reaches B m s \<Longrightarrow> conn_step B t s s' \<Longrightarrow> conn_reaches B m s'"

inductive_cases login_stepE: "login_step t s s'"
inductive_cases group_stepE: "group_step t s s'"
inductive_cases lock_stepE: "lock_step t s s'"
inductive_cases deliver_stepE: "deliver_step t s s'"
inductive_cases erase_stepE: "erase_step B t s s'"
inductive_cases conn_stepE: "conn_step B t s s'"

lemma goto_simps [simp]:
  "cs_pc (goto t pc s) = (cs_pc s)(t := pc)" "cs_owner (goto t pc s) = cs_owner s" "cs_conns (goto t pc s) = cs_conns s"
  "cs_sent (goto t pc s) = cs_sent s" "cs_it (goto t pc s) = cs_it s" "cs_raced (goto t pc s) = cs_raced s"
  by (simp_all add: goto_def)

lemma foundBy_simps [simp]:
  "cs_pc (foundBy t s) = cs_pc s" "cs_owner (foundBy t s) = cs_owner s" "cs_conns (foundBy t s) = cs_conns s"
  "cs_it (foundBy t s) = (cs_it s)(t := True)" "cs_raced (foundBy t s) = cs_raced s"
  by (simp_all add: foundBy_def)

lemma eraseEntry_simps [simp]:
  "cs_pc (eraseEntry k s) = cs_pc s" "cs_owner (eraseEntry k s) = cs_owner s" "cs_conns (eraseEntry k s) = umErase k (cs_conns s)"
  "cs_it (eraseEntry k s) u \<longleftrightarrow> cs_it s u \<and> \<not> standsAt k (cs_pc s u)" "cs_raced (eraseEntry k s) = cs_raced s"
  by (simp_all add: eraseEntry_def)

lemma noteRace_simps [simp]:
  "cs_pc (noteRace s t s') = cs_pc s'" "cs_owner (noteRace s t s') = cs_owner s'" "cs_conns (noteRace s t s') = cs_conns s'"
  "cs_it (noteRace s t s') = cs_it s'" "cs_raced (noteRace s t s') \<longleftrightarrow> cs_raced s \<or> (\<exists>u. races s t u)"
  by (simp_all add: noteRace_def)

section \<open>Mutual exclusion\<close>

definition inside :: "conn_pc \<Rightarrow> bool" where
  "inside pc \<longleftrightarrow> (case pc of Locked j \<Rightarrow> True | LockedSend i \<Rightarrow> True | Unlocking \<Rightarrow> True | _ \<Rightarrow> False)"

lemma inside_simps [simp]:
  "inside (Locked j)" "inside (LockedSend i)" "inside Unlocking" "\<not> inside Away" "\<not> inside (AtInsert i c)"
  "\<not> inside (AtGroup is)" "\<not> inside (AtGroupSend i is)" "\<not> inside (WantLock j)"
  by (simp_all add: inside_def)

text \<open>The positions of the handlers that come in without the lock.\<close>

definition unlocked :: "conn_pc \<Rightarrow> bool" where
  "unlocked pc \<longleftrightarrow> (case pc of AtInsert i c \<Rightarrow> True | AtGroup is \<Rightarrow> True | AtGroupSend i is \<Rightarrow> True | _ \<Rightarrow> False)"

lemma access_where: "access pc \<noteq> NoAccess \<Longrightarrow> inside pc \<or> unlocked pc"
  by (cases pc) (simp_all add: unlocked_def)

text \<open>An iterator that is valid and about to be used.\<close>

definition usable :: "conn_state \<Rightarrow> nat \<Rightarrow> int \<Rightarrow> bool" where
  "usable s t i \<longleftrightarrow> cs_it s t \<and> umFind i (cs_conns s) \<noteq> None"

definition owner_inv :: "conn_state \<Rightarrow> bool" where
  "owner_inv s \<longleftrightarrow> (\<forall>t. inside (cs_pc s t) \<longleftrightarrow> cs_owner s = Some t)"

definition iter_inv :: "conn_state \<Rightarrow> bool" where
  "iter_inv s \<longleftrightarrow> cs_raced s \<or> (\<forall>t i. cs_pc s t = LockedSend i \<longrightarrow> usable s t i)"

lemma owner_inv_step:
  assumes "handler_step B t s s'" "owner_inv s"
  shows "owner_inv s'"
proof -
  have move: "owner_inv s1" if "inside pc = inside (cs_pc s t)" "cs_owner s1 = cs_owner s" "cs_pc s1 = (cs_pc s)(t := pc)" for s1 pc
    using that assms(2) unfolding owner_inv_def by (auto split: if_splits)
  consider "login_step t s s'" | "group_step t s s'" | "lock_step t s s'" | "deliver_step t s s'" | "erase_step B t s s'"
    using assms(1) by (auto simp: handler_step_def)
  then show ?thesis
  proof cases
    case 1
    then show ?thesis by (elim login_stepE) (rule move, auto)+
  next
    case 2
    then show ?thesis by (elim group_stepE) (rule move, auto)+
  next
    case 3
    then show ?thesis using assms(2)
      by (elim lock_stepE) (auto simp: owner_inv_def split: if_splits, (metis inside_simps option.inject option.distinct(1))+)
  next
    case 4
    then show ?thesis by (elim deliver_stepE) (rule move, auto)+
  next
    case 5
    then show ?thesis by (elim erase_stepE) (rule move, auto split: option.splits)+
  qed
qed

text \<open>
  Another thread's step takes a usable iterator away only when it writes: then it races with the
  one who is about to use the iterator, or both are inside.
\<close>

lemma usable_kept:
  assumes "handler_step B t s s'" "t \<noteq> u" "usable s u i" "standsAt i (cs_pc s u)" "access (cs_pc s t) \<noteq> Writes"
  shows "usable s' u i"
proof -
  from assms(1,5) have "cs_conns s' = cs_conns s \<and> cs_it s' u = cs_it s u"
    using assms(2) unfolding handler_step_def
    by (elim disjE) (auto elim!: login_stepE group_stepE lock_stepE deliver_stepE erase_stepE)
  with assms(3) show ?thesis by (simp add: usable_def)
qed

lemma now_usable:
  assumes "handler_step B t s s'" "cs_pc s' t = LockedSend i"
  shows "usable s' t i"
  using assms unfolding handler_step_def
  by (elim disjE)
    (auto simp: usable_def elim!: login_stepE group_stepE lock_stepE deliver_stepE erase_stepE split: option.splits)

lemma other_pc: "handler_step B t s s' \<Longrightarrow> u \<noteq> t \<Longrightarrow> cs_pc s' u = cs_pc s u"
  unfolding handler_step_def
  by (elim disjE) (auto elim!: login_stepE group_stepE lock_stepE deliver_stepE erase_stepE split: option.splits)

lemma iter_inv_step:
  assumes h: "handler_step B t s s'" and inv: "owner_inv s" "iter_inv s"
  shows "iter_inv (noteRace s t s')"
proof (cases "cs_raced (noteRace s t s')")
  case False
  have "usable s' u i" if u: "cs_pc s' u = LockedSend i" for u i
  proof (cases "u = t")
    case True
    with now_usable [OF h] u show ?thesis by simp
  next
    case other: False
    with other_pc [OF h other] u have pc: "cs_pc s u = LockedSend i" by simp
    with inv(2) False have "usable s u i" by (auto simp: iter_inv_def)
    moreover have "access (cs_pc s t) \<noteq> Writes" using False pc other by (auto simp: races_def)
    ultimately show ?thesis using usable_kept [OF h] pc other by simp
  qed
  then show ?thesis by (auto simp: iter_inv_def usable_def)
qed (simp add: iter_inv_def)

lemma reaches_inv: "conn_reaches B m s \<Longrightarrow> owner_inv s \<and> iter_inv s"
proof (induction rule: conn_reaches.induct)
  case start
  show ?case by (simp add: owner_inv_def iter_inv_def newConnState_def)
next
  case (step s t s')
  from step.hyps(2) show ?case
  proof cases
    case (taken s1)
    with step.IH owner_inv_step iter_inv_step show ?thesis by (fastforce simp: owner_inv_def)
  qed
qed

text \<open>Runs are built from the handlers' steps; the first ones here meet nobody else at the map.\<close>

lemma conn_reaches_step: "conn_reaches B m s \<Longrightarrow> handler_step B t s s' \<Longrightarrow> conn_reaches B m (noteRace s t s')"
  by (blast intro: conn_reaches.step conn_step.taken)

lemma quiet_access: "access (cs_pc s t) = NoAccess \<Longrightarrow> cs_raced (noteRace s t s') \<longleftrightarrow> cs_raced s"
  by (simp add: races_def)

lemma reach_locked:
  assumes "conn_reaches B m s" "cs_pc s t = Away" "cs_owner s = None"
  obtains s' where "conn_reaches B m s'" "cs_pc s' = (cs_pc s)(t := Locked j)" "cs_conns s' = cs_conns s"
    "cs_it s' = cs_it s" "cs_raced s' \<longleftrightarrow> cs_raced s"
proof -
  let ?a = "noteRace s t (goto t (WantLock j) s)"
  let ?b = "noteRace ?a t (goto t (Locked j) (?a\<lparr>cs_owner := Some t\<rparr>))"
  have "handler_step B t s (goto t (WantLock j) s)" unfolding handler_step_def using lock_step.arrive [of s t] assms(2) by blast
  then have a: "conn_reaches B m ?a" by (rule conn_reaches_step [OF assms(1)])
  have "handler_step B t ?a (goto t (Locked j) (?a\<lparr>cs_owner := Some t\<rparr>))"
    unfolding handler_step_def using lock_step.acquire [of ?a t j] assms(3) by simp
  then have "conn_reaches B m ?b" by (rule conn_reaches_step [OF a])
  then show thesis by (rule that) (use assms(2) in \<open>simp_all add: races_def\<close>)
qed

lemma reach_locked_send:
  assumes "conn_reaches B m s" "cs_pc s t = Away" "cs_owner s = None" "umFind i (cs_conns s) \<noteq> None"
  obtains s' where "conn_reaches B m s'" "cs_pc s' = (cs_pc s)(t := LockedSend i)" "cs_conns s' = cs_conns s"
    "(\<forall>u. access (cs_pc s u) = NoAccess) \<longrightarrow> (cs_raced s' \<longleftrightarrow> cs_raced s)"
proof -
  obtain a where a: "conn_reaches B m a" "cs_pc a = (cs_pc s)(t := Locked (JobChat i))" "cs_conns a = cs_conns s"
      "cs_raced a \<longleftrightarrow> cs_raced s" by (rule reach_locked [OF assms(1-3)])
  have "handler_step B t a (goto t (LockedSend i) (foundBy t a))"
    unfolding handler_step_def using deliver_step.found [of a t "JobChat i" i] a(2,3) assms(4) by simp
  then have "conn_reaches B m (noteRace a t (goto t (LockedSend i) (foundBy t a)))" by (rule conn_reaches_step [OF a(1)])
  then show thesis by (rule that) (use a(2-4) in \<open>auto simp: races_def\<close>)
qed

lemma reach_insert:
  assumes "conn_reaches B m s" "cs_pc s t = Away"
  obtains s' where "conn_reaches B m s'" "cs_pc s' = (cs_pc s)(t := AtInsert i c)" "cs_conns s' = cs_conns s"
    "cs_owner s' = cs_owner s"
proof -
  have "handler_step B t s (goto t (AtInsert i c) s)" unfolding handler_step_def using login_step.arrive [of s t] assms(2) by blast
  then have "conn_reaches B m (noteRace s t (goto t (AtInsert i c) s))" by (rule conn_reaches_step [OF assms(1)])
  then show thesis by (rule that) simp_all
qed

lemma some_key_free: "\<exists>k. umFind k m = None"
proof -
  have "finite (fst ` set m)" by simp
  then obtain k :: int where "k \<notin> fst ` set m" using ex_new_if_finite infinite_UNIV_int by blast
  then show ?thesis by (auto simp: umFind_def map_of_eq_None_iff)
qed

section \<open>Properties\<close>

text \<open>
  C14: The handlers that take the lock exclude each other: in every reachable state at most one
  thread is between the constructor and the destructor of its \<^verbatim>\<open>unique_lock\<close>. Whoever races
  with it for the map is a \<open>login\<close> or a \<open>groupChat\<close>, which come in without the lock. As long
  as no such race has happened, the iterator a locked \<open>oneChat\<close> or
  \<open>handlerRedisSubscribeMessage\<close> is about to use is valid, and its entry is in the map.
\<close>

theorem locked_handlers_exclude:
  assumes "conn_reaches B m s" "inside (cs_pc s t)"
  shows "(\<forall>u. inside (cs_pc s u) \<longrightarrow> u = t) \<and> (\<forall>u. races s t u \<longrightarrow> unlocked (cs_pc s u)) \<and>
    (\<forall>i. cs_pc s t = LockedSend i \<and> \<not> cs_raced s \<longrightarrow> usable s t i)"
proof -
  note inv = reaches_inv [OF assms(1)]
  have one: "u = t" if "inside (cs_pc s u)" for u
    using that assms(2) inv by (simp add: owner_inv_def)
  moreover have "unlocked (cs_pc s u)" if "races s t u" for u
    using that one [of u] access_where [of "cs_pc s u"] by (auto simp: races_def)
  ultimately show ?thesis using inv by (auto simp: iter_inv_def)
qed

text \<open>A run in which thread 1 is about to send to user 7 under the lock.\<close>

lemma locked_send_run:
  assumes "umFind i m \<noteq> None"
  obtains s where "conn_reaches B m s" "cs_pc s t = LockedSend i" "\<not> cs_raced s"
proof -
  have "cs_pc (newConnState m) t = Away" "cs_owner (newConnState m) = None" "umFind i (cs_conns (newConnState m)) \<noteq> None"
    "\<not> cs_raced (newConnState m)" "\<forall>u. access (cs_pc (newConnState m) u) = NoAccess"
    using assms by (simp_all add: newConnState_def)
  from reach_locked_send [OF conn_reaches.start this(1-3)] this(4,5) that show thesis by (metis fun_upd_same)
qed

theorem locked_handlers_exclude_witness:
  "\<exists>s. conn_reaches sampleBackend [(7, 5)] s \<and> cs_pc s 1 = LockedSend 7 \<and> usable s 1 7"
proof -
  have "umFind 7 [(7, 5)] \<noteq> None" by (simp add: umFind_def)
  then obtain s where s: "conn_reaches sampleBackend [(7, 5)] s" "cs_pc s 1 = LockedSend 7" "\<not> cs_raced s"
    by (rule locked_send_run)
  with locked_handlers_exclude [OF s(1), of 1] show ?thesis by auto
qed

text \<open>
  C34: The two handlers that only seem to take the lock are not safe, and neither are the others
  because of them. For any user in the map, a run exists in which \<open>groupChat\<close> has found the
  user's entry, another thread has erased it under the lock, and the iterator is used next, with
  nothing there; a run exists in which \<open>login\<close> is about to insert while another thread is inside
  the lock and about to erase; and a run exists in which the insertion of a \<open>login\<close> has rehashed
  the table, so that the iterator with which a locked \<open>oneChat\<close> sends next is invalid.
\<close>

theorem group_chat_iterator_dangles:
  assumes "umFind i m \<noteq> None" "t \<noteq> u"
  shows "(\<exists>s is. conn_reaches B m s \<and> cs_pc s t = AtGroupSend i is \<and> \<not> cs_it s t \<and> umFind i (cs_conns s) = None) \<and>
    (\<exists>s. conn_reaches B m s \<and> cs_pc s t = AtInsert i c \<and> cs_pc s u = Locked (JobLogout i) \<and> races s t u) \<and>
    (\<exists>s. conn_reaches B m s \<and> cs_pc s u = LockedSend i \<and> \<not> cs_it s u)"
proof (intro conjI)
  have new: "cs_pc (newConnState m) v = Away" "cs_owner (newConnState m) = None" "cs_conns (newConnState m) = m" for v
    by (simp_all add: newConnState_def)
  let ?g = "noteRace (newConnState m) t (goto t (AtGroup [i]) (newConnState m))"
  let ?f = "noteRace ?g t (goto t (AtGroupSend i []) (foundBy t ?g))"
  have "handler_step B t (newConnState m) (goto t (AtGroup [i]) (newConnState m))"
    unfolding handler_step_def using group_step.arrive new(1) by blast
  then have g: "conn_reaches B m ?g" by (rule conn_reaches_step [OF conn_reaches.start])
  have "handler_step B t ?g (goto t (AtGroupSend i []) (foundBy t ?g))"
    unfolding handler_step_def using group_step.found [of ?g t i "[]"] assms(1) by (simp add: new(3))
  then have f: "conn_reaches B m ?f" by (rule conn_reaches_step [OF g])
  obtain l where l: "conn_reaches B m l" "cs_pc l = (cs_pc ?f)(u := Locked (JobLogout i))" "cs_conns l = cs_conns ?f"
    by (rule reach_locked [OF f, of u "JobLogout i"]) (use assms(2) new in simp_all)
  have "handler_step B u l (goto u Unlocking (eraseEntry i l))"
    unfolding handler_step_def using erase_step.logout [of l u i] l(2) by simp
  then have e: "conn_reaches B m (noteRace l u (goto u Unlocking (eraseEntry i l)))" by (rule conn_reaches_step [OF l(1)])
  have "umFind i (umErase i n) = None" for n by (auto simp: umFind_def umErase_def map_of_eq_None_iff)
  with e l(2) assms(2) show "\<exists>s is. conn_reaches B m s \<and> cs_pc s t = AtGroupSend i is \<and> \<not> cs_it s t \<and> umFind i (cs_conns s) = None"
    by (intro exI [of _ "noteRace l u (goto u Unlocking (eraseEntry i l))"] exI [of _ "[]"]) simp
next
  obtain a where a: "conn_reaches B m a" "cs_pc a = (cs_pc (newConnState m))(t := AtInsert i c)" "cs_owner a = None"
    by (rule reach_insert [OF conn_reaches.start, of m t B i c]) (simp_all add: newConnState_def)
  obtain l where "conn_reaches B m l" "cs_pc l = (cs_pc a)(u := Locked (JobLogout i))"
    by (rule reach_locked [OF a(1), of u "JobLogout i"]) (use a assms(2) in \<open>simp_all add: newConnState_def\<close>)
  with a(2) assms(2) show "\<exists>s. conn_reaches B m s \<and> cs_pc s t = AtInsert i c \<and> cs_pc s u = Locked (JobLogout i) \<and> races s t u"
    by (intro exI [of _ l]) (simp add: races_def)
next
  obtain k where k: "umFind k m = None" using some_key_free by blast
  obtain a where a: "conn_reaches B m a" "cs_pc a = (cs_pc (newConnState m))(u := LockedSend i)" "cs_conns a = m"
    by (rule reach_locked_send [OF conn_reaches.start, of m u i B]) (use assms(1) in \<open>simp_all add: newConnState_def\<close>)
  obtain b where b: "conn_reaches B m b" "cs_pc b = (cs_pc a)(t := AtInsert k c)" "cs_conns b = m"
    by (rule reach_insert [OF a(1), of t k c]) (use a assms(2) in \<open>simp_all add: newConnState_def\<close>)
  let ?r = "goto t Away (b\<lparr>cs_conns := umInsert k c (cs_conns b), cs_it := (\<lambda>u. False)\<rparr>)"
  have "handler_step B t b ?r" unfolding handler_step_def using login_step.insert_rehash [of b t k c] b(2,3) k by simp
  then have "conn_reaches B m (noteRace b t ?r)" by (rule conn_reaches_step [OF b(1)])
  then show "\<exists>s. conn_reaches B m s \<and> cs_pc s u = LockedSend i \<and> \<not> cs_it s u"
    using a(2) b(2) assms(2) by (intro exI [of _ "noteRace b t ?r"]) simp
qed

theorem group_chat_iterator_dangles_witness:
  "(\<exists>s is. conn_reaches sampleBackend [(7, 5)] s \<and> cs_pc s 1 = AtGroupSend 7 is \<and> umFind 7 (cs_conns s) = None) \<and>
   (\<exists>s. conn_reaches sampleBackend [(7, 5)] s \<and> cs_pc s 2 = LockedSend 7 \<and> \<not> cs_it s 2)"
  using group_chat_iterator_dangles [of 7 "[(7, 5)]" 1 2 sampleBackend 5] by (auto simp: umFind_def)

text \<open>A thread inside gets on: to its last step.\<close>

lemma taken_step: "handler_step B t s s' \<Longrightarrow> cs_pc s' t = pc \<Longrightarrow> \<exists>s'. conn_step B t s s' \<and> cs_pc s' t = pc"
  by (intro exI [of _ "noteRace s t s'"]) (auto intro: conn_step.taken)

lemma lockedSend_leaves:
  assumes "cs_pc s t = LockedSend i" "usable s t i"
  shows "\<exists>s'. conn_step B t s s' \<and> cs_pc s' t = Unlocking"
proof -
  from assms obtain c where "handler_step B t s (goto t Unlocking (s\<lparr>cs_sent := c # cs_sent s\<rparr>))"
    unfolding usable_def handler_step_def using deliver_step.send by blast
  then show ?thesis by (rule taken_step) simp
qed

definition leavesIn :: "backend \<Rightarrow> nat \<Rightarrow> nat \<Rightarrow> conn_state \<Rightarrow> bool" where
  "leavesIn B t n s \<longleftrightarrow> (\<exists>s'. (conn_step B t ^^ n) s s' \<and> cs_pc s' t = Unlocking)"

lemma leavesIn_one: "handler_step B t s s' \<Longrightarrow> cs_pc s' t = Unlocking \<Longrightarrow> leavesIn B t 1 s"
  using taken_step [of B t s s' Unlocking] by (simp add: leavesIn_def eq_OO)

lemma deliver_leaves:
  assumes j: "cs_pc s t = Locked j" "j = JobDeliver i \<or> j = JobChat i"
  shows "\<exists>n \<le> 2. leavesIn B t n s"
proof (cases "umFind i (cs_conns s)")
  case None
  with deliver_step.missing [OF j] have "handler_step B t s (goto t Unlocking s)" by (simp add: handler_step_def)
  from leavesIn_one [OF this] show ?thesis by (intro exI [of _ 1]) simp
next
  case (Some c)
  let ?s = "noteRace s t (goto t (LockedSend i) (foundBy t s))"
  have "conn_step B t s ?s"
    using deliver_step.found [OF j] Some by (intro conn_step.taken) (simp add: handler_step_def)
  moreover obtain s' where "conn_step B t ?s s'" "cs_pc s' t = Unlocking"
    using lockedSend_leaves [of ?s t i B] Some by (auto simp: usable_def)
  ultimately have "leavesIn B t 2 s" unfolding leavesIn_def numeral_2_eq_2 by (auto simp: eq_OO)
  then show ?thesis by blast
qed

lemma locked_leaves:
  assumes "cs_pc s t = Locked j"
  shows "\<exists>n \<le> 2. leavesIn B t n s"
proof -
  have erased: ?thesis if "erase_step B t s (goto t Unlocking s1)" for s1
  proof -
    from that have "handler_step B t s (goto t Unlocking s1)" by (simp add: handler_step_def)
    from leavesIn_one [OF this] show ?thesis by (intro exI [of _ 1]) simp
  qed
  show ?thesis
  proof (cases j)
    case (JobLogout i)
    with assms show ?thesis using erased [OF erase_step.logout] by simp
  next
    case (JobClose c)
    with assms show ?thesis using erased [OF erase_step.close] by simp
  qed (use deliver_leaves [OF assms] in blast)+
qed

text \<open>
  The lock is always given back: from every reachable state in which a thread is inside
  and no race has happened, three steps of that thread at most free the lock and lead it out,
  without waiting for anybody.
\<close>

theorem lock_is_given_back:
  assumes "conn_reaches B m s" "\<not> cs_raced s" "inside (cs_pc s t)"
  shows "\<exists>n \<le> 3. \<exists>s'. (conn_step B t ^^ n) s s' \<and> cs_owner s' = None \<and> cs_pc s' t = Away"
proof -
  from assms(3) consider j where "cs_pc s t = Locked j" | i where "cs_pc s t = LockedSend i" | "cs_pc s t = Unlocking"
    by (cases "cs_pc s t") auto
  then have "\<exists>n \<le> 2. leavesIn B t n s"
  proof cases
    case (1 j)
    then show ?thesis by (rule locked_leaves)
  next
    case (2 i)
    with reaches_inv [OF assms(1)] assms(2) have "usable s t i" by (simp add: iter_inv_def)
    with lockedSend_leaves [OF 2] have "leavesIn B t 1 s" by (simp add: leavesIn_def eq_OO)
    then show ?thesis by (intro exI [of _ 1]) simp
  next
    case 3
    then show ?thesis by (intro exI [of _ 0]) (simp add: leavesIn_def)
  qed
  then obtain n s1 where n: "n \<le> 2" and s1: "(conn_step B t ^^ n) s s1" "cs_pc s1 t = Unlocking"
    unfolding leavesIn_def by blast
  let ?s = "goto t Away (s1\<lparr>cs_owner := None\<rparr>)"
  have "handler_step B t s1 ?s" using lock_step.release [OF s1(2)] by (simp add: handler_step_def)
  then have "conn_step B t s1 (noteRace s1 t ?s)" by (rule conn_step.taken)
  with s1(1) have "(conn_step B t ^^ Suc n) s (noteRace s1 t ?s)" by (rule relpowp_Suc_I)
  with n show ?thesis by (intro exI [of _ "Suc n"] conjI exI [of _ "noteRace s1 t ?s"]) simp_all
qed

theorem lock_is_given_back_witness:
  "\<exists>s s' n. conn_reaches sampleBackend [(7, 5)] s \<and> cs_pc s 1 = LockedSend 7 \<and>
     n \<le> 3 \<and> (conn_step sampleBackend 1 ^^ n) s s' \<and> cs_owner s' = None"
proof -
  have "umFind 7 [(7, 5)] \<noteq> None" by (simp add: umFind_def)
  then obtain s where s: "conn_reaches sampleBackend [(7, 5)] s" "cs_pc s 1 = LockedSend 7" "\<not> cs_raced s"
    by (rule locked_send_run)
  with lock_is_given_back [OF s(1,3), of 1] show ?thesis by auto
qed

end
