(* ===== verification/Timestamp.thy ===== *)
theory Timestamp
  imports LoopPool "HOL-Library.Signed_Division"
begin

text \<open>
  \<^verbatim>\<open>class Timestamp\<close> (\<^verbatim>\<open>MyMuduo/Timestamp.h\<close>, \<^verbatim>\<open>Timestamp.cc\<close>) and \<^verbatim>\<open>class Logger\<close>
  (\<^verbatim>\<open>Logger.h\<close>, \<^verbatim>\<open>Logger.cc\<close>). A time is the number of microseconds, an \<^verbatim>\<open>int64_t\<close>;
  \<^verbatim>\<open>gettimeofday\<close> and \<^verbatim>\<open>localtime\<close> are parameters, and so is the arithmetic of
  \<^verbatim>\<open>double\<close>.
\<close>

section \<open>Timestamp\<close>

text \<open>An \<^verbatim>\<open>int64_t\<close> result; the overflow of the signed type is undefined.\<close>

definition i64 :: "int \<Rightarrow> fault + int" where
  "i64 x = (if - (2 ^ 63) \<le> x \<and> x < 2 ^ 63 then Inr x else Inl SignedOverflow)"

definition kMicroSecondsPerSecond :: int where
  "kMicroSecondsPerSecond = 1000 * 1000"

definition invalidTimestamp :: int where
  "invalidTimestamp = 0"

definition timestampNow :: "int \<times> int \<Rightarrow> fault + int" where
  "timestampNow tv = bind_res (i64 (fst tv * kMicroSecondsPerSecond)) (\<lambda>us. i64 (us + snd tv))"

definition fromUnixTime :: "int \<Rightarrow> int \<Rightarrow> fault + int" where
  "fromUnixTime t microseconds = bind_res (i64 (t * kMicroSecondsPerSecond)) (\<lambda>us. i64 (us + microseconds))"

definition validTimestamp :: "int \<Rightarrow> bool" where
  "validTimestamp us \<longleftrightarrow> us > 0"

text \<open>The division of C++ truncates.\<close>

definition secondsSinceEpoch :: "int \<Rightarrow> int" where
  "secondsSinceEpoch us = us sdiv kMicroSecondsPerSecond"

definition timestampLess :: "int \<Rightarrow> int \<Rightarrow> bool" where
  "timestampLess a b \<longleftrightarrow> a < b"

definition timestampGreater :: "int \<Rightarrow> int \<Rightarrow> bool" where
  "timestampGreater a b \<longleftrightarrow> a > b"

definition timestampEqual :: "int \<Rightarrow> int \<Rightarrow> bool" where
  "timestampEqual a b \<longleftrightarrow> a = b"

text \<open>
  \<^verbatim>\<open>double\<close>: conversion from \<^verbatim>\<open>int64_t\<close>, division, multiplication, and conversion
  back, undefined where the value does not fit.
\<close>

record 'd double_ops =
  db_of :: "int \<Rightarrow> 'd"
  db_div :: "'d \<Rightarrow> 'd \<Rightarrow> 'd"
  db_mul :: "'d \<Rightarrow> 'd \<Rightarrow> 'd"
  db_int :: "'d \<Rightarrow> int option"

definition timeDifference :: "'d double_ops \<Rightarrow> int \<Rightarrow> int \<Rightarrow> fault + 'd" where
  "timeDifference D high low =
     bind_res (i64 (high - low)) (\<lambda>diff. Inr (db_div D (db_of D diff) (db_of D kMicroSecondsPerSecond)))"

definition addTime :: "'d double_ops \<Rightarrow> int \<Rightarrow> 'd \<Rightarrow> fault + int" where
  "addTime D timestamp seconds =
     (case db_int D (db_mul D seconds (db_of D kMicroSecondsPerSecond)) of
        None \<Rightarrow> Inl SignedOverflow
      | Some delta \<Rightarrow> i64 (timestamp + delta))"

text \<open>The broken-down time of \<^verbatim>\<open>localtime\<close>; \<^verbatim>\<open>tm_year\<close> counts from 1900, \<^verbatim>\<open>tm_mon\<close> from 0.\<close>

record tm =
  tm_year :: int
  tm_mon :: int
  tm_mday :: int
  tm_hour :: int
  tm_min :: int
  tm_sec :: int

text \<open>\<^verbatim>\<open>%02d\<close> and \<^verbatim>\<open>%4d\<close>.\<close>

definition pad2 :: "int \<Rightarrow> string" where
  "pad2 i = (if 0 \<le> i \<and> i < 10 then ''0'' @ decimalInt i else decimalInt i)"

definition pad4 :: "int \<Rightarrow> string" where
  "pad4 i = replicate (4 - length (decimalInt i)) (CHR '' '') @ decimalInt i"

definition dateText :: "string \<Rightarrow> char \<Rightarrow> tm \<Rightarrow> string" where
  "dateText year sep t =
     year @ [sep] @ pad2 (tm_mon t + 1) @ [sep] @ pad2 (tm_mday t) @ '' '' @
     pad2 (tm_hour t) @ '':'' @ pad2 (tm_min t) @ '':'' @ pad2 (tm_sec t)"

definition timestampToString :: "(int \<Rightarrow> tm) \<Rightarrow> int \<Rightarrow> string" where
  "timestampToString localtime us =
     (let t = localtime (secondsSinceEpoch us) in snprintf 128 (dateText (pad4 (tm_year t + 1900)) (CHR ''/'') t))"

section \<open>Logger\<close>

text \<open>The levels are the numbers of \<^verbatim>\<open>enum LogLevel\<close>.\<close>

definition INFO :: int where "INFO = 0"
definition ERROR :: int where "ERROR = 1"
definition FATAL :: int where "FATAL = 2"
definition DEBUG :: int where "DEBUG = 3"

lemmas log_levels = INFO_def ERROR_def FATAL_def DEBUG_def

text \<open>The one instance, and what it has printed.\<close>

record logger =
  loglevel :: int
  lg_out :: "string list"

definition setLogLevel :: "int \<Rightarrow> logger \<Rightarrow> logger" where
  "setLogLevel level l = l\<lparr>loglevel := level\<rparr>"

definition levelText :: "int \<Rightarrow> string" where
  "levelText level =
     (if level = INFO then ''[INFO]'' else if level = ERROR then ''[ERROR]'' else if level = FATAL then ''[FATAL]''
      else if level = DEBUG then ''[DEBUG]'' else [])"

definition logLine :: "string \<Rightarrow> string \<Rightarrow> logger \<Rightarrow> logger" where
  "logLine now msg l = l\<lparr>lg_out := lg_out l @ [levelText (loglevel l) @ now @ '':'' @ msg @ [CHR 0x0A]]\<rparr>"

text \<open>The macros: \<open>msg\<close> is what the format and its arguments print.\<close>

definition logMacro :: "int \<Rightarrow> string \<Rightarrow> string \<Rightarrow> logger \<Rightarrow> logger" where
  "logMacro level now msg l = logLine now (snprintf 1024 msg) (setLogLevel level l)"

definition logFatal :: "string \<Rightarrow> string \<Rightarrow> logger \<Rightarrow> fault + logger" where
  "logFatal now msg l = Inl ExitFailure"

text \<open>\<^verbatim>\<open>LOG_DEBUG\<close> is empty unless the program is compiled with \<^verbatim>\<open>MUDEBUG\<close>.\<close>

definition logDebug :: "bool \<Rightarrow> string \<Rightarrow> string \<Rightarrow> logger \<Rightarrow> logger" where
  "logDebug muDebug now msg l = (if muDebug then logMacro DEBUG now msg l else l)"

section \<open>Facts\<close>

lemma i64_Inr: "i64 x = Inr y \<longleftrightarrow> y = x \<and> - (2 ^ 63) \<le> x \<and> x < 2 ^ 63"
  by (auto simp: i64_def)

lemma seconds_fromUnixTime:
  assumes "fromUnixTime t us = Inr x" "0 \<le> t" "0 \<le> us" "us < 1000000"
  shows "secondsSinceEpoch x = t"
proof -
  from assms(1) have "x = t * 1000000 + us" by (auto simp: fromUnixTime_def bind_res_Inr_iff i64_Inr kMicroSecondsPerSecond_def)
  with assms(2-4) show ?thesis
    by (auto simp: secondsSinceEpoch_def kMicroSecondsPerSecond_def signed_divide_int_def sgn_if)
qed

text \<open>
  A macro sets the level of the one instance and then prints with the level it finds there:
  two calls, which another thread's may come between.
\<close>

datatype log_call = SetLevel int | LogText string string

definition macroCalls :: "int \<Rightarrow> string \<Rightarrow> string \<Rightarrow> log_call list" where
  "macroCalls level now msg = [SetLevel level, LogText now (snprintf 1024 msg)]"

fun runCall :: "log_call \<Rightarrow> logger \<Rightarrow> logger" where
  "runCall (SetLevel level) l = setLogLevel level l"
| "runCall (LogText now msg) l = logLine now msg l"

lemma macro_alone: "fold runCall (macroCalls level now msg) l = logMacro level now msg l"
  by (simp add: macroCalls_def logMacro_def)

theorem log_lines_take_the_level_of_others:
  "\<exists>cs \<in> shuffles (macroCalls ERROR now msg) (macroCalls INFO now' msg').
     lg_out (fold runCall cs l) = lg_out l @
       [levelText INFO @ now @ '':'' @ snprintf 1024 msg @ [CHR 0x0A], levelText INFO @ now' @ '':'' @ snprintf 1024 msg' @ [CHR 0x0A]]"
proof
  let ?cs = "[SetLevel ERROR, SetLevel INFO, LogText now (snprintf 1024 msg), LogText now' (snprintf 1024 msg')]"
  show "?cs \<in> shuffles (macroCalls ERROR now msg) (macroCalls INFO now' msg')" by (simp add: macroCalls_def)
  show "lg_out (fold runCall ?cs l) = lg_out l @
       [levelText INFO @ now @ '':'' @ snprintf 1024 msg @ [CHR 0x0A], levelText INFO @ now' @ '':'' @ snprintf 1024 msg' @ [CHR 0x0A]]"
    by (simp add: setLogLevel_def logLine_def)
qed

end
