(* ===== verification/ChatClient.thy ===== *)
theory ChatClient
  imports ChatServer Timestamp
begin

text \<open>
  \<^verbatim>\<open>CHAT/src/client/main.cpp\<close>: the chat client. The main thread reads commands and sends
  messages, the receiving thread takes what the server sends; a semaphore lets the main thread
  wait for the answer to a login or a registration. Standard input is modelled with the state
  of \<^verbatim>\<open>cin\<close>, output is kept in a log. What \<^verbatim>\<open>send\<close>, \<^verbatim>\<open>recv\<close> and \<^verbatim>\<open>localtime\<close> do is a
  parameter.
\<close>

section \<open>Standard input\<close>

text \<open>The characters that are still to come, and \<^verbatim>\<open>eofbit\<close> and \<^verbatim>\<open>failbit\<close> of \<^verbatim>\<open>cin\<close>.\<close>

record stdin =
  in_text :: string
  in_eof :: bool
  in_fail :: bool

definition in_good :: "stdin \<Rightarrow> bool" where
  "in_good s \<longleftrightarrow> \<not> in_eof s \<and> \<not> in_fail s"

definition newline :: char where
  "newline = CHR 0x0A"

text \<open>\<^verbatim>\<open>cin.getline(buf, n)\<close>: at most \<open>n - 1\<close> characters; a longer line sets \<^verbatim>\<open>failbit\<close>.\<close>

definition getLine :: "nat \<Rightarrow> stdin \<Rightarrow> string \<times> stdin" where
  "getLine n s =
     (if \<not> in_good s then ([], s\<lparr>in_fail := True\<rparr>)
      else let taken = take (n - 1) (takeWhile (\<lambda>c. c \<noteq> newline) (in_text s));
               rest = drop (length taken) (in_text s)
           in (taken,
               case rest of
                 [] \<Rightarrow> s\<lparr>in_text := [], in_eof := True, in_fail := (taken = [])\<rparr>
               | c # rest' \<Rightarrow> if c = newline then s\<lparr>in_text := rest'\<rparr> else s\<lparr>in_text := rest, in_fail := True\<rparr>))"

text \<open>\<^verbatim>\<open>cin >> i\<close> for an \<^verbatim>\<open>int\<close> that was 0: blanks, a sign, digits; a number out of range is clamped.\<close>

definition readInt :: "stdin \<Rightarrow> int \<times> stdin" where
  "readInt s =
     (if \<not> in_good s then (0, s\<lparr>in_fail := True\<rparr>)
      else case dropWhile isSpace (in_text s) of
             [] \<Rightarrow> (0, s\<lparr>in_text := [], in_eof := True, in_fail := True\<rparr>)
           | c # t \<Rightarrow>
               let body = (if c = CHR ''-'' \<or> c = CHR ''+'' then t else c # t);
                   ds = takeWhile isDigit body;
                   rest = dropWhile isDigit body;
                   v = (if c = CHR ''-'' then - int (readDecimal ds) else int (readDecimal ds))
               in (if ds = [] then 0 else if v < - (2 ^ 31) then - (2 ^ 31) else if 2 ^ 31 \<le> v then 2 ^ 31 - 1 else v,
                   s\<lparr>in_text := rest, in_eof := (rest = []), in_fail := (ds = [] \<or> \<not> fitsInt v)\<rparr>))"

text \<open>\<^verbatim>\<open>cin.get()\<close>, for the line end after a number.\<close>

definition getChar :: "stdin \<Rightarrow> stdin" where
  "getChar s =
     (if \<not> in_good s then s\<lparr>in_fail := True\<rparr>
      else case in_text s of [] \<Rightarrow> s\<lparr>in_eof := True, in_fail := True\<rparr> | _ # t \<Rightarrow> s\<lparr>in_text := t\<rparr>)"

section \<open>The state\<close>

text \<open>
  \<open>ClientSend\<close> holds the bytes the kernel took, \<open>Printed\<close> and \<open>Warned\<close> what went to
  \<^verbatim>\<open>cout\<close> and \<^verbatim>\<open>cerr\<close>, \<open>Received\<close> the bytes of a \<^verbatim>\<open>recv\<close>.
\<close>

datatype client_effect =
    ClientSend string
  | Printed string
  | Warned string
  | Received string
  | ClientClose

record client_env =
  ce_send :: "client_effect list \<Rightarrow> string \<Rightarrow> nat option"
  ce_time :: "client_effect list \<Rightarrow> tm"
  ce_order :: "(string \<times> string) list \<Rightarrow> (string \<times> string) list"
  ce_floats :: float_ops

text \<open>Where the main thread is: at the first menu, waiting for an answer, at the chat menu, or gone.\<close>

datatype client_at = AtMenu | AtLogin | AtReg | InMainMenu | Exited

record client =
  cl_in :: stdin
  cl_log :: "client_effect list"
  cl_at :: client_at
  g_currentUser :: chat_user
  g_currentUserFriendList :: "chat_user list"
  g_currentUserGroupList :: "group list"
  g_isLoginSuccess :: bool
  isMainMenuRunning :: bool
  rwsem :: nat

definition emit :: "client_effect \<Rightarrow> client \<Rightarrow> client" where
  "emit e w = w\<lparr>cl_log := e # cl_log w\<rparr>"

definition println :: "string \<Rightarrow> client \<Rightarrow> client" where
  "println s w = emit (Printed (s @ [newline])) w"

definition warnln :: "string \<Rightarrow> client \<Rightarrow> client" where
  "warnln s w = emit (Warned (s @ [newline])) w"

definition newClient :: "string \<Rightarrow> client" where
  "newClient input = \<lparr>cl_in = \<lparr>in_text = input, in_eof = False, in_fail = False\<rparr>, cl_log = [], cl_at = AtMenu,
     g_currentUser = newUser, g_currentUserFriendList = [], g_currentUserGroupList = [], g_isLoginSuccess = False,
     isMainMenuRunning = False, rwsem = 0\<rparr>"

text \<open>
  \<^verbatim>\<open>send(clientfd, buffer.c_str(), strlen(buffer.c_str()) + 1, 0)\<close>: the text up to its first
  NUL, and a NUL. How many bytes were taken is not looked at.
\<close>

definition clientSend :: "client_env \<Rightarrow> string \<Rightarrow> string \<Rightarrow> client \<Rightarrow> bool \<times> client" where
  "clientSend E err buf w =
     (case ce_send E (cl_log w) (cstr buf @ [CHR 0x00]) of
        None \<Rightarrow> (False, warnln (err @ buf) w)
      | Some n \<Rightarrow> (True, emit (ClientSend (take n (cstr buf @ [CHR 0x00]))) w))"

text \<open>\<open>getCurrentTime\<close> prints into \<^verbatim>\<open>char date[60]\<close>.\<close>

definition getCurrentTime :: "client_env \<Rightarrow> client \<Rightarrow> fault + string" where
  "getCurrentTime E w =
     (let t = ce_time E (cl_log w);
          s = dateText (decimalInt (tm_year t + 1900)) (CHR ''-'') t
      in if length s < 60 then Inr s else Inl OutOfBounds)"

section \<open>Answers of the server\<close>

text \<open>The texts with characters beyond ASCII are written as their bytes.\<close>

definition groupMark :: string where
  "groupMark = [CHR 0xE7, CHR 0xBE, CHR 0xA4, CHR 0xE6, CHR 0xB6, CHR 0x88, CHR 0xE6, CHR 0x81, CHR 0xAF] @ ''[''"

text \<open>\<^verbatim>\<open>cout << js[k]\<close> prints the JSON text, \<^verbatim>\<open>js[k].get<string>()\<close> the string.\<close>

definition showJson :: "client_env \<Rightarrow> json \<Rightarrow> string \<Rightarrow> fault + string" where
  "showJson E js k = bind_res (jsonAt js k) (dumpJson (ce_floats E))"

definition clientInt :: "client_env \<Rightarrow> json \<Rightarrow> string \<Rightarrow> fault + int" where
  "clientInt E js k = bind_res (jsonAt js k) (jsonInt (ce_floats E))"

definition showUser :: "chat_user \<Rightarrow> string" where
  "showUser u = dumpInt (us_id u) @ '' '' @ us_name u @ '' '' @ us_state u"

definition showMember :: "group_user \<Rightarrow> string" where
  "showMember u = ''   '' @ dumpInt (us_id u) @ '' '' @ us_name u @ '' '' @ us_state u @ '' '' @ gu_role u"

definition showGroup :: "group \<Rightarrow> string list" where
  "showGroup g = (dumpInt (gr_id g) @ '' '' @ gr_name g @ '' '' @ gr_desc g) # map showMember (gr_users g)"

definition showCurrentUserData :: "client \<Rightarrow> client" where
  "showCurrentUserData w =
     fold println
       ([''=======================login user======================'',
         ''current login user => id:'' @ dumpInt (us_id (g_currentUser w)) @ ''  name:'' @ us_name (g_currentUser w),
         ''-----------------------friend list----------------------''] @
        map showUser (g_currentUserFriendList w) @
        [''-----------------------group list----------------------''] @
        concat (map showGroup (g_currentUserGroupList w)) @
        [''=======================================================''])
       w"

definition doRegResponse :: "client_env \<Rightarrow> json \<Rightarrow> client \<Rightarrow> fault + client" where
  "doRegResponse E js w =
     bind_res (clientInt E js ''errno'') (\<lambda>errno.
     if errno \<noteq> 0 then Inr (warnln ''name is already exist,register error!'' w)
     else bind_res (showJson E js ''id'') (\<lambda>s.
          Inr (println (''name register success,userid is '' @ s @ '',do not forget it!'') w)))"

definition parseFriend :: "client_env \<Rightarrow> string \<Rightarrow> fault + chat_user" where
  "parseFriend E str =
     bind_res (parseJson (ce_floats E) str) (\<lambda>js.
     bind_res (clientInt E js ''id'') (\<lambda>i.
     bind_res (getStr js ''name'') (\<lambda>nm.
     bind_res (getStr js ''state'') (\<lambda>st.
     Inr (newUser\<lparr>us_id := i, us_name := nm, us_state := st\<rparr>)))))"

definition parseMemberOf :: "client_env \<Rightarrow> string \<Rightarrow> fault + group_user" where
  "parseMemberOf E str =
     bind_res (parseJson (ce_floats E) str) (\<lambda>js.
     bind_res (clientInt E js ''id'') (\<lambda>i.
     bind_res (getStr js ''name'') (\<lambda>nm.
     bind_res (getStr js ''state'') (\<lambda>st.
     bind_res (getStr js ''role'') (\<lambda>role.
     Inr (newGroupUser\<lparr>us_id := i, us_name := nm, us_state := st, gu_role := role\<rparr>))))))"

fun mapRes :: "('a \<Rightarrow> fault + 'b) \<Rightarrow> 'a list \<Rightarrow> fault + 'b list" where
  "mapRes f [] = Inr []"
| "mapRes f (x # xs) = bind_res (f x) (\<lambda>y. bind_res (mapRes f xs) (\<lambda>ys. Inr (y # ys)))"

definition parseGroup :: "client_env \<Rightarrow> string \<Rightarrow> fault + group" where
  "parseGroup E str =
     bind_res (parseJson (ce_floats E) str) (\<lambda>js.
     bind_res (clientInt E js ''id'') (\<lambda>i.
     bind_res (getStr js ''groupname'') (\<lambda>nm.
     bind_res (getStr js ''groupdesc'') (\<lambda>desc.
     bind_res (jsonAt js ''users'') (\<lambda>us.
     bind_res (jsonStrList us) (\<lambda>vec2.
     bind_res (mapRes (parseMemberOf E) vec2) (\<lambda>us.
     Inr ((newGroup i nm desc)\<lparr>gr_users := us\<rparr>))))))))"

text \<open>The line for a chat message; \<open>said\<close> differs by a blank between the two places that print it.\<close>

definition showMessage :: "client_env \<Rightarrow> string \<Rightarrow> json \<Rightarrow> fault + string" where
  "showMessage E said js =
     bind_res (getStr js ''time'') (\<lambda>tim.
     bind_res (showJson E js ''id'') (\<lambda>i.
     bind_res (getStr js ''name'') (\<lambda>nm.
     bind_res (getStr js ''msg'') (\<lambda>msg.
     Inr (tim @ '' ['' @ i @ '']'' @ nm @ said @ msg)))))"

definition showGroupMessage :: "client_env \<Rightarrow> string \<Rightarrow> json \<Rightarrow> fault + string" where
  "showGroupMessage E said js =
     bind_res (showJson E js ''groupid'') (\<lambda>g.
     bind_res (showMessage E said js) (\<lambda>s.
     Inr (groupMark @ g @ '']:'' @ s)))"

fun showOffline :: "client_env \<Rightarrow> string list \<Rightarrow> client \<Rightarrow> fault + client" where
  "showOffline E [] w = Inr w"
| "showOffline E (str # strs) w =
     bind_res (parseJson (ce_floats E) str) (\<lambda>js.
     bind_res (clientInt E js ''msgid'') (\<lambda>msgtype.
     bind_res
       (if msgtype = ONE_CHAT_MSG then bind_res (showMessage E ''said:'' js) (\<lambda>s. Inr (println s w))
        else if msgtype = GROUP_CHAT_MSG then bind_res (showGroupMessage E ''said:'' js) (\<lambda>s. Inr (println s w))
        else Inr w)
       (showOffline E strs)))"

text \<open>A field of the response that may be there, as a list of strings.\<close>

definition optStrings :: "json \<Rightarrow> string \<Rightarrow> fault + string list option" where
  "optStrings js k =
     (if jsonContains js k then bind_res (jsonAt js k) (\<lambda>v. bind_res (jsonStrList v) (\<lambda>vec. Inr (Some vec)))
      else Inr None)"

definition doLoginResponse :: "client_env \<Rightarrow> json \<Rightarrow> client \<Rightarrow> fault + client" where
  "doLoginResponse E js w =
     bind_res (clientInt E js ''errno'') (\<lambda>errno.
     if errno \<noteq> 0
     then bind_res (showJson E js ''errmsg'') (\<lambda>s. Inr ((warnln s w)\<lparr>g_isLoginSuccess := False\<rparr>))
     else bind_res (clientInt E js ''id'') (\<lambda>i.
          bind_res (getStr js ''name'') (\<lambda>nm.
          let w = w\<lparr>g_currentUser := (g_currentUser w)\<lparr>us_id := i, us_name := nm\<rparr>\<rparr>
          in bind_res (optStrings js ''friends'') (\<lambda>friends.
             bind_res (case friends of None \<Rightarrow> Inr w
               | Some vec \<Rightarrow> bind_res (mapRes (parseFriend E) vec) (\<lambda>us. Inr (w\<lparr>g_currentUserFriendList := us\<rparr>))) (\<lambda>w.
             bind_res (optStrings js ''groups'') (\<lambda>groups.
             bind_res (case groups of None \<Rightarrow> Inr w
               | Some vec1 \<Rightarrow> bind_res (mapRes (parseGroup E) vec1) (\<lambda>gs. Inr (w\<lparr>g_currentUserGroupList := gs\<rparr>))) (\<lambda>w.
             bind_res (optStrings js ''offlinemsg'') (\<lambda>msgs.
             bind_res (showOffline E (case msgs of None \<Rightarrow> [] | Some vec \<Rightarrow> vec) (showCurrentUserData w)) (\<lambda>w.
             Inr (w\<lparr>g_isLoginSuccess := True\<rparr>))))))))))"

text \<open>
  One turn of \<open>readTaskHandler\<close>, for what \<^verbatim>\<open>recv\<close> gave: \<open>None\<close> stands for -1 and for 0. The
  buffer of 1024 bytes is zero behind the data, and all of it goes to the parser.
\<close>

definition recvBuf :: nat where
  "recvBuf = 1024"

definition readTask :: "client_env \<Rightarrow> string option \<Rightarrow> client \<Rightarrow> fault + client" where
  "readTask E data w =
     (case data of
        None \<Rightarrow> Inl ExitFailure
      | Some bytes \<Rightarrow>
          let w = emit (Received bytes) w
          in bind_res (parseJson (ce_floats E) (bytes @ replicate (recvBuf - length bytes) (CHR 0x00))) (\<lambda>js.
             bind_res (clientInt E js ''msgid'') (\<lambda>msgtype.
             if msgtype = ONE_CHAT_MSG then bind_res (showMessage E '' said:'' js) (\<lambda>s. Inr (println s w))
             else if msgtype = GROUP_CHAT_MSG then bind_res (showGroupMessage E '' said:'' js) (\<lambda>s. Inr (println s w))
             else if msgtype = LOGIN_MSG_ACK then bind_res (doLoginResponse E js w) (\<lambda>w. Inr (w\<lparr>rwsem := rwsem w + 1\<rparr>))
             else if msgtype = REG_MSG_ACK then bind_res (doRegResponse E js w) (\<lambda>w. Inr (w\<lparr>rwsem := rwsem w + 1\<rparr>))
             else Inr w)))"

section \<open>The commands\<close>

definition commandMap :: "(string \<times> string) list" where
  "commandMap =
     [(''help'', [CHR 0xE6, CHR 0x98, CHR 0xBE, CHR 0xE7, CHR 0xA4, CHR 0xBA, CHR 0xE6, CHR 0x89, CHR 0x80, CHR 0xE6, CHR 0x9C, CHR 0x89, CHR 0xE6, CHR 0x94, CHR 0xAF, CHR 0xE6, CHR 0x8C, CHR 0x81, CHR 0xE7, CHR 0x9A, CHR 0x84, CHR 0xE5, CHR 0x91, CHR 0xBD, CHR 0xE4, CHR 0xBB, CHR 0xA4, CHR 0xEF, CHR 0xBC, CHR 0x8C, CHR 0xE6, CHR 0xA0, CHR 0xBC, CHR 0xE5, CHR 0xBC, CHR 0x8F] @ ''help''),
      (''chat'', [CHR 0xE4, CHR 0xB8, CHR 0x80, CHR 0xE5, CHR 0xAF, CHR 0xB9, CHR 0xE4, CHR 0xB8, CHR 0x80, CHR 0xE4, CHR 0xBA, CHR 0x86, CHR 0xE5, CHR 0xA4, CHR 0xA9, CHR 0xEF, CHR 0xBC, CHR 0x8C, CHR 0xE6, CHR 0xA0, CHR 0xBC, CHR 0xE5, CHR 0xBC, CHR 0x8F] @ ''chat:friendid:message''),
      (''addfriend'', [CHR 0xE6, CHR 0xB7, CHR 0xBB, CHR 0xE5, CHR 0x8A, CHR 0xA0, CHR 0xE5, CHR 0xA5, CHR 0xBD, CHR 0xE5, CHR 0x8F, CHR 0x8B, CHR 0xEF, CHR 0xBC, CHR 0x8C, CHR 0xE6, CHR 0xA0, CHR 0xBC, CHR 0xE5, CHR 0xBC, CHR 0x8F] @ ''addfriend:friendid''),
      (''creategroup'', [CHR 0xE5, CHR 0x88, CHR 0x9B, CHR 0xE5, CHR 0xBB, CHR 0xBA, CHR 0xE7, CHR 0xBE, CHR 0xA4, CHR 0xE7, CHR 0xBB, CHR 0x84, CHR 0xEF, CHR 0xBC, CHR 0x8C, CHR 0xE6, CHR 0xA0, CHR 0xBC, CHR 0xE5, CHR 0xBC, CHR 0x8F] @ ''creategroup:groupname:groupdesc''),
      (''addgroup'', [CHR 0xE5, CHR 0x8A, CHR 0xA0, CHR 0xE5, CHR 0x85, CHR 0xA5, CHR 0xE7, CHR 0xBE, CHR 0xA4, CHR 0xE7, CHR 0xBB, CHR 0x84, CHR 0xEF, CHR 0xBC, CHR 0x8C, CHR 0xE6, CHR 0xA0, CHR 0xBC, CHR 0xE5, CHR 0xBC, CHR 0x8F] @ ''addgroup:groupid''),
      (''groupchat'', [CHR 0xE7, CHR 0xBE, CHR 0xA4, CHR 0xE8, CHR 0x81, CHR 0x8A, CHR 0xEF, CHR 0xBC, CHR 0x8C, CHR 0xE6, CHR 0xA0, CHR 0xBC, CHR 0xE5, CHR 0xBC, CHR 0x8F] @ ''groupchat:groupid:message''),
      (''loginout'', [CHR 0xE6, CHR 0xB3, CHR 0xA8, CHR 0xE9, CHR 0x94, CHR 0x80, CHR 0xEF, CHR 0xBC, CHR 0x8C, CHR 0xE6, CHR 0xA0, CHR 0xBC, CHR 0xE5, CHR 0xBC, CHR 0x8F] @ ''loginout'')]"

definition clientHelp :: "client_env \<Rightarrow> client \<Rightarrow> client" where
  "clientHelp E w =
     fold println ([''show command list >>>''] @ map (\<lambda>(c, d). c @ '' : '' @ d) (ce_order E commandMap) @ [[]]) w"

text \<open>\<^verbatim>\<open>find\<close> of the first colon and the two \<^verbatim>\<open>substr\<close> around it.\<close>

definition splitColon :: "string \<Rightarrow> (string \<times> string) option" where
  "splitColon s =
     (case dropWhile (\<lambda>c. c \<noteq> CHR '':'') s of [] \<Rightarrow> None | _ # rest \<Rightarrow> Some (takeWhile (\<lambda>c. c \<noteq> CHR '':'') s, rest))"

text \<open>\<^verbatim>\<open>stoi\<close> throws where \<^verbatim>\<open>atoi\<close> does not.\<close>

definition stoi :: "string \<Rightarrow> fault + int" where
  "stoi s =
     (if snd (signedDigits s) = [] then Inl StdInvalidArgument
      else if fitsInt (numeralValue s) then Inr (numeralValue s) else Inl StdOutOfRange)"

definition clientMessage :: "int \<Rightarrow> client \<Rightarrow> json" where
  "clientMessage msgid w = jsonSet ''id'' (JInt (us_id (g_currentUser w))) (jsonSet ''msgid'' (JInt msgid) JNull)"

text \<open>The end of every command: \<^verbatim>\<open>string buffer = js.dump()\<close>, and the \<^verbatim>\<open>send\<close>.\<close>

definition sendCommand :: "client_env \<Rightarrow> string \<Rightarrow> json \<Rightarrow> client \<Rightarrow> fault + client" where
  "sendCommand E err js w = bind_res (dumpJson (ce_floats E) js) (\<lambda>buf. Inr (snd (clientSend E err buf w)))"

definition clientChat :: "client_env \<Rightarrow> string \<Rightarrow> client \<Rightarrow> fault + client" where
  "clientChat E str w =
     (case splitColon str of
        None \<Rightarrow> Inr (warnln ''chat command invalid!'' w)
      | Some (f, msg) \<Rightarrow>
          bind_res (atoi (cstr f)) (\<lambda>friendid.
          bind_res (getCurrentTime E w) (\<lambda>now.
          sendCommand E ''send chat msg error ->''
            (jsonSet ''time'' (JString now)
              (jsonSet ''msg'' (JString msg)
                (jsonSet ''to'' (JInt friendid)
                  (jsonSet ''name'' (JString (us_name (g_currentUser w))) (clientMessage ONE_CHAT_MSG w))))) w)))"

definition clientAddfriend :: "client_env \<Rightarrow> string \<Rightarrow> client \<Rightarrow> fault + client" where
  "clientAddfriend E str w =
     bind_res (atoi (cstr str)) (\<lambda>friendid.
     sendCommand E ''send addfriend msg error -> '' (jsonSet ''friendid'' (JInt friendid) (clientMessage ADD_FRIEND_MSG w)) w)"

definition clientCreategroup :: "client_env \<Rightarrow> string \<Rightarrow> client \<Rightarrow> fault + client" where
  "clientCreategroup E str w =
     (case splitColon str of
        None \<Rightarrow> Inr (warnln ''creategroup command invalid!'' w)
      | Some (groupname, groupdesc) \<Rightarrow>
          sendCommand E ''send creategroup msg error -> ''
            (jsonSet ''groupdesc'' (JString groupdesc)
              (jsonSet ''groupname'' (JString groupname) (clientMessage CREATE_GROUP_MSG w))) w)"

definition clientAddgroup :: "client_env \<Rightarrow> string \<Rightarrow> client \<Rightarrow> fault + client" where
  "clientAddgroup E str w =
     bind_res (stoi str) (\<lambda>groupid.
     sendCommand E ''send addgroup msg error -> '' (jsonSet ''groupid'' (JInt groupid) (clientMessage ADD_GROUP_MSG w)) w)"

definition clientGroupchat :: "client_env \<Rightarrow> string \<Rightarrow> client \<Rightarrow> fault + client" where
  "clientGroupchat E str w =
     (case splitColon str of
        None \<Rightarrow> Inr (warnln ''groupchat command invalid!'' w)
      | Some (g, msg) \<Rightarrow>
          bind_res (stoi g) (\<lambda>groupid.
          bind_res (getCurrentTime E w) (\<lambda>now.
          sendCommand E ''send groupchat msg error -> ''
            (jsonSet ''time'' (JString now)
              (jsonSet ''msg'' (JString msg)
                (jsonSet ''groupid'' (JInt groupid)
                  (jsonSet ''name'' (JString (us_name (g_currentUser w))) (clientMessage GROUP_CHAT_MSG w))))) w)))"

definition clientLoginout :: "client_env \<Rightarrow> string \<Rightarrow> client \<Rightarrow> fault + client" where
  "clientLoginout E str w =
     bind_res (dumpJson (ce_floats E) (clientMessage LOGINOUT_MSG w)) (\<lambda>buf.
     case clientSend E ''send loginout msg error -> '' buf w of
       (ok, w) \<Rightarrow> Inr (if ok then w\<lparr>isMainMenuRunning := False\<rparr> else w))"

definition commandHandlerMap :: "client_env \<Rightarrow> (string \<times> (string \<Rightarrow> client \<Rightarrow> fault + client)) list" where
  "commandHandlerMap E =
     [(''help'', \<lambda>str w. Inr (clientHelp E w)), (''chat'', clientChat E), (''addfriend'', clientAddfriend E),
      (''creategroup'', clientCreategroup E), (''addgroup'', clientAddgroup E), (''groupchat'', clientGroupchat E),
      (''loginout'', clientLoginout E)]"

text \<open>One turn of \<open>mainMenu\<close>. Without a colon the command is the line, and so is its argument.\<close>

definition commandTurn :: "client_env \<Rightarrow> client \<Rightarrow> fault + client" where
  "commandTurn E w =
     (if \<not> isMainMenuRunning w then Inr (w\<lparr>cl_at := AtMenu\<rparr>)
      else case getLine 1024 (cl_in w) of
             (buffer, inp) \<Rightarrow>
               let w = w\<lparr>cl_in := inp\<rparr>;
                   commandbuf = cstr buffer;
                   (command, arg) = (case splitColon commandbuf of None \<Rightarrow> (commandbuf, commandbuf) | Some ca \<Rightarrow> ca)
               in case map_of (commandHandlerMap E) command of
                    None \<Rightarrow> Inr (warnln ''invalid input command!'' w)
                  | Some h \<Rightarrow> h arg w)"

section \<open>main\<close>

text \<open>
  The start: \<^verbatim>\<open>main\<close> complains about missing arguments and goes on to \<^verbatim>\<open>atoi\<close> of what is not
  there. \<open>sock\<close> and \<open>conn\<close> say whether \<^verbatim>\<open>socket\<close> and \<^verbatim>\<open>connect\<close> succeeded.
\<close>

definition clientMain :: "bool \<Rightarrow> bool \<Rightarrow> string list \<Rightarrow> fault + (string \<times> 16 word)" where
  "clientMain sock conn argv =
     (if length argv < 2 then Inl OutOfBounds
      else if length argv < 3 then Inl NullDeref
      else bind_res (atoi (argv ! 2)) (\<lambda>port.
           if \<not> sock \<or> \<not> conn then Inl ExitFailure else Inr (argv ! 1, word_of_int port)))"

definition menuText :: "string list" where
  "menuText = [''==========================='', ''1. login'', ''2. register'', ''3. quit'', ''==========================='']"

text \<open>
  One turn of the loop of \<open>main\<close>, up to the wait for the answer. \<^verbatim>\<open>pwd\<close> and \<^verbatim>\<open>name\<close> are
  \<^verbatim>\<open>char[50]\<close>.
\<close>

definition menuTurn :: "client_env \<Rightarrow> client \<Rightarrow> fault + client" where
  "menuTurn E w =
     (let w = emit (Printed ''choice:'') (fold println menuText w)
      in case readInt (cl_in w) of
           (choice, inp) \<Rightarrow>
             let w = w\<lparr>cl_in := getChar inp\<rparr>
             in if choice = 1
                then let w = emit (Printed ''userid:'') w
                     in case readInt (cl_in w) of
                          (i, inp) \<Rightarrow>
                            let w = emit (Printed ''userpassword:'') (w\<lparr>cl_in := getChar inp\<rparr>)
                            in case getLine 50 (cl_in w) of
                                 (pwd, inp) \<Rightarrow>
                                   let w = w\<lparr>cl_in := inp\<rparr>;
                                       js = jsonSet ''password'' (JString (cstr pwd))
                                         (jsonSet ''id'' (JInt i) (jsonSet ''msgid'' (JInt LOGIN_MSG) JNull))
                                   in bind_res (dumpJson (ce_floats E) js) (\<lambda>request.
                                      let w = w\<lparr>g_isLoginSuccess := False\<rparr>;
                                          w = snd (clientSend E ''send login msg error:'' request w)
                                      in Inr (w\<lparr>cl_at := AtLogin\<rparr>))
                else if choice = 2
                then let w = emit (Printed ''username:'') w
                     in case getLine 50 (cl_in w) of
                          (nm, inp) \<Rightarrow>
                            let w = emit (Printed ''userpassword:'') (w\<lparr>cl_in := inp\<rparr>)
                            in case getLine 50 (cl_in w) of
                                 (pwd, inp) \<Rightarrow>
                                   let w = w\<lparr>cl_in := inp\<rparr>;
                                       js = jsonSet ''password'' (JString (cstr pwd))
                                         (jsonSet ''name'' (JString (cstr nm)) (jsonSet ''msgid'' (JInt REG_MSG) JNull))
                                   in bind_res (dumpJson (ce_floats E) js) (\<lambda>request.
                                      case ce_send E (cl_log w) (cstr request @ [CHR 0x00]) of
                                        None \<Rightarrow> Inr ((warnln ''recv reg response error'' w)\<lparr>cl_at := AtReg\<rparr>)
                                      | Some n \<Rightarrow> Inr ((emit (ClientSend (take n (cstr request @ [CHR 0x00]))) w)\<lparr>cl_at := AtReg\<rparr>))
                else if choice = 3 then Inr ((emit ClientClose w)\<lparr>cl_at := Exited\<rparr>)
                else Inr (warnln ''invalid input!'' w))"

text \<open>After \<^verbatim>\<open>sem_wait\<close>; \<open>mainMenu\<close> first shows the help.\<close>

definition afterWait :: "client_env \<Rightarrow> client \<Rightarrow> client" where
  "afterWait E w =
     (let w = w\<lparr>rwsem := rwsem w - 1\<rparr>
      in if cl_at w = AtLogin \<and> g_isLoginSuccess w
         then clientHelp E (w\<lparr>isMainMenuRunning := True, cl_at := InMainMenu\<rparr>)
         else w\<lparr>cl_at := AtMenu\<rparr>)"

text \<open>The two threads.\<close>

inductive client_step :: "client_env \<Rightarrow> client \<Rightarrow> client \<Rightarrow> bool" for E where
  menu: "cl_at w = AtMenu \<Longrightarrow> menuTurn E w = Inr w' \<Longrightarrow> client_step E w w'"
| answered: "cl_at w = AtLogin \<or> cl_at w = AtReg \<Longrightarrow> 0 < rwsem w \<Longrightarrow> client_step E w (afterWait E w)"
| command: "cl_at w = InMainMenu \<Longrightarrow> commandTurn E w = Inr w' \<Longrightarrow> client_step E w w'"
| receive: "cl_at w \<noteq> Exited \<Longrightarrow> data \<noteq> [] \<Longrightarrow> length data \<le> recvBuf \<Longrightarrow> readTask E (Some data) w = Inr w' \<Longrightarrow> client_step E w w'"

inductive_cases client_stepE: "client_step E w w'"

inductive client_reaches :: "client_env \<Rightarrow> string \<Rightarrow> client \<Rightarrow> bool" for E input where
  start: "client_reaches E input (newClient input)"
| step: "client_reaches E input w \<Longrightarrow> client_step E w w' \<Longrightarrow> client_reaches E input w'"

end
