(* ===== verification/ChatTravel.thy ===== *)
theory ChatTravel
  imports ChatClient
begin

text \<open>
  What the client does with its input and with what the server sends, and a chat message on
  its whole way: from the line a user types, through the server, to the line another user
  reads.
\<close>

section \<open>Printed texts have no NUL\<close>

lemma escaped_no_nul: "byte c < 128 \<Longrightarrow> CHR 0x00 \<notin> set (escaped (byte c) c)"
proof -
  assume "byte c < 128"
  have h: "hexDigit d \<noteq> CHR 0x00" if "d < 16" for d
  proof
    assume "hexDigit d = CHR 0x00"
    then have "byte (hexDigit d) = 0" by (simp add: byte_def)
    with that byte_char [of "48 + d"] byte_char [of "87 + d"] show False by (auto simp: hexDigit_def split: if_splits)
  qed
  have "byte c div 16 < 16" "byte c mod 16 < 16" using \<open>byte c < 128\<close> by simp_all
  with h [of "byte c div 16"] h [of "byte c mod 16"] show ?thesis
    by (auto simp: escaped_def backslash_def dquote_def byte_def)
qed

lemma dumpEscaped_no_nul:
  "dumpEscaped st cp s = Inr e \<Longrightarrow> codepOk st cp \<Longrightarrow> CHR 0x00 \<notin> set e"
proof (induction s arbitrary: st cp e)
  case Nil
  then show ?case by (auto split: if_splits)
next
  case (Cons c s)
  have zero: "codepOk 0 cp''" for cp'' by (simp add: codepOk_def)
  from Cons.prems(1) obtain st' cp' e' where d: "decode st cp (byte c) = (st', cp')"
    and r: "st' \<noteq> 1" "dumpEscaped st' cp' s = Inr e'" "e = (if st' = 0 then escaped cp' c else [c]) @ e'"
    unfolding dumpEscaped_Cons by blast
  show ?case
  proof (cases "st = 0")
    case True
    note f = decode_first [OF byte_less d [unfolded True]]
    show ?thesis
    proof (cases "byte c < 128")
      case low: True
      with f r(1) have s0: "st' = 0" "cp' = byte c" by auto
      with r(2) zero Cons.IH have "CHR 0x00 \<notin> set e'" by blast
      with r(3) s0 escaped_no_nul [OF low] show ?thesis by simp
    next
      case False
      with f r(1) have "st' \<noteq> 0" "codepOk st' cp'" by auto
      with r Cons.IH False show ?thesis by (auto simp: byte_def)
    qed
  next
    case False
    from decode_follow [OF byte_less False Cons.prems(2) d] r(1) obtain lo hi rs where
      f: "pendingRanges st = (lo, hi) # rs" "lo \<le> byte c" "codepOk st' cp'" "st' = 0 \<longrightarrow> 128 \<le> cp'" by auto
    then have "128 \<le> byte c" by (auto simp: pendingRanges_def split: if_splits)
    moreover have "(if st' = 0 then escaped cp' c else [c]) = [c]" using f(4) by (auto simp: escaped_def)
    ultimately show ?thesis using Cons.IH [OF r(2) f(3)] r(3) by (auto simp: byte_def)
  qed
qed

lemma dumpString_no_nul: "dumpString s = Inr e \<Longrightarrow> CHR 0x00 \<notin> set e"
  using dumpEscaped_no_nul [of 0 0 s] by (auto simp: dumpString_def bind_res_Inr_iff utf8Accept_def codepOk_def dquote_def)

lemma dumpInt_no_nul: "CHR 0x00 \<notin> set (dumpInt i)"
  using dumpInt_chars [of "CHR 0x00" i] by (auto simp: isDigit_def byte_def)

lemma dump_no_nul:
  "dumpJson F j = Inr s \<Longrightarrow> json_ok j \<Longrightarrow> CHR 0x00 \<notin> set s"
  "dumpElems F js = Inr s \<Longrightarrow> \<forall>j \<in> set js. json_ok j \<Longrightarrow> CHR 0x00 \<notin> set s"
  "dumpMembers F m = Inr s \<Longrightarrow> \<forall>kv \<in> set m. json_ok (snd kv) \<Longrightarrow> CHR 0x00 \<notin> set s"
proof (induction F j and F js and F m arbitrary: s and s and s rule: dumpJson_dumpElems_dumpMembers.induct)
  case (11 F k j m)
  then show ?case by (fastforce simp: bind_res_Inr_iff split: if_splits dest: dumpString_no_nul)
next
  case (9 F j js)
  then show ?case by (fastforce simp: bind_res_Inr_iff split: if_splits)
qed (auto simp: bind_res_Inr_iff dumpInt_no_nul dumpString_no_nul split: if_splits)

section \<open>Output changes the log only\<close>

definition clLogged :: "client_effect list \<Rightarrow> client \<Rightarrow> client" where
  "clLogged es w = w\<lparr>cl_log := es @ cl_log w\<rparr>"

lemma clLogged_simps [simp]:
  "cl_in (clLogged es w) = cl_in w" "cl_log (clLogged es w) = es @ cl_log w" "cl_at (clLogged es w) = cl_at w"
  "g_currentUser (clLogged es w) = g_currentUser w" "g_currentUserFriendList (clLogged es w) = g_currentUserFriendList w"
  "g_currentUserGroupList (clLogged es w) = g_currentUserGroupList w" "g_isLoginSuccess (clLogged es w) = g_isLoginSuccess w"
  "isMainMenuRunning (clLogged es w) = isMainMenuRunning w" "rwsem (clLogged es w) = rwsem w"
  by (simp_all add: clLogged_def)

lemma clLogged_clLogged [simp]: "clLogged es (clLogged fs w) = clLogged (es @ fs) w"
  by (simp add: clLogged_def)

lemma clLogged_Nil: "clLogged [] w = w"
  by (simp add: clLogged_def)

lemma output_logged:
  "emit e w = clLogged [e] w" "println s w = clLogged [Printed (s @ [newline])] w" "warnln s w = clLogged [Warned (s @ [newline])] w"
  by (simp_all add: emit_def println_def warnln_def clLogged_def)

lemma lines_logged: "fold println ls w = clLogged (rev (map (\<lambda>s. Printed (s @ [newline])) ls)) w"
  by (induction ls arbitrary: w) (simp_all add: output_logged clLogged_Nil)

text \<open>From \<open>w\<close> to \<open>w'\<close> only the log has grown.\<close>

definition outputs :: "client \<Rightarrow> client \<Rightarrow> bool" where
  "outputs w w' \<longleftrightarrow> (\<exists>es. w' = clLogged es w)"

lemma outputs_refl [simp]: "outputs w w"
  unfolding outputs_def using clLogged_Nil by metis

lemma outputs_trans: "outputs w w1 \<Longrightarrow> outputs w1 w2 \<Longrightarrow> outputs w w2"
  by (auto simp: outputs_def)

lemma outputs_steps [simp]:
  "outputs w (emit e w)" "outputs w (println s w)" "outputs w (warnln s w)" "outputs w (fold println ls w)"
  "outputs w (clientHelp E w)" "outputs w (showCurrentUserData w)" "outputs w (snd (clientSend E err buf w))"
  by (auto simp: outputs_def output_logged lines_logged clientHelp_def showCurrentUserData_def clientSend_def split: option.splits)

lemma sendCommand_outputs: "sendCommand E err js w = Inr w' \<Longrightarrow> outputs w w'"
  by (auto simp: sendCommand_def bind_res_Inr_iff)

lemma outputs_state:
  "outputs w w' \<Longrightarrow> cl_in w' = cl_in w \<and> cl_at w' = cl_at w \<and> g_currentUser w' = g_currentUser w \<and>
     g_currentUserFriendList w' = g_currentUserFriendList w \<and> g_currentUserGroupList w' = g_currentUserGroupList w \<and>
     g_isLoginSuccess w' = g_isLoginSuccess w \<and> isMainMenuRunning w' = isMainMenuRunning w \<and> rwsem w' = rwsem w \<and>
     (\<exists>es. cl_log w' = es @ cl_log w)"
  by (auto simp: outputs_def)

lemma showOffline_outputs: "showOffline E strs w = Inr w' \<Longrightarrow> outputs w w'"
proof (induction strs arbitrary: w)
  case (Cons str strs)
  then obtain w1 where "showOffline E strs w1 = Inr w'" "outputs w w1"
    by (fastforce simp: bind_res_Inr_iff split: if_splits)
  with Cons.IH outputs_trans show ?case by blast
qed simp

text \<open>A command only logs, and \<^verbatim>\<open>loginout\<close> also ends the chat menu.\<close>

definition commanded :: "client \<Rightarrow> client \<Rightarrow> bool" where
  "commanded w w' \<longleftrightarrow> (\<exists>b. outputs (w\<lparr>isMainMenuRunning := b\<rparr>) w')"

lemma commanded_outputs: "outputs w w' \<Longrightarrow> commanded w w'"
proof -
  assume "outputs w w'"
  then have "outputs (w\<lparr>isMainMenuRunning := isMainMenuRunning w\<rparr>) w'" by simp
  then show ?thesis unfolding commanded_def by blast
qed

lemma clientLoginout_commanded:
  assumes "clientLoginout E str w = Inr w'"
  shows "commanded w w'"
proof -
  from assms obtain buf where b: "(case clientSend E ''send loginout msg error -> '' buf w of
      (ok, w) \<Rightarrow> Inr (if ok then w\<lparr>isMainMenuRunning := False\<rparr> else w)) = (Inr w' :: fault + client)"
    unfolding clientLoginout_def bind_res_Inr_iff by blast
  obtain ok w1 where c: "clientSend E ''send loginout msg error -> '' buf w = (ok, w1)" by fastforce
  have o: "outputs w w1" using outputs_steps(7) [of w E "''send loginout msg error -> ''" buf] by (simp add: c)
  then obtain es where "w1 = clLogged es w" by (auto simp: outputs_def)
  then have "w1\<lparr>isMainMenuRunning := False\<rparr> = clLogged es (w\<lparr>isMainMenuRunning := False\<rparr>)" by (simp add: clLogged_def)
  then have "outputs (w\<lparr>isMainMenuRunning := False\<rparr>) (w1\<lparr>isMainMenuRunning := False\<rparr>)"
    unfolding outputs_def by blast
  then have "commanded w (w1\<lparr>isMainMenuRunning := False\<rparr>)" unfolding commanded_def by blast
  with b c commanded_outputs [OF o] show ?thesis by (cases ok) simp_all
qed

lemma command_commanded:
  assumes "map_of (commandHandlerMap E) command = Some h" "h arg w = Inr w'"
  shows "commanded w w'"
proof -
  from assms(1) consider "h = (\<lambda>str w. Inr (clientHelp E w))" | "h = clientChat E" | "h = clientAddfriend E"
    | "h = clientCreategroup E" | "h = clientAddgroup E" | "h = clientGroupchat E" | "h = clientLoginout E"
    by (auto simp: commandHandlerMap_def split: if_splits)
  then show ?thesis
  proof cases
    case 7
    with assms(2) show ?thesis by (simp add: clientLoginout_commanded)
  qed (use assms(2) in \<open>auto intro!: commanded_outputs simp: clientChat_def clientAddfriend_def clientCreategroup_def
      clientAddgroup_def clientGroupchat_def bind_res_Inr_iff split: option.splits dest: sendCommand_outputs\<close>)
qed

text \<open>One turn of the chat menu reads a line and runs a command.\<close>

lemma commandTurn_commanded:
  assumes "commandTurn E w = Inr w'" "isMainMenuRunning w"
  shows "commanded (w\<lparr>cl_in := snd (getLine 1024 (cl_in w))\<rparr>) w'"
proof -
  obtain buffer inp where g: "getLine 1024 (cl_in w) = (buffer, inp)" by fastforce
  let ?w = "w\<lparr>cl_in := inp\<rparr>"
  obtain command arg where ca: "(case splitColon (cstr buffer) of None \<Rightarrow> (cstr buffer, cstr buffer) | Some ca \<Rightarrow> ca) = (command, arg)"
    by fastforce
  from assms g ca have "(case map_of (commandHandlerMap E) command of
      None \<Rightarrow> Inr (warnln ''invalid input command!'' ?w) | Some h \<Rightarrow> h arg ?w) = Inr w'"
    by (simp add: commandTurn_def Let_def)
  then have "commanded ?w w'"
    by (auto split: option.splits intro: commanded_outputs command_commanded)
  then show ?thesis by (simp add: g)
qed

section \<open>The main thread\<close>

text \<open>A turn of the main thread where it does not wait.\<close>

definition mainTurn :: "client_env \<Rightarrow> client \<Rightarrow> fault + client" where
  "mainTurn E w = (case cl_at w of AtMenu \<Rightarrow> menuTurn E w | InMainMenu \<Rightarrow> commandTurn E w | _ \<Rightarrow> Inr w)"

definition sentBytes :: "client_effect list \<Rightarrow> string list" where
  "sentBytes log = concat (map (\<lambda>e. case e of ClientSend b \<Rightarrow> [b] | _ \<Rightarrow> []) (rev log))"

text \<open>Surroundings for the examples: every byte is sent, the clock stands still.\<close>

definition sampleEnv :: client_env where
  "sampleEnv = \<lparr>ce_send = (\<lambda>log s. Some (length s)),
     ce_time = (\<lambda>log. \<lparr>tm_year = 120, tm_mon = 0, tm_mday = 2, tm_hour = 3, tm_min = 4, tm_sec = 5\<rparr>),
     ce_order = (\<lambda>m. m), ce_floats = plainFloats\<rparr>"

definition chatting :: "string \<Rightarrow> client" where
  "chatting input = (newClient input)\<lparr>cl_at := InMainMenu, isMainMenuRunning := True,
     g_currentUser := newUser\<lparr>us_id := 1, us_name := ''ann''\<rparr>\<rparr>"

section \<open>Reading\<close>

lemma padded_parse:
  assumes "json_ok j" "dumpJson F j = Inr s"
  shows "parseJson F (s @ replicate n (CHR 0x00)) = Inr j"
  using parse_dumped [OF assms, of "replicate n (CHR 0x00)"] by (cases n) simp_all

text \<open>
  Two messages of the server that arrive in one \<^verbatim>\<open>recv\<close> end the client: the server sends
  the bare text of a message, without the NUL the clients append, the parser wants one value and
  then the end of the input, and nobody catches its exception.
\<close>

theorem joined_messages_end_client:
  assumes "m \<noteq> []" "json_ok (JObject m)" "dumpJson (ce_floats E) (JObject m) = Inr s"
    and "m' \<noteq> []" "dumpJson (ce_floats E) (JObject m') = Inr s'" "length (s @ s') \<le> recvBuf"
  shows "readTask E (Some (s @ s')) w = Inl JsonParse"
proof -
  from assms(1,3) obtain e where e: "dumpMembers (ce_floats E) m = Inr e" "s = CHR ''{'' # e @ ''}''"
    by (auto simp: bind_res_Inr_iff)
  from assms(4,5) obtain e' where e': "s' = CHR ''{'' # e'" by (auto simp: bind_res_Inr_iff)
  from assms(2) have ok: "\<forall>kv \<in> set m. json_ok (snd kv)" by simp
  let ?t = "s' @ replicate (recvBuf - length (s @ s')) (CHR 0x00)"
  have "fst (scan (e @ CHR ''}'' # ?t)) \<noteq> TokEndObject" by (rule scan_members_not_end [OF e(1) assms(1)])
  then have "parseNext (ce_floats E) [] (s @ ?t) = afterValue (ce_floats E) (JObject (fold (\<lambda>(k, v). objSet k v) m [])) [] ?t"
    by (simp add: e(2) parseNext_object parseMember_any [OF e(1) assms(1) ok])
  moreover have "fst (scan ?t) = TokBeginObject" by (simp add: e' scan_structural)
  moreover have "skipBom (s @ ?t) = Some (s @ ?t)" by (simp add: e(2) skipBom_def byte_def)
  ultimately have "parseJson (ce_floats E) (s @ ?t) = Inl JsonParse"
    by (auto simp: parseJson_def parseNext_def afterValue.simps split: prod.splits)
  then show ?thesis by (simp add: readTask_def Let_def)
qed

theorem joined_messages_end_client_witness:
  "\<exists>s. dumpJson plainFloats chatMessage = Inr s \<and> readTask sampleEnv (Some (s @ s)) (newClient []) = Inl JsonParse"
proof -
  obtain s where s: "dumpJson (ce_floats sampleEnv) chatMessage = Inr s" "length s < 200" using chatMessage_dump by blast
  obtain m where m: "chatMessage = JObject m" "m \<noteq> []" by (simp add: chatMessage_def)
  have "json_ok (JObject m)" unfolding m(1) [symmetric] by (simp add: chatMessage_def less_list_code)
  from joined_messages_end_client [OF m(2) this s(1) [unfolded m(1)] m(2) s(1) [unfolded m(1)]] s
  show ?thesis by (simp add: recvBuf_def) (simp add: sampleEnv_def)
qed

section \<open>The way of a chat message\<close>

definition chatJson :: "int \<Rightarrow> string \<Rightarrow> int \<Rightarrow> string \<Rightarrow> string \<Rightarrow> json" where
  "chatJson i nm to msg now =
     JObject [(''id'', JInt i), (''msg'', JString msg), (''msgid'', JInt ONE_CHAT_MSG), (''name'', JString nm),
       (''time'', JString now), (''to'', JInt to)]"

lemma chatJson_sets:
  "jsonSet ''time'' (JString now) (jsonSet ''msg'' (JString msg) (jsonSet ''to'' (JInt to)
     (jsonSet ''name'' (JString (us_name (g_currentUser w))) (clientMessage ONE_CHAT_MSG w)))) =
   chatJson (us_id (g_currentUser w)) (us_name (g_currentUser w)) to msg now"
  by (simp add: clientMessage_def chatJson_def less_list_code)

lemma chatJson_ok: "fitsInt i \<Longrightarrow> fitsInt to \<Longrightarrow> json_ok (chatJson i nm to msg now)"
  by (auto simp: chatJson_def less_list_code fitsInt_def ONE_CHAT_MSG_def)

lemma jsonAt_chatJson:
  "jsonAt (chatJson i nm to msg now) ''id'' = Inr (JInt i)" "jsonAt (chatJson i nm to msg now) ''msg'' = Inr (JString msg)"
  "jsonAt (chatJson i nm to msg now) ''msgid'' = Inr (JInt ONE_CHAT_MSG)" "jsonAt (chatJson i nm to msg now) ''name'' = Inr (JString nm)"
  "jsonAt (chatJson i nm to msg now) ''time'' = Inr (JString now)" "jsonAt (chatJson i nm to msg now) ''to'' = Inr (JInt to)"
  by (simp_all add: chatJson_def jsonAt_def)

lemma toInt32_fits: "fitsInt i \<Longrightarrow> toInt32 i = i"
  unfolding toInt32_def fitsInt_def by (simp add: signed_of_int signed_take_bit_int_eq_self)

lemma getLine_line:
  assumes "in_good s" "in_text s = line @ newline # rest" "newline \<notin> set line" "length line < n"
  shows "getLine n s = (line, s\<lparr>in_text := rest\<rparr>)"
proof -
  have "\<forall>c \<in> set line. c \<noteq> newline" using assms(3) by auto
  then have "takeWhile (\<lambda>c. c \<noteq> newline) (in_text s) = line" using assms(2) by (simp add: takeWhile_append2)
  with assms show ?thesis by (simp add: getLine_def Let_def)
qed

lemma splitColon_append: "CHR '':'' \<notin> set a \<Longrightarrow> splitColon (a @ CHR '':'' # b) = Some (a, b)"
proof -
  assume "CHR '':'' \<notin> set a"
  then have "\<forall>c \<in> set a. c \<noteq> CHR '':''" by auto
  then show ?thesis by (simp add: splitColon_def dropWhile_append2 takeWhile_append2)
qed

definition chatLine :: "int \<Rightarrow> string \<Rightarrow> string" where
  "chatLine to msg = ''chat:'' @ dumpInt to @ '':'' @ msg"

text \<open>The sender's turn.\<close>

lemma chat_command_sends:
  assumes w: "isMainMenuRunning w" "in_good (cl_in w)" "in_text (cl_in w) = chatLine to msg @ newline # rest"
    and line: "newline \<notin> set msg" "CHR 0x00 \<notin> set msg" "length (chatLine to msg) < 1024" "fitsInt to" "fitsInt (us_id (g_currentUser w))"
    and now: "getCurrentTime E (w\<lparr>cl_in := (cl_in w)\<lparr>in_text := rest\<rparr>\<rparr>) = Inr now"
    and s: "dumpJson (ce_floats E) (chatJson (us_id (g_currentUser w)) (us_name (g_currentUser w)) to msg now) = Inr s"
    and send: "ce_send E (cl_log w) (s @ [CHR 0x00]) = Some (length s + 1)"
  shows "commandTurn E w = Inr (emit (ClientSend (s @ [CHR 0x00])) (w\<lparr>cl_in := (cl_in w)\<lparr>in_text := rest\<rparr>\<rparr>))"
proof -
  let ?w = "w\<lparr>cl_in := (cl_in w)\<lparr>in_text := rest\<rparr>\<rparr>"
  have d: "c \<noteq> CHR '':'' \<and> c \<noteq> CHR 0x00 \<and> c \<noteq> newline" if "c \<in> set (dumpInt to)" for c
    using dumpInt_chars [OF that] by (auto simp: isDigit_def byte_def newline_def)
  have nl: "newline \<notin> set (chatLine to msg)" and nul: "CHR 0x00 \<notin> set (chatLine to msg)"
    using line(1,2) d by (auto simp: chatLine_def newline_def)
  have l: "getLine 1024 (cl_in w) = (chatLine to msg, (cl_in w)\<lparr>in_text := rest\<rparr>)"
    by (rule getLine_line [OF w(2,3) nl line(3)])
  have c1: "splitColon (cstr (chatLine to msg)) = Some (''chat'', dumpInt to @ '':'' @ msg)"
    using splitColon_append [of "''chat''" "dumpInt to @ '':'' @ msg"] nul by (simp add: cstr_id chatLine_def)
  have c2: "splitColon (dumpInt to @ '':'' @ msg) = Some (dumpInt to, msg)"
    using splitColon_append [of "dumpInt to" msg] d by auto
  have at: "atoi (cstr (dumpInt to)) = Inr to" using d line(4) by (subst cstr_id) (auto simp: atoi_dumpInt)
  have "cstr s = s" using dump_no_nul(1) [OF s chatJson_ok [OF line(5,4)]] by (rule cstr_id)
  then have "snd (clientSend E ''send chat msg error ->'' s ?w) = emit (ClientSend (s @ [CHR 0x00])) ?w"
    using send by (simp add: clientSend_def)
  moreover have "chatJson (us_id (g_currentUser ?w)) (us_name (g_currentUser ?w)) to msg now =
      chatJson (us_id (g_currentUser w)) (us_name (g_currentUser w)) to msg now" by simp
  ultimately have "clientChat E (dumpInt to @ '':'' @ msg) ?w = Inr (emit (ClientSend (s @ [CHR 0x00])) ?w)"
    using now s by (simp only: clientChat_def c2 option.case prod.case at bind_res_simps chatJson_sets sendCommand_def)
  then show ?thesis using w(1) l c1 by (simp add: commandTurn_def Let_def commandHandlerMap_def)
qed

text \<open>The server's turn, and the receiver's.\<close>

lemma server_passes_chat:
  assumes "dumpJson (be_floats B) (chatJson i nm to msg now) = Inr s" "fitsInt i" "fitsInt to" "umFind to (ch_conns sv) = Some c"
  shows "serverOnMessage B conn (s @ [CHR 0x00]) sv = Some (Inr (effect (SendTo c s) sv))"
proof -
  have "parseJson (be_floats B) (s @ [CHR 0x00]) = Inr (chatJson i nm to msg now)"
    using padded_parse [OF chatJson_ok [OF assms(2,3)] assms(1), of 1] by simp
  moreover have "getHandler B ONE_CHAT_MSG = oneChat B" by (simp add: getHandler_def msgHandlerMap_def msg_ids)
  moreover have "getInt B (chatJson i nm to msg now) ''msgid'' = Inr ONE_CHAT_MSG"
    by (simp add: getInt_def jsonAt_chatJson jsonInt_def toInt32_fits fitsInt_def ONE_CHAT_MSG_def)
  moreover have "getInt B (chatJson i nm to msg now) ''to'' = Inr to"
    using assms(3) by (simp add: getInt_def jsonAt_chatJson jsonInt_def toInt32_fits)
  ultimately show ?thesis using assms(1,4)
    by (simp add: serverOnMessage_def oneChat_def forward_def sendJson_def)
qed

lemma client_shows_chat:
  assumes "dumpJson (ce_floats E) (chatJson i nm to msg now) = Inr s" "fitsInt i" "fitsInt to"
  shows "readTask E (Some s) r = Inr (println (now @ '' ['' @ dumpInt i @ '']'' @ nm @ '' said:'' @ msg) (emit (Received s) r))"
proof -
  have "parseJson (ce_floats E) (s @ replicate (recvBuf - length s) (CHR 0x00)) = Inr (chatJson i nm to msg now)"
    by (rule padded_parse [OF chatJson_ok [OF assms(2,3)] assms(1)])
  moreover have "clientInt E (chatJson i nm to msg now) ''msgid'' = Inr ONE_CHAT_MSG"
    by (simp add: clientInt_def jsonAt_chatJson jsonInt_def toInt32_fits fitsInt_def ONE_CHAT_MSG_def)
  ultimately show ?thesis
    by (simp add: readTask_def Let_def showMessage_def getStr_def showJson_def jsonAt_chatJson jsonStr_def)
qed

text \<open>
  C5: A chat message travels: when a user types \<^verbatim>\<open>chat:<id>:<text>\<close>, the client sends one
  message and its NUL; the server the addressee is connected to sends the same text, without
  the NUL, on the addressee's connection, and changes nothing else; the addressee's client shows
  the time, the sender's number and name, and the text exactly as typed, whatever characters it has.
\<close>

theorem chat_message_travels:
  assumes "cl_at w = InMainMenu" "isMainMenuRunning w" "in_good (cl_in w)" "in_text (cl_in w) = chatLine to msg @ newline # rest"
    and "newline \<notin> set msg" "CHR 0x00 \<notin> set msg" "length (chatLine to msg) < 1024" "fitsInt to" "fitsInt (us_id (g_currentUser w))"
    and "getCurrentTime E (w\<lparr>cl_in := (cl_in w)\<lparr>in_text := rest\<rparr>\<rparr>) = Inr now"
    and "dumpJson (ce_floats E) (chatJson (us_id (g_currentUser w)) (us_name (g_currentUser w)) to msg now) = Inr s"
    and "ce_send E (cl_log w) (s @ [CHR 0x00]) = Some (length s + 1)"
    and "umFind to (ch_conns sv) = Some c" "be_floats B = ce_floats E" "ce_floats E' = ce_floats E" "length s \<le> recvBuf"
  shows "\<exists>w1. mainTurn E w = Inr w1 \<and> cl_log w1 = ClientSend (s @ [CHR 0x00]) # cl_log w \<and>
    serverOnMessage B conn (s @ [CHR 0x00]) sv = Some (Inr (effect (SendTo c s) sv)) \<and>
    readTask E' (Some s) r =
      Inr (println (now @ '' ['' @ dumpInt (us_id (g_currentUser w)) @ '']'' @ us_name (g_currentUser w) @ '' said:'' @ msg)
        (emit (Received s) r))"
proof -
  have "mainTurn E w = Inr (emit (ClientSend (s @ [CHR 0x00])) (w\<lparr>cl_in := (cl_in w)\<lparr>in_text := rest\<rparr>\<rparr>))"
    using chat_command_sends [OF assms(2-12)] assms(1) by (simp add: mainTurn_def)
  with server_passes_chat [of B _ _ to msg now s sv c conn] client_shows_chat [of E' _ _ to msg now s r] assms(8,9,11,13-15)
  show ?thesis by (simp add: emit_def)
qed

theorem chat_message_travels_witness:
  "\<exists>w1 s. mainTurn sampleEnv (chatting (''chat:3:hi'' @ [newline])) = Inr w1 \<and> sentBytes (cl_log w1) = [s @ [CHR 0x00]] \<and>
     readTask sampleEnv (Some s) (newClient []) =
       Inr (println ''2020-01-02 03:04:05 [1]ann said:hi'' (emit (Received s) (newClient [])))"
proof -
  have i: "dumpInt 1 = ''1''" "dumpInt 6 = ''6''" "dumpInt 3 = ''3''" by code_simp+
  let ?w = "chatting (''chat:3:hi'' @ [newline])"
  have t: "getCurrentTime sampleEnv (?w\<lparr>cl_in := (cl_in ?w)\<lparr>in_text := []\<rparr>\<rparr>) = Inr ''2020-01-02 03:04:05''"
  proof -
    have "dateText (decimalInt (120 + 1900)) (CHR ''-'') \<lparr>tm_year = 120, tm_mon = 0, tm_mday = 2, tm_hour = 3, tm_min = 4, tm_sec = 5\<rparr> =
        ''2020-01-02 03:04:05''" by code_simp
    then show ?thesis by (simp add: getCurrentTime_def sampleEnv_def Let_def)
  qed
  obtain s where s: "dumpJson (ce_floats sampleEnv) (chatJson 1 ''ann'' 3 ''hi'' ''2020-01-02 03:04:05'') = Inr s" "length s < 200"
    by (simp add: chatJson_def dumpString_ascii byte_def dquote_def backslash_def i ONE_CHAT_MSG_def)
  have w: "cl_at ?w = InMainMenu" "isMainMenuRunning ?w" "in_good (cl_in ?w)" "g_currentUser ?w = newUser\<lparr>us_id := 1, us_name := ''ann''\<rparr>"
      "in_text (cl_in ?w) = chatLine 3 ''hi'' @ newline # []" "cl_log ?w = []"
    by (simp_all add: chatting_def newClient_def in_good_def chatLine_def i)
  have "umFind 3 (ch_conns (freshChat\<lparr>ch_conns := [(3, 5)]\<rparr>)) = Some 5" by (simp add: umFind_def)
  with chat_message_travels [OF w(1,2,3,5) _ _ _ _ _ t, of s "freshChat\<lparr>ch_conns := [(3, 5)]\<rparr>" 5 sampleBackend sampleEnv 4 "newClient []"] s w(4,6)
  show ?thesis
    by (auto simp: newline_def chatLine_def i fitsInt_def sampleEnv_def sampleBackend_def recvBuf_def sentBytes_def)
qed

end
