(* ===== verification/ChatFraming.thy ===== *)
theory ChatFraming
  imports ChatTravel JsonFrame JsonValid
begin

text \<open>
  The chat protocol has no frames: a text is a message if the bytes of one read are. What the
  server and the client make of a read that holds less than a message, or more than one.
\<close>

section \<open>More than one message\<close>

text \<open>
  C33: A second message in the same read is lost: the clients end every message with a NUL, the
  parser takes a NUL for the end of the input, and \<^verbatim>\<open>onMessage\<close> parses all bytes of the buffer
  once. Whatever follows the first NUL has no effect at all, whatever comes before it.
\<close>

theorem second_message_in_a_read_is_lost:
  "serverOnMessage B conn (s @ CHR 0x00 # rest) w = serverOnMessage B conn s w"
  by (simp add: serverOnMessage_def parseJson_nul [unfolded nul_def])

section \<open>Less than a message\<close>

lemma server_parse_error: "parseJson (be_floats B) s = Inl JsonParse \<Longrightarrow> serverOnMessage B conn s w = Some (Inl JsonParse)"
  by (simp add: serverOnMessage_def)

lemma readTask_parse: "readTask E (Some s) w = Inl JsonParse" if "parseJson (ce_floats E) s = Inl JsonParse"
proof -
  have "parseJson (ce_floats E) (s @ replicate k (CHR 0x00)) = parseJson (ce_floats E) s" for k
    by (cases k) (simp_all add: parseJson_nul [unfolded nul_def])
  with that show ?thesis by (simp add: readTask_def Let_def)
qed

text \<open>
  C12: TCP does not keep messages together, and neither side puts them together again. A read that
  gives the server a part of a client's message, cut anywhere before its last brace, ends in
  the parser's exception, which no one catches; only from the last brace on is it the
  message. The client ends in the same way on a part of an answer, in particular on the first
  1024 bytes of one that is longer, since its \<^verbatim>\<open>recv\<close> takes no more.
\<close>

theorem cut_message_ends_both_sides:
  assumes "json_ok (JObject m)" "dumpJson F (JObject m) = Inr s" "be_floats B = F" "ce_floats E = F"
  shows "serverOnMessage B conn (take n (s @ [CHR 0x00])) w =
      (if n < length s then Some (Inl JsonParse) else serverOnMessage B conn s w) \<and>
    (n < length s \<longrightarrow> readTask E (Some (take n s)) v = Inl JsonParse)"
proof (cases "n < length s")
  case True
  then have "parseJson F (take n s) = Inl JsonParse" by (rule parse_cut [OF assms(1,2)])
  with True assms(3,4) readTask_parse [of E "take n s" v] show ?thesis by (simp add: server_parse_error)
next
  case False
  then have "take n (s @ [CHR 0x00]) = s \<or> take n (s @ [CHR 0x00]) = s @ CHR 0x00 # []"
    by (cases "n - length s") simp_all
  with False show ?thesis by (auto simp: serverOnMessage_def parseJson_nul [unfolded nul_def])
qed

theorem cut_message_ends_both_sides_witness:
  "\<exists>s. dumpJson plainFloats loginMessage = Inr s \<and> serverOnMessage loginBackend 5 (take 10 (s @ [CHR 0x00])) freshChat = Some (Inl JsonParse)"
proof -
  have i: "dumpInt 7 = ''7''" "dumpInt 1 = ''1''" by code_simp+
  then obtain s where s: "dumpJson plainFloats loginMessage = Inr s" "10 < length s"
    by (simp add: loginMessage_def dumpString_ascii byte_def dquote_def backslash_def)
  moreover have "json_ok loginMessage" by (simp add: loginMessage_def less_list_code)
  moreover have "be_floats loginBackend = plainFloats" "ce_floats sampleEnv = plainFloats"
    by (simp_all add: loginBackend_simps sampleEnv_def)
  moreover obtain m where "loginMessage = JObject m" by (simp add: loginMessage_def)
  ultimately have "serverOnMessage loginBackend 5 (take 10 (s @ [CHR 0x00])) freshChat = Some (Inl JsonParse)"
    using cut_message_ends_both_sides [of m plainFloats s loginBackend sampleEnv 5 10 freshChat] by (simp del: dumpJson.simps json_ok.simps)
  with s(1) show ?thesis by blast
qed

section \<open>A message is passed on as it was read\<close>

text \<open>The serializer's exception cannot come from a message: what was parsed can be written.\<close>

lemma forward_parsed:
  assumes "parseJson (be_floats B) buf = Inr js"
  shows "\<exists>t. dumpJson (be_floats B) js = Inr t \<and>
    forward B i js w =
      (case umFind i (ch_conns w) of
         Some c \<Rightarrow> Inr (effect (SendTo c t) w)
       | None \<Rightarrow> bind_res (userQuery B i w) (\<lambda>(u, w).
           if us_state u = ''online'' then bind_res (redisPublish B i t w) (\<lambda>(ok, w). Inr w) else offlineInsert B i t w))"
proof -
  obtain t where "dumpJson (be_floats B) js = Inr t"
    using well_dumps(1) [OF parseJson_well [OF assms]] by blast
  then show ?thesis by (auto simp: forward_def sendJson_def split: option.split)
qed

end
