(* ===== verification/ChatCross.thy ===== *)
theory ChatCross
  imports ChatTravel
begin

text \<open>
  A chat message between two servers: the one the sender is connected to publishes it, redis
  reports it to the one that subscribed to the addressee's channel, and that server hands it over.
\<close>

section \<open>The two servers\<close>

text \<open>What redis reports to a subscriber of a channel: three elements, the channel and the text as published.\<close>

definition channelReply :: "int \<Rightarrow> string \<Rightarrow> string option list option" where
  "channelReply i s = Some [Some ''message'', Some (dumpInt i), Some s]"

lemma observed:
  assumes "ch_notify w" "fitsInt i" "CHR 0x00 \<notin> set s"
  shows "observer_channel_message h [channelReply i s] w = h i s w"
proof -
  have "fieldInt [Some ''message'', Some (dumpInt i), Some s] 1 = Inr i"
    using assms(2) by (simp add: fieldInt_def atoi_dumpInt)
  with assms(1,3) show ?thesis
    by (cases "h i s w") (simp_all add: channelReply_def numeral_2_eq_2 cstr_id)
qed

lemma server_publishes_chat:
  assumes "dumpJson (be_floats B) (chatJson i nm to msg now) = Inr s" "fitsInt i" "fitsInt to" "umFind to (ch_conns sv) = None"
    and "userQuery B to sv = Inr (u, sv1)" "us_state u = ''online''" "ch_pub sv"
  shows "serverOnMessage B conn (s @ [CHR 0x00]) sv = Some (Inr (effect (RedisPublish to s (rd_publish B (ch_log sv1) to s)) sv1))"
proof -
  have "parseJson (be_floats B) (s @ [CHR 0x00]) = Inr (chatJson i nm to msg now)"
    using padded_parse [OF chatJson_ok [OF assms(2,3)] assms(1), of 1] by simp
  moreover have "getHandler B ONE_CHAT_MSG = oneChat B" by (simp add: getHandler_def msgHandlerMap_def msg_ids)
  moreover have "getInt B (chatJson i nm to msg now) ''msgid'' = Inr ONE_CHAT_MSG"
    by (simp add: getInt_def jsonAt_chatJson jsonInt_def toInt32_fits fitsInt_def ONE_CHAT_MSG_def)
  moreover have "getInt B (chatJson i nm to msg now) ''to'' = Inr to"
    using assms(3) by (simp add: getInt_def jsonAt_chatJson jsonInt_def toInt32_fits)
  moreover have "ch_pub sv1" using quiet_state [OF userQuery_quiet [OF assms(5)]] assms(7) by simp
  moreover have "cstr s = s" using dump_no_nul(1) [OF assms(1) chatJson_ok [OF assms(2,3)]] by (rule cstr_id)
  ultimately show ?thesis using assms(1,4-6)
    by (simp add: serverOnMessage_def oneChat_def forward_def redisPublish_def Let_def)
qed

section \<open>The property\<close>

text \<open>
  C6: A chat message crosses servers: for an addressee who is online elsewhere the sender's
  server publishes exactly the text of the message on the addressee's channel and sends nothing;
  the server that redis reports it to sends the same text on the addressee's connection, or
  stores it when the addressee has left in the meantime; and the addressee's client shows the
  time, the sender's number and name, and what was typed.
\<close>

theorem chat_crosses_servers:
  assumes "dumpJson (be_floats B) (chatJson i nm to msg now) = Inr s" "fitsInt i" "fitsInt to"
    and "umFind to (ch_conns sv) = None" "userQuery B to sv = Inr (u, sv1)" "us_state u = ''online''" "ch_pub sv"
    and "ch_notify sv2" "ce_floats E = be_floats B"
  shows "\<exists>ok. serverOnMessage B conn (s @ [CHR 0x00]) sv = Some (Inr (effect (RedisPublish to s ok) sv1)) \<and>
    sends (ch_log (effect (RedisPublish to s ok) sv1)) = sends (ch_log sv) \<and>
    observer_channel_message (handlerRedisSubscribeMessage B2) [channelReply to s] sv2 =
      (case umFind to (ch_conns sv2) of
         Some c \<Rightarrow> Inr (effect (SendTo c s) sv2)
       | None \<Rightarrow> offlineInsert B2 to s sv2) \<and>
    readTask E (Some s) r = Inr (println (now @ '' ['' @ dumpInt i @ '']'' @ nm @ '' said:'' @ msg) (emit (Received s) r))"
proof -
  note p = server_publishes_chat [OF assms(1-7)]
  have "CHR 0x00 \<notin> set s" by (rule dump_no_nul(1) [OF assms(1) chatJson_ok [OF assms(2,3)]])
  note o = observed [OF assms(8,3) this]
  have "sends (ch_log (effect e sv1)) = sends (ch_log sv)" if "sends [e] = []" "commands [e] = []" for e
    using quiet_sends [OF quiet_trans [OF userQuery_quiet [OF assms(5)] quiet_effect [OF that]]] .
  then have "sends (ch_log (effect (RedisPublish to s ok) sv1)) = sends (ch_log sv)" for ok by simp
  moreover have "dumpJson (ce_floats E) (chatJson i nm to msg now) = Inr s" using assms(1,9) by simp
  ultimately show ?thesis using p client_shows_chat [of E i nm to msg now s r] assms(2,3)
    by (intro exI [of _ "rd_publish B (ch_log sv1) to s"])
      (simp add: o handlerRedisSubscribeMessage_def del: observer_channel_message.simps)
qed

text \<open>User 3 is online, but not here; the other server has her on connection 9.\<close>

definition onlineBackend :: backend where
  "onlineBackend = sampleBackend\<lparr>db_rows := (\<lambda>log. Some [[Some ''3'', Some ''eve'', Some ''pw'', Some ''online'']])\<rparr>"

theorem chat_crosses_servers_witness:
  "\<exists>s sv. serverOnMessage onlineBackend 5 (s @ [CHR 0x00]) freshChat = Some (Inr sv) \<and> sends (ch_log sv) = [] \<and>
     observer_channel_message (handlerRedisSubscribeMessage sampleBackend) [channelReply 3 s] (freshChat\<lparr>ch_conns := [(3, 9)]\<rparr>) =
       Inr (effect (SendTo 9 s) (freshChat\<lparr>ch_conns := [(3, 9)]\<rparr>))"
proof -
  have i: "dumpInt 1 = ''1''" "dumpInt 6 = ''6''" "dumpInt 3 = ''3''" "atoi ''3'' = Inr 3" by code_simp+
  obtain s where s: "dumpJson plainFloats (chatJson 1 ''ann'' 3 ''hi'' ''now'') = Inr s"
    by (simp add: chatJson_def dumpString_ascii byte_def dquote_def backslash_def i ONE_CHAT_MSG_def)
  obtain sv1 where q: "userQuery onlineBackend 3 freshChat = Inr (newUser\<lparr>us_id := 3, us_name := ''eve'', us_pwd := ''pw'', us_state := ''online''\<rparr>, sv1)"
    by (simp add: userQuery_def selectUserSql_def i sqlText_def sqlBuf_def dbQuery_def mysqlConnect_def mysqlQuery_def onlineBackend_def
        sampleBackend_def userOfRow_def fieldInt_def fieldText_def Let_def)
  have F: "be_floats onlineBackend = plainFloats" "ce_floats sampleEnv = plainFloats" by (simp_all add: onlineBackend_def sampleBackend_def sampleEnv_def)
  have "umFind 3 (ch_conns freshChat) = None" "ch_pub freshChat" "ch_notify (freshChat\<lparr>ch_conns := [(3, 9)]\<rparr>)" "sends (ch_log freshChat) = []"
    by (simp_all add: freshChat_def umFind_def)
  with chat_crosses_servers [of onlineBackend 1 "''ann''" 3 "''hi''" "''now''" s freshChat _ sv1 "freshChat\<lparr>ch_conns := [(3, 9)]\<rparr>" sampleEnv 5 sampleBackend "newClient []"] s q F
  show ?thesis by (fastforce simp: fitsInt_def umFind_def)
qed

end
