(* ===== verification/ChatSession.thy ===== *)
theory ChatSession
  imports ChatTravel
begin

text \<open>
  The two threads of the client over a whole session: what the answers of the server change,
  and that the chat menu is open only after a login the server has accepted.
\<close>

section \<open>Steps that open nothing\<close>


definition accepted :: "client_env \<Rightarrow> client_effect list \<Rightarrow> bool" where
  "accepted E log \<longleftrightarrow> (\<exists>bytes js. Received bytes \<in> set log \<and>
     parseJson (ce_floats E) (bytes @ replicate (recvBuf - length bytes) (CHR 0x00)) = Inr js \<and>
     clientInt E js ''msgid'' = Inr LOGIN_MSG_ACK \<and> clientInt E js ''errno'' = Inr 0)"

text \<open>What a step may do to the part of the state the invariant speaks of.\<close>

definition modest :: "client \<Rightarrow> client \<Rightarrow> bool" where
  "modest w w' \<longleftrightarrow> (g_isLoginSuccess w' \<longrightarrow> g_isLoginSuccess w) \<and>
     (cl_at w' = InMainMenu \<longrightarrow> cl_at w = InMainMenu) \<and> set (cl_log w) \<subseteq> set (cl_log w')"

lemma modest_outputs: "outputs w w' \<Longrightarrow> modest w w'"
  by (auto simp: outputs_def modest_def)

lemma modest_trans: "modest w w1 \<Longrightarrow> modest w1 w2 \<Longrightarrow> modest w w2"
  by (auto simp: modest_def)

lemma modest_updates:
  "modest w (w\<lparr>cl_in := inp\<rparr>)" "modest w (w\<lparr>g_isLoginSuccess := False\<rparr>)" "modest w (w\<lparr>isMainMenuRunning := b\<rparr>)"
  "at \<noteq> InMainMenu \<Longrightarrow> modest w (w\<lparr>cl_at := at\<rparr>)" "modest w (w\<lparr>rwsem := n\<rparr>)" "modest w (emit e w)" "modest w (warnln s w)"
  "modest w (println s w)" "modest w (fold println ls w)"
  by (auto simp: modest_def emit_def println_def warnln_def lines_logged)

lemma modest_menuTurn: "menuTurn E w = Inr w' \<Longrightarrow> modest w w'"
proof -
  assume a: "menuTurn E w = Inr w'"
  show "modest w w'"
    using a
    by (auto simp: menuTurn_def Let_def bind_res_Inr_iff modest_def emit_def println_def warnln_def menuText_def clientSend_def
        split: prod.splits if_splits option.splits)
qed

lemma modest_commandTurn:
  assumes "commandTurn E w = Inr w'"
  shows "modest w w'"
proof (cases "isMainMenuRunning w")
  case True
  from commandTurn_commanded [OF assms True] obtain b where
    "outputs (w\<lparr>cl_in := snd (getLine 1024 (cl_in w)), isMainMenuRunning := b\<rparr>) w'" by (auto simp: commanded_def)
  from modest_outputs [OF this] show ?thesis by (simp add: modest_def)
next
  case False
  with assms show ?thesis by (auto simp: commandTurn_def modest_def)
qed

section \<open>The answer to a login\<close>

text \<open>What a response without an error leaves: the user, and each list replaced when the response has it.\<close>

lemma doLoginResponse_effect:
  assumes "doLoginResponse E js w = Inr w'" "clientInt E js ''errno'' = Inr 0"
  shows "clientInt E js ''id'' = Inr (us_id (g_currentUser w')) \<and> getStr js ''name'' = Inr (us_name (g_currentUser w')) \<and>
    (\<not> jsonContains js ''friends'' \<longrightarrow> g_currentUserFriendList w' = g_currentUserFriendList w) \<and>
    (\<not> jsonContains js ''groups'' \<longrightarrow> g_currentUserGroupList w' = g_currentUserGroupList w) \<and>
    g_isLoginSuccess w' \<and> cl_at w' = cl_at w \<and> set (cl_log w) \<subseteq> set (cl_log w')"
proof -
  from assms obtain i nm friends w1 groups w2 msgs w3 where s: "clientInt E js ''id'' = Inr i" "getStr js ''name'' = Inr nm"
      "optStrings js ''friends'' = Inr friends"
      "(case friends of None \<Rightarrow> Inr (w\<lparr>g_currentUser := (g_currentUser w)\<lparr>us_id := i, us_name := nm\<rparr>\<rparr>)
        | Some vec \<Rightarrow> bind_res (mapRes (parseFriend E) vec) (\<lambda>us.
            Inr (w\<lparr>g_currentUser := (g_currentUser w)\<lparr>us_id := i, us_name := nm\<rparr>, g_currentUserFriendList := us\<rparr>))) = Inr w1"
      "optStrings js ''groups'' = Inr groups"
      "(case groups of None \<Rightarrow> Inr w1 | Some vec1 \<Rightarrow> bind_res (mapRes (parseGroup E) vec1) (\<lambda>gs. Inr (w1\<lparr>g_currentUserGroupList := gs\<rparr>))) = Inr w2"
      "showOffline E (case msgs of None \<Rightarrow> [] | Some vec \<Rightarrow> vec) (showCurrentUserData w2) = Inr w3"
      "w' = w3\<lparr>g_isLoginSuccess := True\<rparr>"
    unfolding doLoginResponse_def Let_def by (auto simp: bind_res_Inr_iff)
  have "outputs w2 w3" using outputs_trans [OF outputs_steps(6) showOffline_outputs [OF s(7)]] .
  note o = outputs_state [OF this]
  from s(4) have w1: "g_currentUser w1 = (g_currentUser w)\<lparr>us_id := i, us_name := nm\<rparr>" "cl_at w1 = cl_at w" "cl_log w1 = cl_log w"
      "g_currentUserGroupList w1 = g_currentUserGroupList w" "friends = None \<longrightarrow> g_currentUserFriendList w1 = g_currentUserFriendList w"
    by (auto simp: bind_res_Inr_iff split: option.splits)
  from s(6) have w2: "g_currentUser w2 = g_currentUser w1" "cl_at w2 = cl_at w1" "cl_log w2 = cl_log w1"
      "g_currentUserFriendList w2 = g_currentUserFriendList w1" "groups = None \<longrightarrow> g_currentUserGroupList w2 = g_currentUserGroupList w1"
    by (auto simp: bind_res_Inr_iff split: option.splits)
  have n: "\<not> jsonContains js ''friends'' \<longrightarrow> friends = None" "\<not> jsonContains js ''groups'' \<longrightarrow> groups = None"
    using s(3,5) by (auto simp: optStrings_def)
  from o w1 w2 n s(1,2,8) show ?thesis by auto
qed

lemma doLoginResponse_refused:
  assumes "doLoginResponse E js w = Inr w'" "clientInt E js ''errno'' \<noteq> Inr 0"
  shows "\<not> g_isLoginSuccess w' \<and> cl_at w' = cl_at w \<and> set (cl_log w) \<subseteq> set (cl_log w')"
proof -
  from assms obtain s where "w' = (warnln s w)\<lparr>g_isLoginSuccess := False\<rparr>"
    by (auto simp: doLoginResponse_def bind_res_Inr_iff split: if_splits)
  then show ?thesis by (auto simp: warnln_def emit_def)
qed

section \<open>The session\<close>

definition session_inv :: "client_env \<Rightarrow> client \<Rightarrow> bool" where
  "session_inv E w \<longleftrightarrow> (g_isLoginSuccess w \<or> cl_at w = InMainMenu \<longrightarrow> accepted E (cl_log w))"

lemma accepted_mono: "accepted E log \<Longrightarrow> set log \<subseteq> set log' \<Longrightarrow> accepted E log'"
  unfolding accepted_def by blast

lemma inv_modest: "session_inv E w \<Longrightarrow> modest w w' \<Longrightarrow> session_inv E w'"
  by (auto simp: session_inv_def modest_def intro: accepted_mono)

lemma inv_readTask:
  assumes "readTask E (Some bytes) w = Inr w'" "session_inv E w"
  shows "session_inv E w'"
proof -
  let ?w = "emit (Received bytes) w"
  have inv: "session_inv E ?w" using assms(2) modest_updates(6) inv_modest by blast
  from assms(1) obtain js msgtype where js: "parseJson (ce_floats E) (bytes @ replicate (recvBuf - length bytes) (CHR 0x00)) = Inr js"
      "clientInt E js ''msgid'' = Inr msgtype"
      "(if msgtype = ONE_CHAT_MSG then bind_res (showMessage E '' said:'' js) (\<lambda>s. Inr (println s ?w))
        else if msgtype = GROUP_CHAT_MSG then bind_res (showGroupMessage E '' said:'' js) (\<lambda>s. Inr (println s ?w))
        else if msgtype = LOGIN_MSG_ACK then bind_res (doLoginResponse E js ?w) (\<lambda>w. Inr (w\<lparr>rwsem := rwsem w + 1\<rparr>))
        else if msgtype = REG_MSG_ACK then bind_res (doRegResponse E js ?w) (\<lambda>w. Inr (w\<lparr>rwsem := rwsem w + 1\<rparr>))
        else Inr ?w) = Inr w'"
    by (auto simp: readTask_def Let_def bind_res_Inr_iff)
  show ?thesis
  proof (cases "msgtype = LOGIN_MSG_ACK")
    case True
    with js(3) obtain w1 where w1: "doLoginResponse E js ?w = Inr w1" "w' = w1\<lparr>rwsem := rwsem w1 + 1\<rparr>"
      by (auto simp: msg_ids bind_res_Inr_iff)
    show ?thesis
    proof (cases "clientInt E js ''errno'' = Inr 0")
      case ok: True
      from doLoginResponse_effect [OF w1(1) ok] have "Received bytes \<in> set (cl_log w')" by (auto simp: w1(2) emit_def)
      with js(1,2) True ok have "accepted E (cl_log w')" by (auto simp: accepted_def)
      then show ?thesis by (simp add: session_inv_def)
    next
      case False
      from doLoginResponse_refused [OF w1(1) False] have "modest ?w w'" by (simp add: modest_def w1(2))
      with inv show ?thesis by (rule inv_modest)
    qed
  next
    case False
    with js(3) have "modest ?w w'"
      by (auto simp: bind_res_Inr_iff doRegResponse_def modest_def println_def warnln_def emit_def split: if_splits)
    with inv show ?thesis by (rule inv_modest)
  qed
qed

lemma inv_client_step: "client_step E w w' \<Longrightarrow> session_inv E w \<Longrightarrow> session_inv E w'"
proof (elim client_stepE)
  assume "session_inv E w" "menuTurn E w = Inr w'"
  then show "session_inv E w'" using modest_menuTurn inv_modest by blast
next
  assume inv: "session_inv E w" and w': "w' = afterWait E w"
  let ?m = "w\<lparr>rwsem := rwsem w - 1, isMainMenuRunning := True, cl_at := InMainMenu\<rparr>"
  show "session_inv E w'"
  proof (cases "cl_at w = AtLogin \<and> g_isLoginSuccess w")
    case True
    with inv have "session_inv E ?m" by (simp add: session_inv_def)
    moreover have "w' = clientHelp E ?m" using True by (simp add: w' afterWait_def)
    then have "modest ?m w'" using modest_outputs outputs_steps(5) by metis
    ultimately show ?thesis by (rule inv_modest)
  next
    case False
    then have "w' = w\<lparr>rwsem := rwsem w - 1, cl_at := AtMenu\<rparr>" by (auto simp: w' afterWait_def Let_def)
    with inv show ?thesis by (simp add: session_inv_def)
  qed
next
  assume "session_inv E w" "commandTurn E w = Inr w'"
  then show "session_inv E w'" using modest_commandTurn inv_modest by blast
next
  fix data
  assume "session_inv E w" "readTask E (Some data) w = Inr w'"
  then show "session_inv E w'" using inv_readTask by blast
qed

section \<open>Properties\<close>

text \<open>
  C13: The chat menu is open only after the server has accepted a login: in every state the two
  threads of the client reach, in whatever order they run, a client at the chat menu has received
  an answer to a login with error number 0.
\<close>

theorem chat_menu_after_login:
  assumes "client_reaches E input w" "cl_at w = InMainMenu"
  shows "\<exists>bytes js. Received bytes \<in> set (cl_log w) \<and>
    parseJson (ce_floats E) (bytes @ replicate (recvBuf - length bytes) (CHR 0x00)) = Inr js \<and>
    clientInt E js ''msgid'' = Inr LOGIN_MSG_ACK \<and> clientInt E js ''errno'' = Inr 0"
proof -
  from assms(1) have "session_inv E w"
  proof induction
    case start
    show ?case by (simp add: session_inv_def newClient_def)
  next
    case (step w w')
    then show ?case using inv_client_step by blast
  qed
  with assms(2) show ?thesis by (simp add: session_inv_def accepted_def)
qed

text \<open>A run: a login with number 7, the answer of the server, and the chat menu.\<close>

definition loginAnswer :: "json" where
  "loginAnswer = JObject [(''errno'', JInt 0), (''id'', JInt 7), (''msgid'', JInt LOGIN_MSG_ACK), (''name'', JString ''bob'')]"

lemma loginAnswer_fields:
  "clientInt sampleEnv loginAnswer ''errno'' = Inr 0" "clientInt sampleEnv loginAnswer ''id'' = Inr 7"
  "clientInt sampleEnv loginAnswer ''msgid'' = Inr LOGIN_MSG_ACK" "getStr loginAnswer ''name'' = Inr ''bob''"
  "optStrings loginAnswer ''friends'' = Inr None" "optStrings loginAnswer ''groups'' = Inr None"
  "optStrings loginAnswer ''offlinemsg'' = Inr None" "\<not> jsonContains loginAnswer ''friends''" "\<not> jsonContains loginAnswer ''groups''"
  by (simp_all add: loginAnswer_def clientInt_def jsonAt_def jsonInt_def toInt32_fits fitsInt_def LOGIN_MSG_ACK_def getStr_def
      jsonStr_def optStrings_def jsonContains_def)

lemma loginAnswer_effect:
  "doLoginResponse sampleEnv loginAnswer w =
     Inr ((showCurrentUserData (w\<lparr>g_currentUser := (g_currentUser w)\<lparr>us_id := 7, us_name := ''bob''\<rparr>\<rparr>))\<lparr>g_isLoginSuccess := True\<rparr>)"
  by (simp add: doLoginResponse_def loginAnswer_fields)

lemma loginAnswer_received:
  "\<exists>s. s \<noteq> [] \<and> length s \<le> recvBuf \<and> readTask sampleEnv (Some s) w =
     bind_res (doLoginResponse sampleEnv loginAnswer (emit (Received s) w)) (\<lambda>w. Inr (w\<lparr>rwsem := rwsem w + 1\<rparr>))"
proof -
  have i: "dumpInt 0 = ''0''" "dumpInt 7 = ''7''" "dumpInt 2 = ''2''" by code_simp+
  have ok: "json_ok loginAnswer" by (simp add: loginAnswer_def less_list_code LOGIN_MSG_ACK_def)
  obtain s where s: "dumpJson plainFloats loginAnswer = Inr s" "s \<noteq> []" "length s < 200"
    by (simp add: loginAnswer_def dumpString_ascii byte_def dquote_def backslash_def i LOGIN_MSG_ACK_def)
  have F: "ce_floats sampleEnv = plainFloats" by (simp add: sampleEnv_def)
  from padded_parse [OF ok s(1)] s(2,3) show ?thesis
    by (intro exI [of _ s]) (simp add: readTask_def Let_def F loginAnswer_fields recvBuf_def msg_ids)
qed

lemma login_turn: "\<exists>w. menuTurn sampleEnv (newClient (''1'' @ [newline] @ ''7'' @ [newline] @ ''pw'' @ [newline])) = Inr w \<and> cl_at w = AtLogin"
proof -
  have i: "dumpInt 7 = ''7''" "dumpInt 1 = ''1''" by code_simp+
  show ?thesis
    by (simp add: menuTurn_def menuText_def newClient_def println_def emit_def readInt_def getChar_def getLine_def in_good_def
        isSpace_def isDigit_def byte_def readDecimal_def newline_def fitsInt_def Let_def cstr_def i
        dumpString_ascii dquote_def backslash_def LOGIN_MSG_def clientSend_def sampleEnv_def less_list_code)
qed

theorem chat_menu_after_login_witness:
  "\<exists>w bytes js. client_reaches sampleEnv (''1'' @ [newline] @ ''7'' @ [newline] @ ''pw'' @ [newline]) w \<and> cl_at w = InMainMenu \<and>
     us_id (g_currentUser w) = 7 \<and> Received bytes \<in> set (cl_log w) \<and> clientInt sampleEnv js ''errno'' = Inr 0"
proof -
  let ?in = "''1'' @ [newline] @ ''7'' @ [newline] @ ''pw'' @ [newline]"
  obtain w1 where w1: "menuTurn sampleEnv (newClient ?in) = Inr w1" "cl_at w1 = AtLogin" using login_turn by blast
  have r1: "client_reaches sampleEnv ?in w1"
    by (rule client_reaches.step [OF client_reaches.start client_step.menu [OF _ w1(1)]]) (simp add: newClient_def)
  obtain s where s: "s \<noteq> []" "length s \<le> recvBuf" "readTask sampleEnv (Some s) w1 =
     bind_res (doLoginResponse sampleEnv loginAnswer (emit (Received s) w1)) (\<lambda>w. Inr (w\<lparr>rwsem := rwsem w + 1\<rparr>))"
    using loginAnswer_received by blast
  let ?w2 = "(showCurrentUserData ((emit (Received s) w1)\<lparr>g_currentUser := (g_currentUser w1)\<lparr>us_id := 7, us_name := ''bob''\<rparr>\<rparr>))
     \<lparr>g_isLoginSuccess := True\<rparr>"
  obtain w2 where w2: "readTask sampleEnv (Some s) w1 = Inr w2" "w2 = ?w2\<lparr>rwsem := rwsem ?w2 + 1\<rparr>"
    using s(3) by (simp add: loginAnswer_effect) (simp add: emit_def)
  have o: "cl_at w2 = AtLogin" "g_isLoginSuccess w2" "0 < rwsem w2" "us_id (g_currentUser w2) = 7"
    using outputs_state [OF outputs_steps(6)] w1(2) by (simp_all add: w2(2) emit_def)
  have r2: "client_reaches sampleEnv ?in w2"
    using client_step.receive [OF _ s(1,2) w2(1)] w1(2) r1 client_reaches.step by fastforce
  have r3: "client_reaches sampleEnv ?in (afterWait sampleEnv w2)"
    using client_step.answered [of w2 sampleEnv] o r2 client_reaches.step by blast
  have "cl_at (afterWait sampleEnv w2) = InMainMenu" "us_id (g_currentUser (afterWait sampleEnv w2)) = 7"
    using outputs_state [OF outputs_steps(5)] o by (simp_all add: afterWait_def Let_def)
  with chat_menu_after_login [OF r3] r3 show ?thesis by blast
qed

end
