(* ===== verification/ChatAnswer.thy ===== *)
theory ChatAnswer
  imports ChatSession
begin

text \<open>
  The answer to a login on its way: what \<^verbatim>\<open>ChatService::login\<close> packs (users and groups as JSON
  texts inside a JSON text) and what \<^verbatim>\<open>doLoginResponse\<close> of the client unpacks.
\<close>

section \<open>Fields\<close>

lemma jsonContains_jsonSet: "keyed j \<Longrightarrow> jsonContains (jsonSet k v j) k' \<longleftrightarrow> k = k' \<or> jsonContains j k'"
  by (cases j) (auto simp: keyed_def jsonContains_def map_of_objSet)

lemma jsonContains_loginAck: "jsonContains (loginAck e) k \<longleftrightarrow> k = ''errno'' \<or> k = ''msgid''"
  unfolding loginAck_def by (auto simp: jsonContains_jsonSet simp del: jsonSet.simps) (simp_all add: jsonContains_def)

lemma jsonAt_JNull [simp]: "jsonAt JNull k = Inr JNull"
  by (simp add: jsonAt_def)

lemma json_ok_int: "fitsInt i \<Longrightarrow> json_ok (JInt i)"
  by (auto simp: fitsInt_def)

lemma clientInt_at: "jsonAt js k = Inr (JInt i) \<Longrightarrow> fitsInt i \<Longrightarrow> clientInt E js k = Inr i"
  by (simp add: clientInt_def jsonInt_def toInt32_fits)

lemma getStr_at: "jsonAt js k = Inr (JString s) \<Longrightarrow> getStr js k = Inr s"
  by (simp add: getStr_def jsonStr_def)

lemma jsonStrList_jsonStrings: "jsonStrList (jsonStrings ss) = Inr ss"
  unfolding jsonStrList_def jsonStrings_def by (induction ss) (simp_all add: jsonStr_def)

lemma json_ok_jsonStrings: "json_ok (jsonStrings ss)"
  by (simp add: jsonStrings_def)

lemma parse_own: "json_ok j \<Longrightarrow> dumpJson F j = Inr s \<Longrightarrow> parseJson F s = Inr j"
  using padded_parse [of j F s 0] by simp

text \<open>The rows of the database give numbers that fit, and users and groups with nothing else set.\<close>

lemma fieldInt_fits: "fieldInt row i = Inr n \<Longrightarrow> fitsInt n"
  by (auto simp: fieldInt_def atoi_def split: if_splits option.splits)

lemma readRows_all: "readRows f rows = Inr as \<Longrightarrow> a \<in> set as \<Longrightarrow> \<exists>row. f row = Inr a"
  by (induction rows arbitrary: as) (auto simp: bind_res_Inr_iff)

lemma readAll_all: "readAll f r = Inr (as, w) \<Longrightarrow> a \<in> set as \<Longrightarrow> \<exists>row. f row = Inr a"
  by (auto simp: readAll_def bind_res_Inr_iff split: prod.splits dest: readRows_all)

definition plainFriend :: "chat_user \<Rightarrow> bool" where
  "plainFriend u \<longleftrightarrow> fitsInt (us_id u) \<and> u = newUser\<lparr>us_id := us_id u, us_name := us_name u, us_state := us_state u\<rparr>"

definition plainMember :: "group_user \<Rightarrow> bool" where
  "plainMember u \<longleftrightarrow> fitsInt (us_id u) \<and>
     u = newGroupUser\<lparr>us_id := us_id u, us_name := us_name u, us_state := us_state u, gu_role := gu_role u\<rparr>"

definition plainGroup :: "group \<Rightarrow> bool" where
  "plainGroup g \<longleftrightarrow> fitsInt (gr_id g) \<and> (\<forall>u \<in> set (gr_users g). plainMember u)"

lemma rows_plain:
  "friendOfRow row = Inr u \<Longrightarrow> plainFriend u" "memberOfRow row = Inr m \<Longrightarrow> plainMember m" "groupOfRow row = Inr g \<Longrightarrow> plainGroup g"
  using fieldInt_fits [of row 0]
  by (auto simp: friendOfRow_def memberOfRow_def groupOfRow_def bind_res_Inr_iff plainFriend_def plainMember_def plainGroup_def newGroup_def)

lemma friendQuery_plain: "friendQuery B i w = Inr (us, w') \<Longrightarrow> u \<in> set us \<Longrightarrow> plainFriend u"
  by (auto simp: friendQuery_def bind_res_Inr_iff dest!: readAll_all dest: rows_plain)

lemma queryMembers_plain:
  "queryMembers B gs w = Inr (gs', w') \<Longrightarrow> \<forall>g \<in> set gs. plainGroup g \<Longrightarrow> g \<in> set gs' \<Longrightarrow> plainGroup g"
proof (induction gs arbitrary: w gs')
  case (Cons g0 gs)
  from Cons.prems(1) obtain us w1 gs1 where q: "readAll memberOfRow (mysqlQuery B (selectMembersSql (gr_id g0)) w) = Inr (us, w1)"
      "queryMembers B gs w1 = Inr (gs1, w')" "gs' = g0\<lparr>gr_users := gr_users g0 @ us\<rparr> # gs1"
    by (auto simp: bind_res_Inr_iff sqlText_Inr)
  have "\<forall>u \<in> set us. plainMember u"
    using readAll_all [OF q(1)] rows_plain(2) by blast
  with Cons.IH [OF q(2)] Cons.prems(2,3) q(3) show ?case by (auto simp: plainGroup_def)
qed simp

lemma groupQuery_plain:
  assumes "groupQuery B i w = Inr (gs', w')" "g \<in> set gs'"
  shows "plainGroup g"
proof -
  from assms(1) obtain gs w1 where q: "readAll groupOfRow (dbQuery B (selectGroupsSql i) w) = Inr (gs, w1)" "queryMembers B gs w1 = Inr (gs', w')"
    by (auto simp: groupQuery_def bind_res_Inr_iff sqlText_Inr)
  have "plainGroup g0" if "g0 \<in> set gs" for g0
    using readAll_all [OF q(1) that] rows_plain(3) by blast
  with queryMembers_plain [OF q(2) _ assms(2)] show ?thesis by blast
qed

section \<open>Packing and unpacking\<close>

text \<open>
  What the two sides agree on for one kind of value: the text one writes is read back by the
  other as the value. The lists of a response are written and read value by value.
\<close>

locale text_codec =
  fixes ok :: "'a \<Rightarrow> bool"
    and enc :: "'a \<Rightarrow> fault + string"
    and dec :: "string \<Rightarrow> fault + 'a"
  assumes dec_enc: "ok a \<Longrightarrow> enc a = Inr s \<Longrightarrow> dec s = Inr a"
begin

lemma dec_enc_list: "mapRes enc as = Inr ss \<Longrightarrow> \<forall>a \<in> set as. ok a \<Longrightarrow> mapRes dec ss = Inr as"
proof (induction as arbitrary: ss)
  case (Cons a as)
  then obtain s ss' where "enc a = Inr s" "mapRes enc as = Inr ss'" "ss = s # ss'" by (auto simp: bind_res_Inr_iff)
  with Cons dec_enc [of a s] show ?case by simp
qed simp

lemma enc_list_empty: "mapRes enc as = Inr ss \<Longrightarrow> ss = [] \<longleftrightarrow> as = []"
  by (cases as) (auto simp: bind_res_Inr_iff)

end

lemma dumpAll_mapRes: "dumpAll B (map f us) = mapRes (\<lambda>u. dumpJson (be_floats B) (f u)) us"
  by (induction us) simp_all

definition groupText :: "backend \<Rightarrow> group \<Rightarrow> fault + string" where
  "groupText B g = bind_res (groupJson B g) (dumpJson (be_floats B))"

lemma groupsJson_mapRes: "groupsJson B gs = Inr gjs \<Longrightarrow> dumpAll B gjs = Inr ss \<Longrightarrow> mapRes (groupText B) gs = Inr ss"
  by (induction gs arbitrary: gjs ss) (auto simp: bind_res_Inr_iff groupText_def)

lemma parseFriend_userJson:
  assumes "plainFriend u" "dumpJson (ce_floats E) (userJson u) = Inr s"
  shows "parseFriend E s = Inr u"
proof -
  have f: "fitsInt (us_id u)" and u: "newUser\<lparr>us_id := us_id u, us_name := us_name u, us_state := us_state u\<rparr> = u"
    using assms(1) by (auto simp: plainFriend_def)
  have "json_ok (userJson u)" unfolding userJson_def by (intro json_ok_jsonSet json_ok_int f) simp_all
  note p = parse_own [OF this assms(2)]
  have a: "jsonAt (userJson u) ''id'' = Inr (JInt (us_id u))" "jsonAt (userJson u) ''name'' = Inr (JString (us_name u))"
      "jsonAt (userJson u) ''state'' = Inr (JString (us_state u))"
    unfolding userJson_def by (simp_all add: jsonAt_jsonSet del: jsonSet.simps)
  show ?thesis
    by (simp add: parseFriend_def p clientInt_at [OF a(1) f] getStr_at [OF a(2)] getStr_at [OF a(3)] u)
qed

lemma parseMemberOf_memberJson:
  assumes "plainMember u" "dumpJson (ce_floats E) (memberJson u) = Inr s"
  shows "parseMemberOf E s = Inr u"
proof -
  have f: "fitsInt (us_id u)" and u: "newGroupUser\<lparr>us_id := us_id u, us_name := us_name u, us_state := us_state u, gu_role := gu_role u\<rparr> = u"
    using assms(1) by (auto simp: plainMember_def)
  have "json_ok (memberJson u)" unfolding memberJson_def by (intro json_ok_jsonSet json_ok_int f) simp_all
  note p = parse_own [OF this assms(2)]
  have a: "jsonAt (memberJson u) ''id'' = Inr (JInt (us_id u))" "jsonAt (memberJson u) ''name'' = Inr (JString (us_name u))"
      "jsonAt (memberJson u) ''state'' = Inr (JString (us_state u))" "jsonAt (memberJson u) ''role'' = Inr (JString (gu_role u))"
    unfolding memberJson_def by (simp_all add: jsonAt_jsonSet del: jsonSet.simps)
  show ?thesis
    by (simp add: parseMemberOf_def p clientInt_at [OF a(1) f] getStr_at [OF a(2)] getStr_at [OF a(3)] getStr_at [OF a(4)] u)
qed

text \<open>A member as \<^verbatim>\<open>login\<close> writes it and the client reads it.\<close>

interpretation memberc: text_codec "\<lambda>u. plainMember u \<and> be_floats B = ce_floats E"
    "\<lambda>u. dumpJson (be_floats B) (memberJson u)" "parseMemberOf E"
  by unfold_locales (simp add: parseMemberOf_memberJson)

interpretation friendc: text_codec "\<lambda>u. plainFriend u \<and> be_floats B = ce_floats E"
    "\<lambda>u. dumpJson (be_floats B) (userJson u)" "parseFriend E"
  by unfold_locales (simp add: parseFriend_userJson)

lemma parseGroup_groupJson:
  assumes "plainGroup g" "groupJson B g = Inr j" "dumpJson (ce_floats E) j = Inr s" "be_floats B = ce_floats E"
  shows "parseGroup E s = Inr g"
proof -
  have f: "fitsInt (gr_id g)" using assms(1) by (simp add: plainGroup_def)
  from assms(2) obtain us where us: "dumpAll B (map memberJson (gr_users g)) = Inr us"
      "j = jsonSet ''users'' (jsonStrings us) (jsonSet ''groupdesc'' (JString (gr_desc g))
         (jsonSet ''groupname'' (JString (gr_name g)) (jsonSet ''id'' (JInt (gr_id g)) JNull)))"
    by (auto simp: groupJson_def bind_res_Inr_iff simp del: jsonSet.simps)
  have "json_ok j" unfolding us(2) by (intro json_ok_jsonSet json_ok_int json_ok_jsonStrings f) simp_all
  note p = parse_own [OF this assms(3)]
  have a: "jsonAt j ''id'' = Inr (JInt (gr_id g))" "jsonAt j ''groupname'' = Inr (JString (gr_name g))"
      "jsonAt j ''groupdesc'' = Inr (JString (gr_desc g))" "jsonAt j ''users'' = Inr (jsonStrings us)"
    unfolding us(2) by (simp_all add: jsonAt_jsonSet del: jsonSet.simps)
  have m: "mapRes (parseMemberOf E) us = Inr (gr_users g)"
    using memberc.dec_enc_list [of B "gr_users g" us E] us(1) assms(1,4) by (simp add: dumpAll_mapRes plainGroup_def)
  show ?thesis
    by (simp add: parseGroup_def p clientInt_at [OF a(1) f] getStr_at [OF a(2)] getStr_at [OF a(3)] a(4) jsonStrList_jsonStrings m newGroup_def)
qed

interpretation groupc: text_codec "\<lambda>g. plainGroup g \<and> be_floats B = ce_floats E" "groupText B" "parseGroup E"
  by unfold_locales (auto simp: groupText_def bind_res_Inr_iff parseGroup_groupJson)

section \<open>The answer to a login\<close>

definition loginBase :: "chat_user \<Rightarrow> json" where
  "loginBase u = jsonSet ''name'' (JString (us_name u)) (jsonSet ''id'' (JInt (us_id u)) (loginAck 0))"

text \<open>A list that the response carries under a key when it has something in it.\<close>

definition withList :: "string \<Rightarrow> string list \<Rightarrow> json \<Rightarrow> json" where
  "withList k ss r = (if ss = [] then r else jsonSet k (jsonStrings ss) r)"

lemma withList_facts:
  assumes "keyed r"
  shows "keyed (withList k ss r)" "jsonAt (withList k ss r) k' = (if ss \<noteq> [] \<and> k = k' then Inr (jsonStrings ss) else jsonAt r k')"
    "jsonContains (withList k ss r) k' \<longleftrightarrow> ss \<noteq> [] \<and> k = k' \<or> jsonContains r k'" "json_ok r \<Longrightarrow> json_ok (withList k ss r)"
  using assms by (auto simp: withList_def jsonAt_jsonSet jsonContains_jsonSet json_ok_jsonStrings intro: json_ok_jsonSet simp del: jsonSet.simps)

lemma loginBase_facts:
  "keyed (loginBase u)" "jsonAt (loginBase u) ''errno'' = Inr (JInt 0)" "jsonAt (loginBase u) ''msgid'' = Inr (JInt LOGIN_MSG_ACK)"
  "jsonAt (loginBase u) ''id'' = Inr (JInt (us_id u))" "jsonAt (loginBase u) ''name'' = Inr (JString (us_name u))"
  "jsonContains (loginBase u) k \<longleftrightarrow> k \<in> {''errno'', ''msgid'', ''id'', ''name''}" "fitsInt (us_id u) \<Longrightarrow> json_ok (loginBase u)"
  unfolding loginBase_def
  by (auto simp: jsonAt_jsonSet jsonAt_loginAck jsonContains_jsonSet jsonContains_loginAck simp del: jsonSet.simps)
    (auto simp: loginAck_def msg_ids fitsInt_def intro!: json_ok_jsonSet simp del: jsonSet.simps)

lemma loginResponse_packs:
  assumes "loginResponse B u w = Inr (r, w')" "be_floats B = ce_floats E"
  shows "\<exists>vec fs gs friendV groupV w1 w2 w3. offlineQuery B (us_id u) w = Inr (vec, w1) \<and>
    friendQuery B (us_id u) w2 = Inr (fs, w3) \<and> groupQuery B (us_id u) w3 = Inr (gs, w') \<and>
    r = withList ''groups'' groupV (withList ''friends'' friendV (withList ''offlinemsg'' vec (loginBase u))) \<and>
    (friendV = [] \<longleftrightarrow> fs = []) \<and> mapRes (parseFriend E) friendV = Inr fs \<and>
    (groupV = [] \<longleftrightarrow> gs = []) \<and> mapRes (parseGroup E) groupV = Inr gs"
proof -
  from assms obtain vec w1 r1 w2 fs w3 r2 gs where s:
      "offlineQuery B (us_id u) w = Inr (vec, w1)"
      "(if vec = [] then Inr (loginBase u, w1) else bind_res (offlineRemove B (us_id u) w1) (\<lambda>w. Inr (jsonSet ''offlinemsg'' (jsonStrings vec) (loginBase u), w))) = Inr (r1, w2)"
      "friendQuery B (us_id u) w2 = Inr (fs, w3)"
      "(if fs = [] then Inr r1 else bind_res (dumpAll B (map userJson fs)) (\<lambda>vec2. Inr (jsonSet ''friends'' (jsonStrings vec2) r1))) = Inr r2"
      "groupQuery B (us_id u) w3 = Inr (gs, w')"
      "(if gs = [] then Inr r2 else bind_res (groupsJson B gs) (\<lambda>gjs. bind_res (dumpAll B gjs) (\<lambda>gv. Inr (jsonSet ''groups'' (jsonStrings gv) r2)))) = Inr r"
    unfolding loginResponse_def Let_def loginBase_def by (auto simp: bind_res_Inr_iff)
  have r1: "r1 = withList ''offlinemsg'' vec (loginBase u)"
    using s(2) by (auto simp: withList_def bind_res_Inr_iff split: if_splits)
  obtain friendV where f: "r2 = withList ''friends'' friendV r1" "friendV = [] \<longleftrightarrow> fs = []" "mapRes (parseFriend E) friendV = Inr fs"
  proof (cases "fs = []")
    case True
    with s(4) that [of "[]"] show ?thesis by (simp add: withList_def)
  next
    case False
    with s(4) obtain vec2 where v: "dumpAll B (map userJson fs) = Inr vec2" "r2 = jsonSet ''friends'' (jsonStrings vec2) r1"
      by (auto simp: bind_res_Inr_iff)
    note m = v(1) [unfolded dumpAll_mapRes]
    have "mapRes (parseFriend E) vec2 = Inr fs"
      using friendc.dec_enc_list [OF m, of E] friendQuery_plain [OF s(3)] assms(2) by simp
    with that [of vec2] v(2) False friendc.enc_list_empty [OF m] show ?thesis by (simp add: withList_def)
  qed
  obtain groupV where g: "r = withList ''groups'' groupV r2" "groupV = [] \<longleftrightarrow> gs = []" "mapRes (parseGroup E) groupV = Inr gs"
  proof (cases "gs = []")
    case True
    with s(6) that [of "[]"] show ?thesis by (simp add: withList_def)
  next
    case False
    with s(6) obtain gjs gv where v: "groupsJson B gs = Inr gjs" "dumpAll B gjs = Inr gv" "r = jsonSet ''groups'' (jsonStrings gv) r2"
      by (auto simp: bind_res_Inr_iff)
    note m = groupsJson_mapRes [OF v(1,2)]
    have "mapRes (parseGroup E) gv = Inr gs"
      using groupc.dec_enc_list [OF m, of E] groupQuery_plain [OF s(5)] assms(2) by simp
    with that [of gv] v(3) False groupc.enc_list_empty [OF m] show ?thesis by (simp add: withList_def)
  qed
  from s(1,3,5) r1 f g show ?thesis by blast
qed

text \<open>
  C9: The answer to a login arrives whole: the text the server sends is read back by the client
  as the user's number and name, and as exactly the friends and the groups, with their members,
  that the database named; then the waiting messages are shown, the login counts as successful
  and the main thread is woken. A list that is empty is not sent: the client then keeps what the
  user before had.
\<close>

theorem login_answer_arrives:
  assumes "loginResponse B u sv = Inr (r, sv')" "dumpJson (be_floats B) r = Inr s"
    and "be_floats B = ce_floats E" "fitsInt (us_id u)" "length s \<le> recvBuf"
  shows "\<exists>vec fs gs sv1 sv2 sv3. offlineQuery B (us_id u) sv = Inr (vec, sv1) \<and>
    friendQuery B (us_id u) sv2 = Inr (fs, sv3) \<and> groupQuery B (us_id u) sv3 = Inr (gs, sv') \<and>
    readTask E (Some s) w =
      bind_res (showOffline E vec (showCurrentUserData ((emit (Received s) w)
          \<lparr>g_currentUser := (g_currentUser w)\<lparr>us_id := us_id u, us_name := us_name u\<rparr>,
           g_currentUserFriendList := (if fs = [] then g_currentUserFriendList w else fs),
           g_currentUserGroupList := (if gs = [] then g_currentUserGroupList w else gs)\<rparr>)))
        (\<lambda>w. Inr (w\<lparr>g_isLoginSuccess := True, rwsem := rwsem w + 1\<rparr>))"
proof -
  from loginResponse_packs [OF assms(1,3)] obtain vec fs gs friendV groupV sv1 sv2 sv3 where
    q: "offlineQuery B (us_id u) sv = Inr (vec, sv1)" "friendQuery B (us_id u) sv2 = Inr (fs, sv3)" "groupQuery B (us_id u) sv3 = Inr (gs, sv')"
    and r: "r = withList ''groups'' groupV (withList ''friends'' friendV (withList ''offlinemsg'' vec (loginBase u)))"
    and f: "friendV = [] \<longleftrightarrow> fs = []" "mapRes (parseFriend E) friendV = Inr fs"
    and g: "groupV = [] \<longleftrightarrow> gs = []" "mapRes (parseGroup E) groupV = Inr gs" by blast
  note facts = withList_facts loginBase_facts
  have "json_ok r" using assms(4) by (simp add: r facts)
  from padded_parse [OF this, of "ce_floats E" s] assms(2,3)
  have p: "parseJson (ce_floats E) (s @ replicate (recvBuf - length s) (CHR 0x00)) = Inr r" by simp
  have ints: "clientInt E r ''msgid'' = Inr LOGIN_MSG_ACK" "clientInt E r ''errno'' = Inr 0" "clientInt E r ''id'' = Inr (us_id u)"
    using assms(4) by (simp_all add: clientInt_at r facts fitsInt_def LOGIN_MSG_ACK_def)
  have nm: "getStr r ''name'' = Inr (us_name u)" by (rule getStr_at) (simp add: r facts)
  have lists: "optStrings r ''friends'' = Inr (if fs = [] then None else Some friendV)"
      "optStrings r ''groups'' = Inr (if gs = [] then None else Some groupV)"
      "optStrings r ''offlinemsg'' = Inr (if vec = [] then None else Some vec)"
    using f(1) g(1) by (simp_all add: optStrings_def r facts jsonStrList_jsonStrings)
  let ?w = "(emit (Received s) w)\<lparr>g_currentUser := (g_currentUser w)\<lparr>us_id := us_id u, us_name := us_name u\<rparr>,
       g_currentUserFriendList := (if fs = [] then g_currentUserFriendList w else fs),
       g_currentUserGroupList := (if gs = [] then g_currentUserGroupList w else gs)\<rparr>"
  have "doLoginResponse E r (emit (Received s) w) =
      bind_res (showOffline E vec (showCurrentUserData ?w)) (\<lambda>w. Inr (w\<lparr>g_isLoginSuccess := True\<rparr>))"
    by (cases "fs = []"; cases "gs = []"; cases "vec = []")
      (simp_all add: doLoginResponse_def ints nm lists f(2) g(2) Let_def emit_def)
  with p ints(1) have "readTask E (Some s) w =
      bind_res (showOffline E vec (showCurrentUserData ?w)) (\<lambda>w. Inr (w\<lparr>g_isLoginSuccess := True, rwsem := rwsem w + 1\<rparr>))"
    by (cases "showOffline E vec (showCurrentUserData ?w)") (simp_all add: readTask_def Let_def msg_ids)
  with q show ?thesis by blast
qed

theorem login_answer_arrives_witness:
  "\<exists>r sv' s. loginResponse loginBackend annUser freshChat = Inr (r, sv') \<and> dumpJson plainFloats r = Inr s \<and>
     (\<exists>w'. readTask sampleEnv (Some s) ((newClient [])\<lparr>g_currentUserFriendList := [newUser]\<rparr>) = Inr w' \<and>
       us_name (g_currentUser w') = ''ann'' \<and> g_currentUserFriendList w' = [newUser] \<and> rwsem w' = 1)"
proof -
  have i: "dumpInt 7 = ''7''" "dumpInt 2 = ''2''" "dumpInt 0 = ''0''" by code_simp+
  note q = loginBackend_no_rows(1) offlineQuery_def friendQuery_def groupQuery_def sqlText_def sqlBuf_def
    selectOfflineSql_def selectFriendsSql_def selectGroupsSql_def selectUserSql_def i
  obtain r sv' s where s: "loginResponse loginBackend annUser freshChat = Inr (r, sv')" "dumpJson (be_floats loginBackend) r = Inr s" "length s < 200"
    by (simp add: loginResponse_def annUser_def q loginBackend_simps loginAck_def LOGIN_MSG_ACK_def dumpString_ascii byte_def dquote_def
      backslash_def less_list_code)
  have none: "offlineQuery loginBackend 7 w = Inr (vs, w') \<Longrightarrow> vs = []" "friendQuery loginBackend 7 w = Inr (us, w') \<Longrightarrow> us = []"
    "groupQuery loginBackend 7 w = Inr (gs, w') \<Longrightarrow> gs = []" for w w' vs us gs
    by (simp_all add: q)
  have F: "be_floats loginBackend = ce_floats sampleEnv" by (simp add: loginBackend_simps sampleEnv_def)
  let ?w = "(newClient [])\<lparr>g_currentUserFriendList := [newUser]\<rparr>"
  have u: "us_id annUser = 7" "us_name annUser = ''ann''" by (simp_all add: annUser_def)
  have "fitsInt (us_id annUser)" "length s \<le> recvBuf" using s(3) by (simp_all add: u fitsInt_def recvBuf_def)
  from login_answer_arrives [OF s(1,2) F this, of ?w, unfolded u] obtain vec fs gs sv1 sv2 sv3 where a:
      "offlineQuery loginBackend 7 freshChat = Inr (vec, sv1)" "friendQuery loginBackend 7 sv2 = Inr (fs, sv3)"
      "groupQuery loginBackend 7 sv3 = Inr (gs, sv')"
      "readTask sampleEnv (Some s) ?w =
        bind_res (showOffline sampleEnv vec (showCurrentUserData ((emit (Received s) ?w)
          \<lparr>g_currentUser := (g_currentUser ?w)\<lparr>us_id := 7, us_name := ''ann''\<rparr>,
           g_currentUserFriendList := (if fs = [] then g_currentUserFriendList ?w else fs),
           g_currentUserGroupList := (if gs = [] then g_currentUserGroupList ?w else gs)\<rparr>)))
        (\<lambda>w. Inr (w\<lparr>g_isLoginSuccess := True, rwsem := rwsem w + 1\<rparr>))" by blast
  have "vec = []" "fs = []" "gs = []" using none a(1-3) by blast+
  with a(4) have "\<exists>w'. readTask sampleEnv (Some s) ?w = Inr w' \<and> us_name (g_currentUser w') = ''ann'' \<and> g_currentUserFriendList w' = [newUser] \<and> rwsem w' = 1"
    using outputs_state [OF outputs_steps(6)] by (simp add: emit_def newClient_def)
  with s(1,2) show ?thesis by (auto simp: loginBackend_simps)
qed

end
