(* ===== verification/ChatJam.thy ===== *)
theory ChatJam
  imports ChatTravel
begin

text \<open>
  A line that is too long for the client's buffer: what \<^verbatim>\<open>getline\<close> leaves behind, and what the two
  threads of the client can do from then on.
\<close>

section \<open>Input that has failed\<close>

lemma bad_input:
  assumes "\<not> in_good s"
  shows "getLine n s = ([], s\<lparr>in_fail := True\<rparr>)" "readInt s = (0, s\<lparr>in_fail := True\<rparr>)" "getChar s = s\<lparr>in_fail := True\<rparr>"
    "\<not> in_good (s\<lparr>in_fail := True\<rparr>)"
  using assms by (simp_all add: getLine_def readInt_def getChar_def in_good_def)

lemma getLine_long:
  assumes "in_good s" "n - 1 < length (takeWhile (\<lambda>c. c \<noteq> newline) (in_text s))"
  shows "\<not> in_good (snd (getLine n s))"
proof -
  let ?line = "takeWhile (\<lambda>c. c \<noteq> newline) (in_text s)"
  have l: "n - 1 < length (in_text s)" using assms(2) length_takeWhile_le [of _ "in_text s"] by (rule less_le_trans)
  then have "drop (n - 1) (in_text s) \<noteq> []" "hd (drop (n - 1) (in_text s)) = ?line ! (n - 1)"
    using takeWhile_nth [OF assms(2)] by (simp_all add: hd_drop_conv_nth)
  moreover have "?line ! (n - 1) \<noteq> newline" using assms(2) nth_mem set_takeWhileD by fastforce
  moreover have "length (take (n - 1) ?line) = n - 1" using assms(2) by simp
  ultimately show ?thesis using assms(1)
    by (cases "drop (n - 1) (in_text s)") (auto simp: getLine_def Let_def in_good_def)
qed

text \<open>The main thread is at a menu, and the input stream does not give it anything.\<close>

definition spinning :: "client \<Rightarrow> bool" where
  "spinning w \<longleftrightarrow> \<not> in_good (cl_in w) \<and> (cl_at w = AtMenu \<or> cl_at w = InMainMenu)"

text \<open>From \<open>w\<close> to \<open>w'\<close> nothing is read and nothing is sent.\<close>

definition idles :: "client \<Rightarrow> client \<Rightarrow> bool" where
  "idles w w' \<longleftrightarrow> in_text (cl_in w') = in_text (cl_in w) \<and> sentBytes (cl_log w') = sentBytes (cl_log w)"

lemma idles_trans: "idles w w1 \<Longrightarrow> idles w1 w2 \<Longrightarrow> idles w w2"
  by (simp add: idles_def)

lemma sentBytes_simps [simp]:
  "sentBytes [] = []" "sentBytes (Printed t # log) = sentBytes log" "sentBytes (Warned t # log) = sentBytes log"
  "sentBytes (Received t # log) = sentBytes log" "sentBytes (es @ log) = sentBytes log @ sentBytes es"
  by (simp_all add: sentBytes_def)

lemma sentBytes_lines [simp]: "sentBytes (rev (map (\<lambda>s. Printed (s @ [newline])) ls)) = []"
  by (induction ls) simp_all

section \<open>The main thread\<close>

lemma spinning_turn:
  assumes "spinning w"
  shows "\<exists>w'. mainTurn E w = Inr w' \<and> spinning w' \<and> idles w w'"
proof -
  from assms have b: "\<not> in_good (cl_in w)" by (simp add: spinning_def)
  from assms consider "cl_at w = AtMenu" | "cl_at w = InMainMenu" by (auto simp: spinning_def)
  then show ?thesis
  proof cases
    case 1
    then show ?thesis using b bad_input(4) [OF b]
      by (simp add: mainTurn_def menuTurn_def menuText_def println_def warnln_def emit_def bad_input spinning_def idles_def Let_def)
  next
    case 2
    have "map_of (commandHandlerMap E) [] = None" by (simp add: commandHandlerMap_def)
    with 2 b bad_input(4) [OF b] show ?thesis
      by (auto simp: mainTurn_def commandTurn_def bad_input cstr_def splitColon_def warnln_def emit_def spinning_def idles_def)
  qed
qed

section \<open>The reading thread\<close>

text \<open>From \<open>w\<close> to \<open>w'\<close> the reading thread was at work: it prints, and never touches the input.\<close>

definition reads :: "client \<Rightarrow> client \<Rightarrow> bool" where
  "reads w w' \<longleftrightarrow> cl_in w' = cl_in w \<and> cl_at w' = cl_at w \<and> sentBytes (cl_log w') = sentBytes (cl_log w)"

lemma reads_trans: "reads w w1 \<Longrightarrow> reads w1 w2 \<Longrightarrow> reads w w2"
  by (simp add: reads_def)

lemma reads_lines: "reads w (fold println ls w)"
  by (simp add: reads_def lines_logged)

lemma reads_steps [simp]:
  "reads w w" "reads w (emit (Received s) w)" "reads w (println s w)" "reads w (warnln s w)" "reads w (showCurrentUserData w)"
  by (simp_all add: reads_def output_logged) (simp only: showCurrentUserData_def reads_lines [unfolded reads_def] simp_thms)

lemma showOffline_reads: "showOffline E strs w = Inr w' \<Longrightarrow> reads w w'"
proof (induction strs arbitrary: w)
  case (Cons str strs)
  then obtain w1 where "showOffline E strs w1 = Inr w'" "reads w w1"
    by (fastforce simp: bind_res_Inr_iff split: if_splits)
  with Cons.IH reads_trans show ?case by blast
qed simp

lemma doLoginResponse_reads: "doLoginResponse E js w = Inr w' \<Longrightarrow> reads w w'"
proof -
  assume a: "doLoginResponse E js w = Inr w'"
  show ?thesis
  proof (cases "clientInt E js ''errno'' = Inr 0")
    case False
    with a obtain s where "w' = (warnln s w)\<lparr>g_isLoginSuccess := False\<rparr>"
      by (auto simp: doLoginResponse_def bind_res_Inr_iff split: if_splits)
    moreover have "reads w (warnln s w)" by simp
    ultimately show ?thesis by (simp add: reads_def)
  next
    case True
    with a obtain i nm friends w1 groups w2 msgs w3 where s:
        "(case friends of None \<Rightarrow> Inr (w\<lparr>g_currentUser := (g_currentUser w)\<lparr>us_id := i, us_name := nm\<rparr>\<rparr>)
          | Some vec \<Rightarrow> bind_res (mapRes (parseFriend E) vec) (\<lambda>us.
              Inr (w\<lparr>g_currentUser := (g_currentUser w)\<lparr>us_id := i, us_name := nm\<rparr>, g_currentUserFriendList := us\<rparr>))) = Inr w1"
        "(case groups of None \<Rightarrow> Inr w1 | Some vec1 \<Rightarrow> bind_res (mapRes (parseGroup E) vec1) (\<lambda>gs. Inr (w1\<lparr>g_currentUserGroupList := gs\<rparr>))) = Inr w2"
        "showOffline E (case msgs of None \<Rightarrow> [] | Some vec \<Rightarrow> vec) (showCurrentUserData w2) = Inr w3"
        "w' = w3\<lparr>g_isLoginSuccess := True\<rparr>"
      unfolding doLoginResponse_def Let_def by (auto simp: bind_res_Inr_iff)
    from s(1) have "reads w w1" by (auto simp: bind_res_Inr_iff reads_def split: option.splits)
    moreover from s(2) have "reads w1 w2" by (auto simp: bind_res_Inr_iff reads_def split: option.splits)
    ultimately have r: "reads w w2" by (rule reads_trans)
    have "reads w w3" using reads_trans [OF r reads_trans [OF _ showOffline_reads [OF s(3)]]] by simp
    then show ?thesis by (simp add: s(4) reads_def)
  qed
qed

lemma doRegResponse_reads: "doRegResponse E js w = Inr w' \<Longrightarrow> reads w w'"
  by (auto simp: doRegResponse_def bind_res_Inr_iff split: if_splits)

lemma readTask_reads:
  assumes "readTask E (Some bytes) w = Inr w'"
  shows "reads w w'"
proof -
  let ?w = "emit (Received bytes) w"
  have r: "reads w ?w" by simp
  from assms obtain js msgtype where
      "(if msgtype = ONE_CHAT_MSG then bind_res (showMessage E '' said:'' js) (\<lambda>s. Inr (println s ?w))
        else if msgtype = GROUP_CHAT_MSG then bind_res (showGroupMessage E '' said:'' js) (\<lambda>s. Inr (println s ?w))
        else if msgtype = LOGIN_MSG_ACK then bind_res (doLoginResponse E js ?w) (\<lambda>w. Inr (w\<lparr>rwsem := rwsem w + 1\<rparr>))
        else if msgtype = REG_MSG_ACK then bind_res (doRegResponse E js ?w) (\<lambda>w. Inr (w\<lparr>rwsem := rwsem w + 1\<rparr>))
        else Inr ?w) = Inr w'"
    by (auto simp: readTask_def Let_def bind_res_Inr_iff)
  then obtain w1 where "reads ?w w1" "w' = w1 \<or> w' = w1\<lparr>rwsem := rwsem w1 + 1\<rparr>"
    by (auto simp: bind_res_Inr_iff split: if_splits dest: doLoginResponse_reads doRegResponse_reads intro: reads_steps)
  with reads_trans [OF r] show ?thesis by (auto simp: reads_def)
qed

section \<open>Both threads\<close>

lemma spinning_step:
  assumes "client_step E w w'" "spinning w"
  shows "spinning w' \<and> idles w w'"
  using assms(1)
proof cases
  case menu
  with spinning_turn [OF assms(2), of E] show ?thesis by (auto simp: mainTurn_def)
next
  case command
  with spinning_turn [OF assms(2), of E] show ?thesis by (auto simp: mainTurn_def)
next
  case answered
  with assms(2) show ?thesis by (auto simp: spinning_def)
next
  case (receive data)
  from readTask_reads [OF receive(4)] assms(2) show ?thesis by (simp add: reads_def spinning_def idles_def)
qed

lemma spinning_run: "(client_step E)\<^sup>*\<^sup>* w w' \<Longrightarrow> spinning w \<Longrightarrow> spinning w' \<and> idles w w'"
proof (induction rule: rtranclp_induct)
  case base
  then show ?case by (simp add: idles_def)
next
  case (step w1 w2)
  with spinning_step idles_trans show ?case by blast
qed

lemma getLine_long_rest:
  assumes "in_good s" "n - 1 < length (takeWhile (\<lambda>c. c \<noteq> newline) (in_text s))"
  shows "in_text (snd (getLine n s)) = drop (n - 1) (in_text s)"
proof -
  let ?line = "takeWhile (\<lambda>c. c \<noteq> newline) (in_text s)"
  have l: "n - 1 < length (in_text s)" using assms(2) length_takeWhile_le [of _ "in_text s"] by (rule less_le_trans)
  then have "hd (drop (n - 1) (in_text s)) = ?line ! (n - 1)"
    using takeWhile_nth [OF assms(2)] by (simp add: hd_drop_conv_nth)
  moreover have "?line ! (n - 1) \<noteq> newline" using assms(2) nth_mem set_takeWhileD by fastforce
  moreover have "length (take (n - 1) ?line) = n - 1" using assms(2) by simp
  ultimately show ?thesis using assms(1) l
    by (cases "drop (n - 1) (in_text s)") (auto simp: getLine_def Let_def)
qed

section \<open>The property\<close>

text \<open>
  C35: A line of 1024 characters or more jams the client for good: \<^verbatim>\<open>getline\<close> takes 1023 characters
  and sets \<^verbatim>\<open>failbit\<close>, and nothing clears it. Whatever the two threads do from then on, in whatever
  order, not one further character of the input is read, nothing is ever sent, and the main thread
  stays at its two menus, where every turn comes back and finds the same.
\<close>

theorem long_line_jams_client:
  assumes "commandTurn E w = Inr w1" "cl_at w = InMainMenu" "isMainMenuRunning w" "in_good (cl_in w)"
    and "1024 \<le> length (takeWhile (\<lambda>c. c \<noteq> newline) (in_text (cl_in w)))"
    and "(client_step E)\<^sup>*\<^sup>* w1 w2"
  shows "in_text (cl_in w2) = drop 1023 (in_text (cl_in w)) \<and> sentBytes (cl_log w2) = sentBytes (cl_log w1) \<and>
    (cl_at w2 = AtMenu \<or> cl_at w2 = InMainMenu) \<and> (\<exists>w3. mainTurn E w2 = Inr w3 \<and> client_step E w2 w3)"
proof -
  from commandTurn_commanded [OF assms(1,3)] obtain b where
    "outputs (w\<lparr>cl_in := snd (getLine 1024 (cl_in w)), isMainMenuRunning := b\<rparr>) w1" by (auto simp: commanded_def)
  with outputs_state have w1: "cl_in w1 = snd (getLine 1024 (cl_in w))" "cl_at w1 = cl_at w" by fastforce+
  with getLine_long [OF assms(4), of 1024] assms(2,5) have "spinning w1" by (simp add: spinning_def)
  with spinning_run [OF assms(6)] have s: "spinning w2" "idles w1 w2" by blast+
  moreover have "in_text (cl_in w1) = drop 1023 (in_text (cl_in w))"
    using getLine_long_rest [OF assms(4), of 1024] assms(5) w1(1) by simp
  moreover obtain w3 where w3: "mainTurn E w2 = Inr w3" using spinning_turn [OF s(1)] by blast
  moreover have "client_step E w2 w3"
    using w3 s(1) by (auto simp: mainTurn_def spinning_def intro: client_step.menu client_step.command)
  ultimately show ?thesis by (auto simp: idles_def spinning_def)
qed

theorem long_line_jams_client_witness:
  "\<exists>w1 w2. commandTurn sampleEnv (chatting (replicate 2000 (CHR ''a'') @ [newline] @ ''loginout'' @ [newline])) = Inr w1 \<and>
     client_step sampleEnv w1 w2 \<and> sentBytes (cl_log w2) = sentBytes (cl_log w1) \<and>
     in_text (cl_in w2) = replicate 977 (CHR ''a'') @ [newline] @ ''loginout'' @ [newline]"
proof -
  let ?s = "replicate 2000 (CHR ''a'') @ [newline] @ ''loginout'' @ [newline]"
  let ?w = "chatting ?s"
  have t: "takeWhile (\<lambda>c. c \<noteq> newline) ?s = replicate 2000 (CHR ''a'')"
    by (subst takeWhile_append2) (auto simp: newline_def)
  have w: "cl_at ?w = InMainMenu" "isMainMenuRunning ?w" "in_good (cl_in ?w)" "in_text (cl_in ?w) = ?s"
    by (simp_all add: chatting_def newClient_def in_good_def)
  have a: "dropWhile (\<lambda>c. c \<noteq> CHR '':'') (replicate 1023 (CHR ''a'')) = []" "cstr (replicate 1023 (CHR ''a'')) = replicate 1023 (CHR ''a'')"
    by (auto simp: cstr_def takeWhile_eq_all_conv)
  have "fst (getLine 1024 (cl_in ?w)) = replicate 1023 (CHR ''a'')"
    using w(3,4) t by (simp add: getLine_def Let_def)
  moreover have "map_of (commandHandlerMap sampleEnv) (replicate 1023 (CHR ''a'')) = None"
  proof -
    have "length c < 1023" if "(c, h) \<in> set (commandHandlerMap sampleEnv)" for c h
      using that by (auto simp: commandHandlerMap_def)
    then show ?thesis unfolding map_of_eq_None_iff by force
  qed
  ultimately have "\<exists>w1. commandTurn sampleEnv ?w = Inr w1"
    using w(2) a by (cases "getLine 1024 (cl_in ?w)") (simp add: commandTurn_def splitColon_def Let_def)
  then obtain w1 where w1: "commandTurn sampleEnv ?w = Inr w1" by blast
  have "1024 \<le> length (takeWhile (\<lambda>c. c \<noteq> newline) (in_text (cl_in ?w)))" by (simp only: w(4) t length_replicate)
  note jam = long_line_jams_client [OF w1 w(1-3) this]
  from jam [OF rtranclp.rtrancl_refl] obtain w2 where w2: "client_step sampleEnv w1 w2" by blast
  have "drop 1023 (in_text (cl_in ?w)) = replicate 977 (CHR ''a'') @ [newline] @ ''loginout'' @ [newline]"
    by (simp only: w(4) drop_append drop_replicate length_replicate) simp
  with jam [OF r_into_rtranclp [of "client_step sampleEnv", OF w2]] w1 w2 show ?thesis by auto
qed

end
