(* ===== verification/ChatForge.thy ===== *)
theory ChatForge
  imports ChatTravel
begin

text \<open>
  What a stored message says after the table has read it: the statements are printed without
  quoting, so the backslashes that JSON puts before quote marks are gone when the row is read back.
\<close>

section \<open>Printed texts as parts of a literal\<close>

definition printable :: "char \<Rightarrow> bool" where
  "printable c \<longleftrightarrow> 32 \<le> byte c \<and> byte c < 127"

text \<open>Text that neither JSON nor SQL changes: a name, a time.\<close>

definition safeText :: "string \<Rightarrow> bool" where
  "safeText s \<longleftrightarrow> list_all (\<lambda>c. printable c \<and> c \<noteq> dquote \<and> c \<noteq> backslash \<and> c \<noteq> squote) s"

definition escapes :: "string \<Rightarrow> string" where
  "escapes s = concat (map (\<lambda>c. escaped (byte c) c) s)"

lemma escapes_simps [simp]: "escapes [] = []" "escapes (c # s) = escaped (byte c) c @ escapes s" "escapes (s @ t) = escapes s @ escapes t"
  by (simp_all add: escapes_def)

lemma escaped_printable:
  assumes "printable c"
  shows "escaped (byte c) c = (if c = dquote then [backslash, dquote] else if c = backslash then [backslash, backslash] else [c])"
proof -
  from assms have c: "32 \<le> byte c" "byte c < 127" by (simp_all add: printable_def)
  have "c = dquote \<longleftrightarrow> byte c = 34" "c = backslash \<longleftrightarrow> byte c = 92"
    using byte_eqI [of c dquote] byte_eqI [of c backslash] byte_special by auto
  with c show ?thesis by (auto simp: escaped_def)
qed

lemma dumpString_printable: "list_all printable s \<Longrightarrow> dumpString s = Inr ([dquote] @ escapes s @ [dquote])"
proof -
  have "list_all printable s \<Longrightarrow> dumpEscaped 0 cp s = Inr (escapes s)" for cp
  proof (induction s arbitrary: cp)
    case (Cons c s)
    then have "decode 0 cp (byte c) = (0, byte c)"
      by (simp add: printable_def decode_start byteClass_nth utf8d_first low_bits)
    with Cons show ?case by (simp add: utf8Accept_def)
  qed (simp add: utf8Accept_def)
  then show "list_all printable s \<Longrightarrow> ?thesis" by (simp add: dumpString_def utf8Accept_def)
qed

lemma sqlUnquote_append: "sqlUnquote s = Some v \<Longrightarrow> sqlUnquote (s @ t) = map_option ((@) v) (sqlUnquote t)"
proof (induction s arbitrary: v rule: sqlUnquote.induct)
  case 1
  then show ?case by (cases "sqlUnquote t") simp_all
next
  case (2 c s)
  show ?case
  proof (cases "c = backslash \<or> c = squote")
    case False
    with 2(4) obtain u where "v = c # u" "sqlUnquote s = Some u" by auto
    with 2(3) False show ?thesis by (cases "sqlUnquote t") simp_all
  next
    case True
    with 2(4) obtain d s' where s: "s = d # s'" by (cases s) (auto split: if_splits)
    show ?thesis
    proof (cases "c = backslash")
      case bs: True
      with 2(4) s obtain u where "v = sqlEscape d @ u" "sqlUnquote s' = Some u" by auto
      with 2(1) [OF bs s] bs s show ?thesis by (cases "sqlUnquote t") simp_all
    next
      case False
      with True have q: "c = squote" by simp
      with 2(4) s False obtain u where u: "v = squote # u" "sqlUnquote s' = Some u" "d = squote" by (auto split: if_splits)
      with 2(2) [OF False q s u(3)] q s False show ?thesis by (cases "sqlUnquote t") simp_all
    qed
  qed
qed

lemma sqlUnquote_safe: "safeText s \<Longrightarrow> sqlUnquote s = Some s"
  by (induction s) (auto simp: safeText_def)

lemma sqlUnquote_escapes: "list_all (\<lambda>c. printable c \<and> c \<noteq> squote) s \<Longrightarrow> sqlUnquote (escapes s) = Some s"
proof (induction s)
  case (Cons c s)
  have "sqlEscape dquote = [dquote]" "sqlEscape backslash = [backslash]" "dquote \<noteq> backslash" "dquote \<noteq> squote" "backslash \<noteq> squote"
    by (simp_all add: sqlEscape_def dquote_def backslash_def squote_def)
  with Cons show ?case by (auto simp: escaped_printable)
qed simp

lemma safe_printable: "safeText s \<Longrightarrow> list_all printable s"
  by (auto simp: safeText_def list_all_iff)

lemma escapes_safe: "safeText s \<Longrightarrow> escapes s = s"
  by (induction s) (auto simp: safeText_def escaped_printable)

lemma safeText_append [simp]: "safeText (s @ t) \<longleftrightarrow> safeText s \<and> safeText t"
  by (simp add: safeText_def)

lemma safe_dumpInt: "safeText (dumpInt i)"
proof -
  have "printable c \<and> c \<noteq> dquote \<and> c \<noteq> backslash \<and> c \<noteq> squote" if "c \<in> set (dumpInt i)" for c
    using dumpInt_chars [OF that] by (auto simp: isDigit_def printable_def byte_def dquote_def backslash_def squote_def)
  then show ?thesis by (simp add: safeText_def list_all_iff)
qed

section \<open>The message\<close>

text \<open>What is typed: the first quote mark ends the text, and the rest is members of the object.\<close>

definition forgedText :: "int \<Rightarrow> string" where
  "forgedText j = ''x'' @ [dquote] @ '','' @ [dquote] @ ''id'' @ [dquote] @ '':'' @ dumpInt j @ '','' @ [dquote] @ ''y'' @ [dquote] @ '':'' @ [dquote]"

text \<open>The members of the object that is stored.\<close>

definition storedMembers :: "int \<Rightarrow> int \<Rightarrow> string \<Rightarrow> int \<Rightarrow> string \<Rightarrow> (string \<times> json) list" where
  "storedMembers i j nm to now =
     [(''id'', JInt i), (''msg'', JString ''x''), (''id'', JInt j), (''y'', JString ''''), (''msgid'', JInt ONE_CHAT_MSG),
      (''name'', JString nm), (''time'', JString now), (''to'', JInt to)]"

lemma forged_printable: "list_all (\<lambda>c. printable c \<and> c \<noteq> squote) (forgedText j)"
proof -
  have "list_all (\<lambda>c. printable c \<and> c \<noteq> squote) (dumpInt j)"
    using safe_dumpInt [of j] by (auto simp: safeText_def list_all_iff)
  then show ?thesis by (simp add: forgedText_def printable_def byte_def dquote_def squote_def)
qed

text \<open>The parts of the printed message around the text.\<close>

definition beforeText :: "int \<Rightarrow> string" where
  "beforeText i = ''{'' @ [dquote] @ ''id'' @ [dquote] @ '':'' @ dumpInt i @ '','' @ [dquote] @ ''msg'' @ [dquote] @ '':'' @ [dquote]"

definition afterText :: "string \<Rightarrow> string \<Rightarrow> int \<Rightarrow> string" where
  "afterText nm now to =
     [dquote] @ '','' @ [dquote] @ ''msgid'' @ [dquote] @ '':'' @ dumpInt ONE_CHAT_MSG @ '','' @
     [dquote] @ ''name'' @ [dquote] @ '':'' @ [dquote] @ nm @ [dquote] @ '','' @
     [dquote] @ ''time'' @ [dquote] @ '':'' @ [dquote] @ now @ [dquote] @ '','' @
     [dquote] @ ''to'' @ [dquote] @ '':'' @ dumpInt to @ ''}''"

lemma keys_printed:
  "dumpString ''id'' = Inr ([dquote] @ ''id'' @ [dquote])" "dumpString ''msg'' = Inr ([dquote] @ ''msg'' @ [dquote])"
  "dumpString ''msgid'' = Inr ([dquote] @ ''msgid'' @ [dquote])" "dumpString ''name'' = Inr ([dquote] @ ''name'' @ [dquote])"
  "dumpString ''time'' = Inr ([dquote] @ ''time'' @ [dquote])" "dumpString ''to'' = Inr ([dquote] @ ''to'' @ [dquote])"
  "dumpString ''y'' = Inr ([dquote] @ ''y'' @ [dquote])" "dumpString ''x'' = Inr ([dquote] @ ''x'' @ [dquote])"
  "dumpString [] = Inr [dquote, dquote]"
  by (simp_all add: dumpString_ascii byte_def dquote_def backslash_def)

lemma safe_printed: "safeText s \<Longrightarrow> dumpString s = Inr ([dquote] @ s @ [dquote])"
  by (simp add: dumpString_printable safe_printable escapes_safe)

lemma forged_printed:
  assumes "safeText nm" "safeText now"
  shows "dumpJson F (chatJson i nm to (forgedText j) now) = Inr (beforeText i @ escapes (forgedText j) @ afterText nm now to)"
proof -
  have "list_all printable (forgedText j)" using forged_printable [of j] by (simp add: list_all_iff)
  then show ?thesis
    by (simp add: chatJson_def dumpString_printable keys_printed safe_printed [OF assms(1)] safe_printed [OF assms(2)]
        beforeText_def afterText_def)
qed

lemma stored_printed:
  assumes "safeText nm" "safeText now"
  shows "\<exists>v. dumpMembers F (storedMembers i j nm to now) = Inr v \<and> beforeText i @ forgedText j @ afterText nm now to = ''{'' @ v @ ''}''"
  by (simp add: storedMembers_def keys_printed safe_printed [OF assms(1)] safe_printed [OF assms(2)] beforeText_def afterText_def
      forgedText_def)

lemma stored_parsed:
  assumes "safeText nm" "safeText now" "fitsInt i" "fitsInt j" "fitsInt to"
  shows "parseJson F (beforeText i @ forgedText j @ afterText nm now to) =
    Inr (JObject (fold (\<lambda>(k, v). objSet k v) (storedMembers i j nm to now) []))"
proof -
  obtain v where v: "dumpMembers F (storedMembers i j nm to now) = Inr v"
      "beforeText i @ forgedText j @ afterText nm now to = ''{'' @ v @ ''}''"
    using stored_printed [OF assms(1,2)] by blast
  have "\<forall>kv \<in> set (storedMembers i j nm to now). json_ok (snd kv)" "storedMembers i j nm to now \<noteq> []"
    using assms(3-5) by (auto simp: storedMembers_def fitsInt_def ONE_CHAT_MSG_def)
  from parseJson_any [OF v(1) this(2,1)] show ?thesis by (simp add: v(2))
qed


section \<open>Storing and reading back\<close>

text \<open>
  What MySQL documents for an INSERT of a well-formed literal: it succeeds when the value fits the
  column, here \<^verbatim>\<open>varchar(500)\<close>, in ASCII.
\<close>

definition literals_accepted :: "backend \<Rightarrow> bool" where
  "literals_accepted B \<longleftrightarrow> (\<forall>log i s v. sqlUnquote s = Some v \<and> length v \<le> 500 \<and> list_all (\<lambda>c. 0 < byte c \<and> byte c < 128) v
     \<longrightarrow> db_exec B log (insertOfflineSql i s))"

lemma literal_stored:
  assumes "db_reachable B" "offline_documented B" "db_exec B (ch_log (snd (mysqlConnect B w))) (insertOfflineSql i s)"
    and "fitsInt i" "length (insertOfflineSql i s) < 1024" "sqlUnquote (cstr s) = Some v"
  shows "\<exists>w1 vec w2. offlineInsert B i s w = Inr w1 \<and> offlineQuery B i w1 = Inr (vec, w2) \<and> v \<in> set vec"
proof -
  from connect_offline [OF assms(1), of w] obtain w' where w': "mysqlConnect B w = (True, w')" by blast
  let ?w1 = "effect (DbStatement (insertOfflineSql i s) True) w'"
  have "offlineInsert B i s w = Inr ?w1"
    using assms(3,5) w' by (simp add: offlineInsert_def sqlText_def sqlBuf_def dbUpdate_def mysqlUpdate_def Let_def)
  moreover have "insertOfflineSql i s \<noteq> deleteOfflineSql i" by (simp add: insertOfflineSql_def deleteOfflineSql_def)
  then have "v \<in> set (storedOffline i (ch_log ?w1))" by (simp add: literalOf_insert assms(6))
  moreover from assms(1,2) have "mailOk (B, ?w1)" by (simp add: mailOk_def)
  from offlineQuery_box [OF this assms(4)] obtain vec w2 where
      "offlineQuery B i ?w1 = Inr (vec, w2)" "mset vec = mset (storedOffline i (ch_log ?w1))" by blast
  ultimately show ?thesis using mset_eq_setD by metis
qed

lemma server_stores_chat:
  assumes "dumpJson (be_floats B) (chatJson i nm to msg now) = Inr s" "fitsInt i" "fitsInt to" "umFind to (ch_conns sv) = None"
    and "userQuery B to sv = Inr (u, sv1)" "us_state u \<noteq> ''online''"
  shows "serverOnMessage B conn (s @ [CHR 0x00]) sv = Some (offlineInsert B to s sv1)"
proof -
  have "parseJson (be_floats B) (s @ [CHR 0x00]) = Inr (chatJson i nm to msg now)"
    using padded_parse [OF chatJson_ok [OF assms(2,3)] assms(1), of 1] by simp
  moreover have "getHandler B ONE_CHAT_MSG = oneChat B" by (simp add: getHandler_def msgHandlerMap_def msg_ids)
  moreover have "getInt B (chatJson i nm to msg now) ''msgid'' = Inr ONE_CHAT_MSG"
    by (simp add: getInt_def jsonAt_chatJson jsonInt_def toInt32_fits fitsInt_def ONE_CHAT_MSG_def)
  moreover have "getInt B (chatJson i nm to msg now) ''to'' = Inr to"
    using assms(3) by (simp add: getInt_def jsonAt_chatJson jsonInt_def toInt32_fits)
  ultimately show ?thesis using assms(1,4-6) by (simp add: serverOnMessage_def oneChat_def forward_def)
qed

text \<open>What the addressee's client makes of the row.\<close>

lemma forged_shown:
  assumes "safeText nm" "safeText now" "fitsInt i" "fitsInt j" "fitsInt to"
  shows "showOffline E [beforeText i @ forgedText j @ afterText nm now to] r =
    Inr (println (now @ '' ['' @ dumpInt j @ '']'' @ nm @ ''said:x'') r)"
proof -
  let ?js = "JObject (fold (\<lambda>(k, v). objSet k v) (storedMembers i j nm to now) [])"
  have "jsonAt ?js ''id'' = Inr (JInt j)" "jsonAt ?js ''msg'' = Inr (JString ''x'')" "jsonAt ?js ''name'' = Inr (JString nm)"
    "jsonAt ?js ''time'' = Inr (JString now)" "jsonAt ?js ''msgid'' = Inr (JInt ONE_CHAT_MSG)"
    by (simp_all add: storedMembers_def jsonAt_def less_list_code)
  then show ?thesis
    by (simp add: stored_parsed [OF assms] clientInt_def jsonInt_def toInt32_fits fitsInt_def ONE_CHAT_MSG_def showMessage_def
        getStr_def jsonStr_def showJson_def)
qed

section \<open>The property\<close>

lemma forged_value:
  assumes "safeText nm" "safeText now"
  shows "sqlUnquote (beforeText i @ escapes (forgedText j) @ afterText nm now to) = Some (beforeText i @ forgedText j @ afterText nm now to)"
proof -
  have u: "sqlUnquote s = Some s" if "list_all (\<lambda>c. c \<noteq> backslash \<and> c \<noteq> squote) s" for s
    using that by (induction s) auto
  have safe: "safeText s \<Longrightarrow> list_all (\<lambda>c. c \<noteq> backslash \<and> c \<noteq> squote) s" for s by (auto simp: safeText_def list_all_iff)
  have "sqlUnquote (beforeText i) = Some (beforeText i)"
    using safe [OF safe_dumpInt [of i]] by (intro u) (simp add: beforeText_def dquote_def backslash_def squote_def)
  moreover have "sqlUnquote (afterText nm now to) = Some (afterText nm now to)"
    using safe [OF safe_dumpInt [of to]] safe [OF safe_dumpInt [of ONE_CHAT_MSG]] safe [OF assms(1)] safe [OF assms(2)]
    by (intro u) (simp add: afterText_def dquote_def backslash_def squote_def)
  ultimately show ?thesis by (simp add: sqlUnquote_append sqlUnquote_escapes [OF forged_printable])
qed

lemma length_escapes: "list_all printable s \<Longrightarrow> length (escapes s) \<le> 2 * length s"
  by (induction s) (auto simp: escaped_printable)

lemma forged_lengths:
  assumes "length nm + length now \<le> 300" "fitsInt i" "fitsInt j" "fitsInt to"
  shows "length (beforeText i @ forgedText j @ afterText nm now to) \<le> 500"
    "length (beforeText i @ escapes (forgedText j) @ afterText nm now to) \<le> 600"
proof -
  have "dumpInt ONE_CHAT_MSG = ''6''" by code_simp
  with assms length_dumpInt [of i] length_dumpInt [of j] length_dumpInt [of to]
  have l: "length (beforeText i) \<le> 30" "length (forgedText j) \<le> 30" "length (afterText nm now to) \<le> 360"
    by (simp_all add: beforeText_def forgedText_def afterText_def)
  then show "length (beforeText i @ forgedText j @ afterText nm now to) \<le> 500" by simp
  have "list_all printable (forgedText j)" using forged_printable [of j] by (simp add: list_all_iff)
  from length_escapes [OF this] l
  show "length (beforeText i @ escapes (forgedText j) @ afterText nm now to) \<le> 600" by simp
qed

lemma forged_ascii:
  assumes "safeText nm" "safeText now"
  shows "list_all (\<lambda>c. 0 < byte c \<and> byte c < 128) (beforeText i @ forgedText j @ afterText nm now to)"
proof -
  have p: "list_all (\<lambda>c. 0 < byte c \<and> byte c < 128) s" if "safeText s" for s
    using that by (auto simp: safeText_def printable_def list_all_iff)
  show ?thesis
    using p [OF safe_dumpInt] p [OF assms(1)] p [OF assms(2)]
    by (simp add: beforeText_def forgedText_def afterText_def byte_def dquote_def)
qed

text \<open>The text fits on a line of the client, as \<open>chat_command_sends\<close> wants it.\<close>

lemma forged_typed:
  assumes "fitsInt j" "fitsInt to"
  shows "newline \<notin> set (forgedText j)" "CHR 0x00 \<notin> set (forgedText j)" "length (chatLine to (forgedText j)) < 1024"
proof -
  have "c \<noteq> newline \<and> c \<noteq> CHR 0x00" if "c \<in> set (forgedText j)" for c
    using forged_printable [of j] that by (auto simp: list_all_iff printable_def newline_def byte_def)
  then show "newline \<notin> set (forgedText j)" "CHR 0x00 \<notin> set (forgedText j)" by auto
  show "length (chatLine to (forgedText j)) < 1024"
    using length_dumpInt [OF assms(1)] length_dumpInt [OF assms(2)] by (simp add: chatLine_def forgedText_def)
qed

text \<open>
  C38: Messages are stored without quoting, so the addressee of a stored message can be shown a
  sender it does not have. Whoever \<open>i\<close> is and whichever number \<open>j\<close> is to be forged, user
  \<open>i\<close> can type a text, on a line the client takes, for which the server stores the client's message, the next query for the
  addressee's messages returns a row, and the addressee's client shows that row as a message of user
  \<open>j\<close>: with a database that behaves as documented, the row has lost the backslashes that kept
  the text inside its string.
\<close>

theorem stored_message_forges_sender:
  assumes "db_reachable B" "offline_documented B" "literals_accepted B"
    and "safeText nm" "safeText now" "length nm + length now \<le> 300" "fitsInt i" "fitsInt j" "fitsInt to"
    and "umFind to (ch_conns sv) = None" "userQuery B to sv = Inr (u, sv1)" "us_state u \<noteq> ''online''"
  shows "newline \<notin> set (forgedText j) \<and> CHR 0x00 \<notin> set (forgedText j) \<and> length (chatLine to (forgedText j)) < 1024 \<and>
    (\<exists>s sv2 vec sv3 v. dumpJson (be_floats B) (chatJson i nm to (forgedText j) now) = Inr s \<and>
    serverOnMessage B conn (s @ [CHR 0x00]) sv = Some (Inr sv2) \<and>
    offlineQuery B to sv2 = Inr (vec, sv3) \<and> v \<in> set vec \<and>
    (\<forall>E r. showOffline E [v] r = Inr (println (now @ '' ['' @ dumpInt j @ '']'' @ nm @ ''said:x'') r)))"
proof -
  let ?s = "beforeText i @ escapes (forgedText j) @ afterText nm now to"
  let ?v = "beforeText i @ forgedText j @ afterText nm now to"
  note s = forged_printed [OF assms(4,5), of "be_floats B" i to j]
  note len = forged_lengths [OF assms(6-9)]
  have c: "cstr ?s = ?s" using dump_no_nul(1) [OF s chatJson_ok [OF assms(7,9)]] by (rule cstr_id)
  have "db_exec B log (insertOfflineSql to ?s)" for log
    using assms(3) forged_value [OF assms(4,5)] len(1) forged_ascii [OF assms(4,5)] unfolding literals_accepted_def by blast
  moreover have "length (insertOfflineSql to ?s) < 1024"
    using len(2) length_dumpInt [OF assms(9)] by (simp add: length_insertOfflineSql c)
  moreover have "sqlUnquote (cstr ?s) = Some ?v" unfolding c by (rule forged_value [OF assms(4,5)])
  ultimately obtain sv2 vec sv3 where "offlineInsert B to ?s sv1 = Inr sv2" "offlineQuery B to sv2 = Inr (vec, sv3)" "?v \<in> set vec"
    using literal_stored [OF assms(1,2) _ assms(9)] by metis
  moreover have "showOffline E [?v] r = Inr (println (now @ '' ['' @ dumpInt j @ '']'' @ nm @ ''said:x'') r)" for E r
    by (rule forged_shown [OF assms(4,5,7,8,9)])
  ultimately show ?thesis using s server_stores_chat [OF s assms(7,9,10-12), of conn] forged_typed [OF assms(8,9)] by metis
qed

theorem stored_message_forges_sender_witness:
  "\<exists>s sv2 vec sv3 v. dumpJson plainFloats (chatJson 1 ''ann'' 3 (forgedText 7) ''now'') = Inr s \<and>
     serverOnMessage mailBackend 5 (s @ [CHR 0x00]) freshChat = Some (Inr sv2) \<and>
     offlineQuery mailBackend 3 sv2 = Inr (vec, sv3) \<and> v \<in> set vec \<and>
     showOffline sampleEnv [v] (newClient []) = Inr (println ''now [7]annsaid:x'' (newClient []))"
proof -
  have i: "dumpInt 7 = ''7''" "dumpInt 3 = ''3''" by code_simp+
  have B: "literals_accepted mailBackend" "be_floats mailBackend = plainFloats"
    by (simp_all add: literals_accepted_def mailBackend_def sampleBackend_def)
  have f: "fitsInt 1" "fitsInt 7" "fitsInt 3" "umFind 3 (ch_conns freshChat) = None" by (simp_all add: fitsInt_def freshChat_def umFind_def)
  have t: "safeText ''ann''" "safeText ''now''" "length ''ann'' + length ''now'' \<le> 300"
    by (simp_all add: safeText_def printable_def byte_def dquote_def backslash_def squote_def)
  have "storedOffline k (DbStatement ''set names utf8'' True # [DbConnect True]) = []" for k by (subst storedOffline_skip) simp_all
  then obtain sv1 where q: "userQuery mailBackend 3 freshChat = Inr (newUser, sv1)"
    by (simp add: userQuery_def selectUserSql_def i sqlText_def sqlBuf_def dbQuery_def mysqlConnect_def mysqlQuery_def mailBackend_def
        sampleBackend_def freshChat_def Let_def del: storedOffline.simps)
  have "us_state newUser \<noteq> ''online''" by (simp add: newUser_def)
  note run = stored_message_forges_sender [OF mailBackend_ok B(1) t f(1-4) q this, of 5]
  have "''now'' @ '' ['' @ dumpInt 7 @ '']'' @ ''ann'' @ ''said:x'' = ''now [7]annsaid:x''" by (simp add: i)
  from run [unfolded B(2) this] show ?thesis by blast
qed

end
