(* ===== verification/Samples.thy ===== *)
theory Samples
  imports ChatBackend
begin

text \<open>
  The small programs beside the library: \<^verbatim>\<open>MyMuduo/graceserver.cc\<close> and \<^verbatim>\<open>graceclient.cc\<close>,
  which try out orderly and abrupt closing on bare sockets, and \<^verbatim>\<open>testmuduo/muduo_server.cpp\<close>, an
  echo server on the external muduo. The system calls and muduo's objects are parameters that
  answer from the effects so far, the latest first.
\<close>

section \<open>graceserver.cc\<close>

text \<open>\<open>GSend\<close> holds the bytes the kernel took.\<close>

datatype grace_effect =
    GRead string
  | GPrint string
  | GSend string
  | GSleep nat
  | GShutdown
  | GClose

record grace_ops =
  gr_bind :: bool
  gr_listen :: bool
  gr_accept :: bool
  gr_connect :: bool
  gr_read :: "grace_effect list \<Rightarrow> string option"
  gr_send :: "grace_effect list \<Rightarrow> string \<Rightarrow> nat option"
  gr_select :: "grace_effect list \<Rightarrow> (bool \<times> bool) option"
  gr_shutdown :: "grace_effect list \<Rightarrow> bool"
  gr_close :: "grace_effect list \<Rightarrow> bool"

text \<open>\<open>count\<close> is a static \<^verbatim>\<open>int\<close>.\<close>

record grace_server =
  gs_log :: "grace_effect list"
  gs_count :: int

definition MAXLINE :: nat where
  "MAXLINE = 4096"

definition lf :: char where
  "lf = CHR 0x0A"

definition sig_int :: "grace_server \<Rightarrow> grace_server" where
  "sig_int s = s\<lparr>gs_log := GPrint ([lf] @ ''received '' @ dumpInt (gs_count s) @ '' datagrams'' @ [lf]) # gs_log s\<rparr>"

text \<open>Everything before the loop: the result of \<^verbatim>\<open>socket\<close> is not looked at.\<close>

definition graceServerStart :: "grace_ops \<Rightarrow> fault + grace_server" where
  "graceServerStart G =
     (if \<not> gr_bind G then Inl ExitFailure
      else if \<not> gr_listen G then Inl ExitFailure
      else if \<not> gr_accept G then Inl ExitFailure
      else Inr \<lparr>gs_log = [], gs_count = 0\<rparr>)"

text \<open>
  One turn: \<open>read\<close> gives at most \<open>MAXLINE\<close> bytes, the zero goes behind them, and \<^verbatim>\<open>sprintf\<close>
  writes the greeting, the text up to its first zero and a zero into \<open>MAXLINE\<close> bytes.
\<close>

definition graceServerTurn :: "grace_ops \<Rightarrow> grace_server \<Rightarrow> fault + grace_server" where
  "graceServerTurn G s =
     (case gr_read G (gs_log s) of
        None \<Rightarrow> Inl ExitFailure
      | Some data \<Rightarrow>
          if data = [] then Inl ExitFailure
          else if MAXLINE \<le> length data then Inl OutOfBounds
          else let message = cstr data;
                   s = s\<lparr>gs_log := GPrint (''received '' @ dumpInt (int (length data)) @ '' bytes: '' @ message @ [lf]) #
                           GRead data # gs_log s\<rparr>
               in if \<not> fitsInt (gs_count s + 1) then Inl SignedOverflow
                  else let s = s\<lparr>gs_count := gs_count s + 1\<rparr>;
                           send_line = ''Hi, '' @ message
                       in if MAXLINE \<le> length send_line then Inl OutOfBounds
                          else let s = s\<lparr>gs_log := GSleep 5 # gs_log s\<rparr>
                               in case gr_send G (gs_log s) send_line of
                                    None \<Rightarrow> Inl ExitFailure
                                  | Some n \<Rightarrow> Inr (s\<lparr>gs_log := GPrint (''send bytes: '' @ dumpInt (int n) @ '' '' @ [lf]) #
                                      GSend (take n send_line) # gs_log s\<rparr>))"

partial_function (option) graceServe :: "grace_ops \<Rightarrow> grace_server \<Rightarrow> (fault + grace_server) option" where
  "graceServe G s =
     (case graceServerTurn G s of Inl e \<Rightarrow> Some (Inl e) | Inr s \<Rightarrow> graceServe G s)"

definition graceServerMain :: "grace_ops \<Rightarrow> (fault + grace_server) option" where
  "graceServerMain G = (case graceServerStart G of Inl e \<Rightarrow> Some (Inl e) | Inr s \<Rightarrow> graceServe G s)"

section \<open>graceclient.cc\<close>

text \<open>What is still to come on standard input, whether it is watched, and whether \<^verbatim>\<open>exit(0)\<close> ran.\<close>

record grace_client =
  gc_log :: "grace_effect list"
  gc_in :: string
  gc_watch :: bool
  gc_done :: bool

definition gcEffect :: "grace_effect \<Rightarrow> grace_client \<Rightarrow> grace_client" where
  "gcEffect e s = s\<lparr>gc_log := e # gc_log s\<rparr>"

definition graceClientStart :: "grace_ops \<Rightarrow> string list \<Rightarrow> string \<Rightarrow> fault + grace_client" where
  "graceClientStart G argv input =
     (if length argv \<noteq> 2 then Inl ExitFailure
      else if \<not> gr_connect G then Inl ExitFailure
      else Inr \<lparr>gc_log = [], gc_in = input, gc_watch = True, gc_done = False\<rparr>)"

text \<open>\<^verbatim>\<open>fgets(send_line, MAXLINE, stdin)\<close>: the line with its end, and the rest.\<close>

definition fgetsLine :: "string \<Rightarrow> string" where
  "fgetsLine inp = take (MAXLINE - 1) (takeWhile (\<lambda>c. c \<noteq> lf) inp @ take 1 (dropWhile (\<lambda>c. c \<noteq> lf) inp))"

text \<open>The part for the socket: \<open>recv_line\<close> has a byte more than \<open>read\<close> is asked for.\<close>

definition graceClientRecv :: "grace_ops \<Rightarrow> grace_client \<Rightarrow> fault + grace_client" where
  "graceClientRecv G s =
     (case gr_read G (gc_log s) of
        None \<Rightarrow> Inl ExitFailure
      | Some data \<Rightarrow>
          if data = [] then Inl ExitFailure
          else if MAXLINE + 1 \<le> length data then Inl OutOfBounds
          else Inr (gcEffect (GPrint [lf]) (gcEffect (GPrint (cstr data)) (gcEffect (GRead data) s))))"

text \<open>
  The part for standard input. \<^verbatim>\<open>size_t rt = write(...)\<close> is never negative: an error counts as
  \<open>2 ^ 64 - 1\<close> bytes.
\<close>

definition graceClientInput :: "grace_ops \<Rightarrow> grace_client \<Rightarrow> fault + grace_client" where
  "graceClientInput G s =
     (if gc_in s = [] then Inr s
      else let line = fgetsLine (gc_in s);
               s = s\<lparr>gc_in := drop (length line) (gc_in s)\<rparr>;
               send_line = cstr line
           in if take 8 send_line = ''shutdown''
              then let s = s\<lparr>gc_watch := False\<rparr>
                   in if gr_shutdown G (gc_log s) then Inr (gcEffect GShutdown s) else Inl ExitFailure
              else if take 5 send_line = ''close''
              then let s = s\<lparr>gc_watch := False\<rparr>
                   in if gr_close G (gc_log s) then Inr ((gcEffect (GSleep 6) (gcEffect GClose s))\<lparr>gc_done := True\<rparr>)
                      else Inl ExitFailure
              else if send_line = [] then Inl OutOfBounds
              else let send_line = (if last send_line = lf then butlast send_line else send_line);
                       s = gcEffect (GPrint (''now sending '' @ send_line @ [lf])) s;
                       rt = gr_send G (gc_log s) send_line;
                       s = (case rt of None \<Rightarrow> s | Some n \<Rightarrow> gcEffect (GSend (take n send_line)) s)
                   in Inr (gcEffect (GPrint (''send bytes: '' @ dumpInt (case rt of None \<Rightarrow> 2 ^ 64 - 1 | Some n \<Rightarrow> int n) @ '' '' @ [lf])) s))"

definition graceClientTurn :: "grace_ops \<Rightarrow> grace_client \<Rightarrow> fault + grace_client" where
  "graceClientTurn G s =
     (case gr_select G (gc_log s) of
        None \<Rightarrow> Inl ExitFailure
      | Some (sock, inp) \<Rightarrow>
          bind_res (if sock then graceClientRecv G s else Inr s) (\<lambda>s'.
          if inp \<and> gc_watch s then graceClientInput G s' else Inr s'))"

partial_function (option) graceClientLoop :: "grace_ops \<Rightarrow> grace_client \<Rightarrow> (fault + grace_client) option" where
  "graceClientLoop G s =
     (if gc_done s then Some (Inr s)
      else case graceClientTurn G s of Inl e \<Rightarrow> Some (Inl e) | Inr s \<Rightarrow> graceClientLoop G s)"

definition graceClientMain :: "grace_ops \<Rightarrow> string list \<Rightarrow> string \<Rightarrow> (fault + grace_client) option" where
  "graceClientMain G argv input =
     (case graceClientStart G argv input of Inl e \<Rightarrow> Some (Inl e) | Inr s \<Rightarrow> graceClientLoop G s)"

section \<open>muduo_server.cpp\<close>

text \<open>
  The texts of a connection's addresses and of a time are muduo's; a connection is a number.
\<close>

datatype sample_effect =
    SOut string
  | SSend nat string
  | SShutdown nat
  | SMakeServer string "16 word" string
  | SSetConnectionCallback
  | SSetMessageCallback
  | SSetThreadNum int
  | SStart
  | SLoop

definition sampleOnConnection :: "(nat \<Rightarrow> string) \<Rightarrow> (nat \<Rightarrow> string) \<Rightarrow> bool \<Rightarrow> nat \<Rightarrow> sample_effect list \<Rightarrow> sample_effect list" where
  "sampleOnConnection peer local connected conn log =
     (if connected then SOut (peer conn @ '' -> '' @ local conn @ '' state:online'' @ [lf]) # log
      else SShutdown conn # SOut (peer conn @ '' -> '' @ local conn @ '' state:offline'' @ [lf]) # log)"

text \<open>\<open>buf\<close> is what \<^verbatim>\<open>buffer->retrieveAllAsString()\<close> returned.\<close>

definition sampleOnMessage :: "('t \<Rightarrow> string) \<Rightarrow> nat \<Rightarrow> string \<Rightarrow> 't \<Rightarrow> sample_effect list \<Rightarrow> sample_effect list" where
  "sampleOnMessage toString conn buf time log =
     SSend conn buf # SOut (''recv data:'' @ buf @ ''  time:'' @ toString time @ [lf]) # log"

definition newSampleServer :: "string \<Rightarrow> 16 word \<Rightarrow> string \<Rightarrow> sample_effect list \<Rightarrow> sample_effect list" where
  "newSampleServer ip port nm log =
     SSetThreadNum 4 # SSetMessageCallback # SSetConnectionCallback # SMakeServer ip port nm # log"

definition sampleMain :: "sample_effect list" where
  "sampleMain = SLoop # SStart # newSampleServer ''192.168.212.128'' 6000 ''ChatServer'' []"

section \<open>Where the buffers end\<close>

lemma graceServerTurn_ok:
  assumes "gr_read G (gs_log s) = Some data" "data \<noteq> []" "length data < MAXLINE" "length (cstr data) + 4 < MAXLINE"
    and "fitsInt (gs_count s + 1)" "\<And>log m. gr_send G log m = Some (length m)"
  shows "\<exists>s'. graceServerTurn G s = Inr s' \<and> GSend (''Hi, '' @ cstr data) \<in> set (gs_log s') \<and> gs_count s' = gs_count s + 1"
  using assms by (auto simp: graceServerTurn_def Let_def)

text \<open>
  The buffers of \<^verbatim>\<open>graceserver\<close> are too short: as long as the counter fits, a turn leaves
  them exactly when the client sends a full 4096 bytes in one read, where the closing zero goes
  one byte too far, or when what it sends has 4092 bytes or more before a zero, where the greeting
  pushes the text out.
\<close>

theorem grace_server_overflows:
  assumes "gr_read G (gs_log s) = Some data" "length data \<le> MAXLINE" "fitsInt (gs_count s + 1)"
  shows "graceServerTurn G s = Inl OutOfBounds \<longleftrightarrow> length data = MAXLINE \<or> MAXLINE \<le> length (cstr data) + 4"
  using assms by (auto simp: graceServerTurn_def Let_def MAXLINE_def cstr_def split: option.splits)

definition graceSample :: "nat \<Rightarrow> grace_ops" where
  "graceSample n = \<lparr>gr_bind = True, gr_listen = True, gr_accept = True, gr_connect = True,
     gr_read = (\<lambda>log. Some (replicate n (CHR ''a''))), gr_send = (\<lambda>log s. Some (length s)),
     gr_select = (\<lambda>log. Some (True, True)), gr_shutdown = (\<lambda>log. True), gr_close = (\<lambda>log. True)\<rparr>"

theorem grace_server_overflows_witness:
  "graceServerTurn (graceSample 4092) \<lparr>gs_log = [], gs_count = 0\<rparr> = Inl OutOfBounds \<and>
   graceServerTurn (graceSample 4091) \<lparr>gs_log = [], gs_count = 0\<rparr> \<noteq> Inl OutOfBounds"
proof -
  have c: "cstr (replicate n (CHR ''a'')) = replicate n (CHR ''a'')" for n by (rule cstr_id) simp
  show ?thesis
    using grace_server_overflows [of "graceSample 4092" "\<lparr>gs_log = [], gs_count = 0\<rparr>" "replicate 4092 (CHR ''a'')"]
      grace_server_overflows [of "graceSample 4091" "\<lparr>gs_log = [], gs_count = 0\<rparr>" "replicate 4091 (CHR ''a'')"]
    by (simp add: graceSample_def MAXLINE_def fitsInt_def c)
qed

text \<open>The loop of the server is left only by a fault or an error exit.\<close>

lemma graceServe_never_returns: "graceServe G s = Some r \<Longrightarrow> \<exists>e. r = Inl e"
proof -
  assume r: "graceServe G s = Some r"
  show ?thesis
  proof (rule graceServe.raw_induct [where P = "\<lambda>G s r. \<exists>e. r = Inl e", OF _ r])
    fix serve G s and r :: "fault + grace_server"
    assume "\<And>G s r. serve G s = Some r \<Longrightarrow> \<exists>e. r = Inl e"
      and "(case graceServerTurn G s of Inl e \<Rightarrow> Some (Inl e) | Inr s \<Rightarrow> serve G s) = Some r"
    then show "\<exists>e. r = Inl e" by (cases "graceServerTurn G s") auto
  qed
qed

text \<open>The client does not notice that \<^verbatim>\<open>write\<close> failed, and at the end of its input it spins.\<close>

lemma graceClient_misses_write_error:
  assumes "gr_select G (gc_log s) = Some (False, True)" "gc_watch s" "gc_in s = line @ [lf]" "lf \<notin> set line" "CHR 0x00 \<notin> set line"
    and "length line + 1 < MAXLINE" "take 8 (line @ [lf]) \<noteq> ''shutdown''" "take 5 (line @ [lf]) \<noteq> ''close''" "\<And>log m. gr_send G log m = None"
  shows "graceClientTurn G s = Inr (gcEffect (GPrint (''send bytes: '' @ dumpInt (2 ^ 64 - 1) @ '' '' @ [lf]))
    (gcEffect (GPrint (''now sending '' @ line @ [lf])) (s\<lparr>gc_in := []\<rparr>)))"
proof -
  have "takeWhile (\<lambda>c. c \<noteq> lf) (line @ [lf]) = line" "dropWhile (\<lambda>c. c \<noteq> lf) (line @ [lf]) = [lf]"
    using assms(4) by (subst takeWhile_append2 dropWhile_append2; force)+
  with assms(6) have "fgetsLine (line @ [lf]) = line @ [lf]" by (simp add: fgetsLine_def)
  moreover have "cstr (line @ [lf]) = line @ [lf]" using assms(5) by (intro cstr_id) (auto simp: lf_def)
  ultimately show ?thesis using assms(1-3,7-9)
    by (simp add: graceClientTurn_def graceClientInput_def Let_def gcEffect_def)
qed

lemma graceClient_spins_at_eof:
  assumes "gr_select G (gc_log s) = Some (False, True)" "gc_in s = []"
  shows "graceClientTurn G s = Inr s"
  using assms by (simp_all add: graceClientTurn_def graceClientInput_def)

end
