(* ===== verification/Spec2Isabelle.thy ===== *)
theory Spec2Isabelle
  imports Prelude Buffer Kernel Channel EPollPoller EventLoop Registration Wakeup InetAddress TcpConnection ConnStream ConnLife Acceptor LoopPool Threads ThreadEnd TcpServer ServerLife EchoServer EchoSession LoopQuit CrossSend
    Json JsonRound JsonUtf8 JsonFrame JsonValid ChatBackend ChatModel ChatService ChatDelivery ChatOffline ChatLogin ChatServer ChatAuth ChatLock Timestamp ChatClient ChatTravel ChatFraming ChatCross ChatSession ChatAnswer ChatJam ChatForge Samples
begin

text \<open>
  \<^bold>\<open>The program.\<close> The repository holds two systems. \<^verbatim>\<open>project/MyMuduo\<close> is a network library in
  C++ after muduo: one event loop per thread over epoll, non-blocking TCP connections with buffers
  at user level, a server that spreads its connections over a pool of loops; \<^verbatim>\<open>project/testmymuduo\<close>
  is an echo server on it. \<^verbatim>\<open>project/CHAT\<close> is a chat system, a server on the external muduo
  library with MySQL and redis behind it, and a client with two threads; the two talk JSON through
  the vendored \<^verbatim>\<open>thirdparty/json.hpp\<close>. Beside them are small programs:
  \<^verbatim>\<open>graceserver.cc\<close>, \<^verbatim>\<open>graceclient.cc\<close> and \<^verbatim>\<open>testmuduo/muduo_server.cpp\<close>.

  \<^bold>\<open>How it is modelled.\<close> Every operation is a function from its arguments and a record of the
  state to a result: \<open>Inl\<close> of a \<open>fault\<close> for an exception, an exit or undefined behaviour
  (theory \<open>Prelude\<close>), \<open>Inr\<close> of the value and the new state otherwise; an \<open>option\<close> around it
  where a loop may not end, by \<open>partial_function\<close>, so that \<open>None\<close> is a call that never returns.
  What threads do to one another is a step relation, with the states it reaches. Objects that the
  code shares by pointer (channels, loops, connections) live in tables from numbers to records.
  System calls, the clock, the libraries \<^verbatim>\<open>libmysqlclient\<close>, \<^verbatim>\<open>hiredis\<close> and the external muduo,
  the arithmetic of \<^verbatim>\<open>double\<close> and the order of a hash map are parameters: records of functions
  that answer from the log of what was done so far, and so may behave in any way; a theorem that
  needs a promise of theirs names it as a hypothesis. Integers that the code can overflow keep their
  width: \<^verbatim>\<open>size_t\<close> modulo \<open>2 ^ 64\<close>, \<^verbatim>\<open>int\<close> and \<^verbatim>\<open>int64_t\<close> with \<open>SignedOverflow\<close>,
  masks and ports as words.

  \<^bold>\<open>MyMuduo.\<close>
  \<^item> \<open>Buffer\<close>: \<^verbatim>\<open>Buffer.h\<close>, \<^verbatim>\<open>Buffer.cc\<close>. The vector with its two indices refines a queue of
    bytes (locale \<open>byte_queue\<close>); when \<open>append\<close> fails; \<open>readFd\<close> with its block on the stack.
  \<^item> \<open>Kernel\<close>, \<open>Channel\<close>, \<open>EPollPoller\<close>: the system calls, \<^verbatim>\<open>Channel.cc\<close>, and
    \<^verbatim>\<open>Poller.h\<close>, \<^verbatim>\<open>EPollPoller.cc\<close>, \<^verbatim>\<open>DefaultPoller.cc\<close>. \<open>Registration\<close> shows that the
    layers from \<^verbatim>\<open>enableReading\<close> down to \<^verbatim>\<open>epoll_ctl\<close> implement a table of masks (locale
    \<open>channel_registry\<close>).
  \<^item> \<open>EventLoop\<close>: \<^verbatim>\<open>EventLoop.cc\<close>, one thread at a time; \<open>Wakeup\<close>: the loop against threads
    that queue functors and quit it, step by step; no wakeup is lost but for functors the loop's own
    thread queued before \<^verbatim>\<open>loop()\<close>, which may have to wait; functors run once, in order.
    \<open>LoopQuit\<close>: a \<^verbatim>\<open>quit()\<close> that comes before \<^verbatim>\<open>loop()\<close> is lost, on the turns of the real loop.
  \<^item> \<open>TcpConnection\<close>, with \<open>ConnStream\<close> (the bytes of a connection: what was sent is what is
    written and what waits), \<open>ConnLife\<close> (callbacks, tie, establishing and destroying) and
    \<open>CrossSend\<close> (\<^verbatim>\<open>send\<close> from another thread hands over an address: what the loop finds there).
  \<^item> \<open>InetAddress\<close>, \<open>Socket\<close>, \<open>Acceptor\<close>; \<open>LoopPool\<close> (locale \<open>loop_chooser\<close>);
    \<open>Threads\<close>: \<^verbatim>\<open>Thread.cc\<close>, \<^verbatim>\<open>CurrentThread\<close> and the start of an \<^verbatim>\<open>EventLoopThread\<close>;
    \<open>ThreadEnd\<close>: its end.
  \<^item> \<open>TcpServer\<close> and \<open>ServerLife\<close>: the table of connections, across two loops. \<open>EchoServer\<close>:
    \<^verbatim>\<open>testmuduo.cc\<close>, on the locale \<open>tcp_stream\<close> that \<open>TcpConnection\<close> provides;
    \<open>EchoSession\<close>: one of its connections, from the descriptor to the last byte.
  \<^item> \<open>Timestamp\<close>: \<^verbatim>\<open>Timestamp.h\<close> and \<^verbatim>\<open>Logger.h\<close> with their \<^verbatim>\<open>.cc\<close> files. At the callers
    of the logger the lines are left out; \<^verbatim>\<open>LOG_FATAL\<close> is the fault \<open>ExitFailure\<close>.

  \<^bold>\<open>CHAT.\<close>
  \<^item> \<open>Json\<close>: of \<^verbatim>\<open>json.hpp\<close> what the programs use: values, access, \<^verbatim>\<open>dump\<close>, the lexer and
    the parser. \<open>JsonRound\<close>: parsing undoes printing. \<open>JsonUtf8\<close>: the automaton of the serializer
    accepts exactly UTF-8. \<open>JsonValid\<close>: what is parsed can be printed. \<open>JsonFrame\<close>: a NUL ends the
    input, and no proper part of an object's text is a value.
  \<^item> \<open>ChatBackend\<close>: \<^verbatim>\<open>db.cpp\<close> and \<^verbatim>\<open>redis.cpp\<close>; \<open>ChatModel\<close>: \<^verbatim>\<open>model/*.cpp\<close>;
    \<open>ChatService\<close>: \<^verbatim>\<open>chatservice.cpp\<close> and \<^verbatim>\<open>chatserver.cpp\<close>, a definition per handler.
  \<^item> \<open>ChatDelivery\<close> (a message is handed over exactly once; locale \<open>single_delivery\<close>),
    \<open>ChatOffline\<close> (the table of stored messages; locale \<open>mailbox\<close>), \<open>ChatLogin\<close> (one answer per
    login), \<open>ChatServer\<close> (the server as a transition system, its invariant, and what closing and a
    missing redis do), \<open>ChatAuth\<close> (runs with their events: entries of the connection map come from
    logins, other requests are not authenticated), \<open>ChatLock\<close> (the lock of the connection map, which
    two handlers do not take: who is inside, which iterators are valid after erasing and rehashing,
    and which threads race for the map). \<open>ChatForge\<close>: what a stored message says once MySQL has
    read its literal.
  \<^item> \<open>ChatClient\<close>: \<^verbatim>\<open>client/main.cpp\<close>, with \<^verbatim>\<open>cin\<close> and its error bits; \<open>ChatTravel\<close> (a chat
    line from one terminal to another; what ends a client), \<open>ChatJam\<close> (a line that is too long), \<open>ChatCross\<close> (the same across two
    servers and redis), \<open>ChatFraming\<close> (reads with more or less than one message), \<open>ChatSession\<close> (the chat menu
    needs an accepted login), \<open>ChatAnswer\<close> (the answer to a login is read as it was written; locale
    \<open>text_codec\<close>).
  \<^item> \<open>Samples\<close>: the small programs.

  \<^bold>\<open>Bounds and loops.\<close> The loops that end are recursions on their data or have a measure. Those
  that may not (the event loop, the loop around \<^verbatim>\<open>redisBufferWrite\<close>, the small programs) are
  partial functions, and that they end is proved from what their callers provide, as in
  \<open>redis_command_returns\<close>, or that they do not, as in \<open>quit_before_loop_is_lost\<close>. Steps are counted
  only in \<open>lock_is_given_back\<close>, three of a thread's own. No definition has fuel. Buffers have the sizes of the code: 1024 bytes for
  a statement, a line and a \<^verbatim>\<open>recv\<close>, 64 for a connection's name, 4096 in the small programs.

  \<^bold>\<open>Not modelled.\<close> Who still holds a \<^verbatim>\<open>shared_ptr\<close>: destructors are operations of their own, and
  using what is gone is a fault. The timestamp passed to callbacks. Of \<^verbatim>\<open>json.hpp\<close>, what the chat
  programs do not call, and the conversion of floating-point numbers, a parameter. The destructors
  of \<^verbatim>\<open>MySQL\<close> and \<^verbatim>\<open>Redis\<close>, which free memory. Memory orders weaker than interleaving, and what a
  data race does to the objects raced for: for the connection map of the chat server the state
  records that a race has happened, and nothing is claimed of it then. What MySQL makes of a literal
  is its documented reading in the default SQL mode, a hypothesis on the database parameter. \<^verbatim>\<open>noncopyable.h\<close>, \<^verbatim>\<open>HttpData\<close> and \<^verbatim>\<open>Timer.h\<close> have no
  behaviour, and the files under \<^verbatim>\<open>build\<close> are generated by CMake.
\<close>

end
